(* ===== verification/Frp_Prelude.thy ===== *)
theory Frp_Prelude
  imports Main "HOL-Library.Char_ord" "HOL-Library.List_Lexorder" "HOL-Library.Sublist"
begin

text \<open>
  Shared vocabulary of the development: the Go values every component uses (strings as byte
  lists, times and durations as integer nanoseconds), the parts of Go's \<open>strings\<close>, \<open>slices\<close> and
  \<open>strconv\<close> packages the sources call, and the generic lemmas on lists and maps that the
  component proofs share.
\<close>

named_theorems frp_defs \<open>definitions a component proof unfolds\<close>
named_theorems frp_inv \<open>facts that an operation keeps an invariant\<close>

section \<open>Times\<close>

text \<open>
  A \<open>time.Time\<close> is the integer number of nanoseconds since Go's zero time, a \<open>time.Duration\<close> a
  difference of two such numbers.
\<close>

type_synonym go_time = int
type_synonym duration = int

definition Second :: duration where "Second = 1000000000"
definition Hour :: duration where "Hour = 3600 * Second"

section \<open>Results\<close>

text \<open>A fallible call returns \<open>Inl\<close> of its error or \<open>Inr\<close> of its value.\<close>

type_synonym ('e, 'a) result = "'e + 'a"

fun is_ok :: "('e, 'a) result \<Rightarrow> bool" where
  "is_ok (Inl _) = False"
| "is_ok (Inr _) = True"

lemma is_ok_iff: "is_ok r \<longleftrightarrow> (\<exists>x. r = Inr x)"
  by (cases r) auto

section \<open>Maps\<close>

lemma dom_upd_Diff [simp]: "dom (m(k := None)) = dom m - {k}"
  by auto

lemma ran_delete:
  assumes "m k = Some v" "\<And>k'. m k' = Some v \<Longrightarrow> k' = k"
  shows "ran (m(k := None)) = ran m - {v}"
proof (intro set_eqI iffI)
  fix x assume "x \<in> ran (m(k := None))"
  then obtain j where "j \<noteq> k" "m j = Some x" by (auto simp: ran_def split: if_splits)
  moreover have "x \<noteq> v" using assms(2) [of j] calculation by blast
  ultimately show "x \<in> ran m - {v}" by (auto intro: ranI)
next
  fix x assume "x \<in> ran m - {v}"
  then obtain j where "m j = Some x" "x \<noteq> v" by (auto simp: ran_def)
  then have "(m(k := None)) j = Some x" using assms(1) by auto
  then show "x \<in> ran (m(k := None))" by (rule ranI)
qed

lemma Some_dom: "m k = Some v \<Longrightarrow> k \<in> dom m"
  by auto

section \<open>Strings\<close>

text \<open>
  A Go string is its bytes. \<open>strings.ToLower\<close> is given for ASCII, which is what host names consist of;
  bytes outside ASCII are left alone.
\<close>

definition char_lower :: "char \<Rightarrow> char" where
  "char_lower c = (let n = of_char c :: nat in if 65 \<le> n \<and> n \<le> 90 then char_of (n + 32) else c)"

definition ToLower :: "string \<Rightarrow> string" where
  "ToLower s = map char_lower s"

fun Split :: "char \<Rightarrow> string \<Rightarrow> string list" where
  "Split c [] = [[]]"
| "Split c (x # xs) =
     (if x = c then [] # Split c xs
      else case Split c xs of [] \<Rightarrow> [[x]] | y # ys \<Rightarrow> (x # y) # ys)"

fun Join :: "char \<Rightarrow> string list \<Rightarrow> string" where
  "Join c [] = []"
| "Join c [x] = x"
| "Join c (x # y # ys) = x @ c # Join c (y # ys)"

lemma char_lower_idem [simp]: "char_lower (char_lower c) = char_lower c"
proof (cases "65 \<le> (of_char c :: nat) \<and> (of_char c :: nat) \<le> 90")
  case True
  then have "char_lower c = char_of ((of_char c :: nat) + 32)" by (simp add: char_lower_def)
  moreover have "(of_char (char_of ((of_char c :: nat) + 32)) :: nat) = of_char c + 32"
    using True by (simp add: of_char_of)
  ultimately show ?thesis using True by (simp add: char_lower_def)
qed (auto simp: char_lower_def)

lemma ToLower_idem [simp]: "ToLower (ToLower s) = ToLower s"
  by (simp add: ToLower_def)

lemma ToLower_Nil [simp]: "ToLower [] = []"
  by (simp add: ToLower_def)

lemma Split_ne [simp]: "Split c s \<noteq> []"
  by (induction s) (auto split: list.splits)

lemma Join_Cons: "ys \<noteq> [] \<Longrightarrow> Join c (x # ys) = x @ c # Join c ys"
  by (cases ys) auto

lemma Join_Cons_Cons: "Join c ((x # y) # ys) = x # Join c (y # ys)"
  by (cases ys) auto

lemma Join_Split [simp]: "Join c (Split c s) = s"
  by (induction s) (auto simp: Join_Cons Join_Cons_Cons split: list.splits)

lemma Split_no_sep: "c \<notin> set s \<Longrightarrow> Split c s = [s]"
  by (induction s) auto

lemma Split_append_sep: "c \<notin> set x \<Longrightarrow> Split c (x @ c # s) = x # Split c s"
  by (induction x) auto

lemma Split_parts: "x \<in> set (Split c s) \<Longrightarrow> c \<notin> set x"
  by (induction s arbitrary: x) (auto split: if_splits list.splits)

lemma Split_Join: "xs \<noteq> [] \<Longrightarrow> \<forall>x \<in> set xs. c \<notin> set x \<Longrightarrow> Split c (Join c xs) = xs"
  by (induction c xs rule: Join.induct) (auto simp: Split_no_sep Split_append_sep)

section \<open>Lists\<close>

text \<open>
  \<open>slices.SortFunc\<close> may order equal elements either way; where the keys are distinct its result is the
  only list in strict order with the same elements.
\<close>

lemma sorted_wrt_unique:
  assumes "asymp R"
  shows "sorted_wrt R xs \<Longrightarrow> sorted_wrt R ys \<Longrightarrow> set xs = set ys \<Longrightarrow> xs = ys"
proof (induction xs arbitrary: ys)
  case (Cons x xs)
  then obtain y zs where ys: "ys = y # zs" by (cases ys) auto
  have "x = y"
  proof (rule ccontr)
    assume "x \<noteq> y"
    with Cons.prems ys have "R x y" "R y x" by auto
    with assms show False by (auto dest: asympD)
  qed
  moreover have irr: "\<not> R z z" for z using assms by (auto dest: asympD)
  with Cons.prems(1,2) ys have "x \<notin> set xs" "y \<notin> set zs" by auto
  with Cons.prems(3) ys \<open>x = y\<close> have "set xs = set zs" by (simp add: insert_ident)
  ultimately show ?case using Cons ys by auto
qed simp

lemma find_key_Some:
  "distinct (map f xs) \<Longrightarrow> find (\<lambda>x. a = f x) xs = Some v \<longleftrightarrow> v \<in> set xs \<and> f v = a"
  by (induction xs) (auto simp: image_iff)

lemma find_prop: "find P xs = Some v \<Longrightarrow> P v \<and> v \<in> set xs"
  by (induction xs) (auto split: if_splits)

text \<open>Two prefixes of one list are comparable, and the longer one is the greater one bytewise.\<close>

lemma prefix_less_if_shorter:
  fixes xs ys :: "'a::linorder list"
  assumes "prefix xs zs" "prefix ys zs" "length xs < length ys"
  shows "xs < ys"
proof -
  from assms have "strict_prefix xs ys"
    by (metis prefix_length_prefix less_imp_le strict_prefix_def less_irrefl)
  then obtain a as where "ys = xs @ a # as" by (auto elim: strict_prefixE')
  then show ?thesis by (induction xs arbitrary: ys) (auto simp: less_list_code)
qed

end
