(* ===== verification/Client_Registry.thy ===== *)
theory Client_Registry
  imports Frp_Prelude
begin

text \<open>
  The registry of connected clients (\<open>server/registry/registry.go\<close>). A client is known under a key made of
  its user and its client id (or its run id when it gave none); a second map leads from the run id of a
  live session back to the key. The clock is the argument \<open>now\<close>. The records behind the pointers of
  \<open>clients\<close> are never shared (\<open>List\<close> and \<open>GetByKey\<close> copy them), so the map holds them by value.
\<close>

section \<open>Data\<close>

record ClientInfo =
  ci_Key :: string
  ci_User :: string
  ci_RawClientID :: string
  ci_RunID :: string
  ci_Hostname :: string
  ci_IP :: string
  ci_Version :: string
  ci_WireProtocol :: string
  ci_FirstConnectedAt :: go_time
  ci_LastConnectedAt :: go_time
  ci_DisconnectedAt :: go_time
  ci_Online :: bool

definition zeroClientInfo :: ClientInfo where
  "zeroClientInfo = \<lparr>ci_Key = [], ci_User = [], ci_RawClientID = [], ci_RunID = [], ci_Hostname = [], ci_IP = [],
     ci_Version = [], ci_WireProtocol = [], ci_FirstConnectedAt = 0, ci_LastConnectedAt = 0,
     ci_DisconnectedAt = 0, ci_Online = False\<rparr>"

record ClientRegistry =
  cr_clients :: "string \<rightharpoonup> ClientInfo"
  cr_runIndex :: "string \<rightharpoonup> string"

section \<open>Operations\<close>

definition newClientRegistryWithClock :: ClientRegistry where
  "newClientRegistryWithClock = \<lparr>cr_clients = Map.empty, cr_runIndex = Map.empty\<rparr>"

definition composeClientKey :: "string \<Rightarrow> string \<Rightarrow> string" where
  "composeClientKey user cid =
     (if user = [] then cid else if cid = [] then user else user @ ''.'' @ cid)"

definition Register ::
  "go_time \<Rightarrow> string \<Rightarrow> string \<Rightarrow> string \<Rightarrow> string \<Rightarrow> string \<Rightarrow> string \<Rightarrow> string \<Rightarrow> ClientRegistry \<Rightarrow>
     (string \<times> bool) \<times> ClientRegistry" where
  "Register now user rawClientID runID hostname version remoteAddr wireProtocol cr =
     (if runID = [] then (([], False), cr)
      else
        let effectiveID = (if rawClientID = [] then runID else rawClientID);
            key = composeClientKey user effectiveID;
            enforceUnique = (rawClientID \<noteq> []);
            found = cr_clients cr key
        in if enforceUnique \<and> (case found of None \<Rightarrow> False
                | Some info \<Rightarrow> ci_Online info \<and> ci_RunID info \<noteq> [] \<and> ci_RunID info \<noteq> runID)
           then ((key, True), cr)
           else
             let info = (case found of None \<Rightarrow>
                     zeroClientInfo\<lparr>ci_Key := key, ci_User := user, ci_FirstConnectedAt := now\<rparr>
                   | Some info \<Rightarrow> info);
                 index = (case found of None \<Rightarrow> cr_runIndex cr
                   | Some old \<Rightarrow> if ci_RunID old \<noteq> [] then (cr_runIndex cr)(ci_RunID old := None)
                       else cr_runIndex cr);
                 info' = info\<lparr>ci_RawClientID := rawClientID, ci_RunID := runID, ci_Hostname := hostname,
                   ci_IP := remoteAddr, ci_Version := version, ci_WireProtocol := wireProtocol,
                   ci_FirstConnectedAt :=
                     (if ci_FirstConnectedAt info = 0 then now else ci_FirstConnectedAt info),
                   ci_LastConnectedAt := now, ci_DisconnectedAt := 0, ci_Online := True\<rparr>
             in ((key, False), \<lparr>cr_clients = (cr_clients cr)(key \<mapsto> info'), cr_runIndex = index(runID \<mapsto> key)\<rparr>))"

definition MarkOfflineByRunID :: "go_time \<Rightarrow> string \<Rightarrow> ClientRegistry \<Rightarrow> ClientRegistry" where
  "MarkOfflineByRunID now runID cr =
     (case cr_runIndex cr runID of None \<Rightarrow> cr
      | Some key \<Rightarrow>
         let clients' =
           (case cr_clients cr key of
              Some info \<Rightarrow>
                if ci_RunID info = runID then
                  if ci_RawClientID info = [] then (cr_clients cr)(key := None)
                  else (cr_clients cr)(key \<mapsto>
                    info\<lparr>ci_RunID := [], ci_Online := False, ci_DisconnectedAt := now\<rparr>)
                else cr_clients cr
            | None \<Rightarrow> cr_clients cr)
         in \<lparr>cr_clients = clients', cr_runIndex = (cr_runIndex cr)(runID := None)\<rparr>)"

text \<open>\<open>order\<close> is the order in which Go iterates over the map.\<close>

definition listClients :: "string list \<Rightarrow> ClientRegistry \<Rightarrow> ClientInfo list" where
  "listClients order cr = List.map_filter (cr_clients cr) order"

definition GetByKey :: "string \<Rightarrow> ClientRegistry \<Rightarrow> ClientInfo option" where
  "GetByKey key cr = cr_clients cr key"

definition ClientID :: "ClientInfo \<Rightarrow> string" where
  "ClientID info = (if ci_RawClientID info \<noteq> [] then ci_RawClientID info else ci_RunID info)"

section \<open>Invariant\<close>

text \<open>
  What the two maps agree on: a run id in the index leads to the client that has this run id; a client
  is stored under its own key, is online exactly when it has a run id, and is kept offline only if it
  gave a client id of its own.
\<close>

definition client_ok :: "string \<Rightarrow> ClientInfo \<Rightarrow> bool" where
  "client_ok k info \<longleftrightarrow> ci_Key info = k \<and> (ci_Online info \<longleftrightarrow> ci_RunID info \<noteq> []) \<and>
     (\<not> ci_Online info \<longrightarrow> ci_RawClientID info \<noteq> [])"

definition registry_inv :: "ClientRegistry \<Rightarrow> bool" where
  "registry_inv cr \<longleftrightarrow>
     (\<forall>r k. cr_runIndex cr r = Some k \<longrightarrow> (\<exists>info. cr_clients cr k = Some info \<and> ci_RunID info = r \<and> r \<noteq> [])) \<and>
     (\<forall>k info. cr_clients cr k = Some info \<longrightarrow> client_ok k info)"

lemma registry_invD:
  assumes "registry_inv cr"
  shows "cr_runIndex cr r = Some k \<Longrightarrow> \<exists>info. cr_clients cr k = Some info \<and> ci_RunID info = r \<and> r \<noteq> []"
    and "cr_clients cr k = Some info \<Longrightarrow> client_ok k info"
  using assms by (auto simp: registry_inv_def)

text \<open>The session a key is in, if any.\<close>

definition session :: "ClientRegistry \<Rightarrow> string \<rightharpoonup> string" where
  "session cr k = (case cr_clients cr k of Some info \<Rightarrow> if ci_Online info then Some (ci_RunID info) else None
     | None \<Rightarrow> None)"

definition client_key :: "string \<Rightarrow> string \<Rightarrow> string \<Rightarrow> string" where
  "client_key user raw runID = composeClientKey user (if raw = [] then runID else raw)"

definition conflicts :: "string \<Rightarrow> string \<Rightarrow> string \<Rightarrow> ClientRegistry \<Rightarrow> bool" where
  "conflicts user raw runID cr \<longleftrightarrow> raw \<noteq> [] \<and>
     (case session cr (client_key user raw runID) of Some r \<Rightarrow> r \<noteq> [] \<and> r \<noteq> runID | None \<Rightarrow> False)"

text \<open>The record a successful registration leaves, and the registry around it.\<close>

definition registered ::
  "go_time \<Rightarrow> string \<Rightarrow> string \<Rightarrow> string \<Rightarrow> string \<Rightarrow> string \<Rightarrow> string \<Rightarrow> string \<Rightarrow> ClientInfo option \<Rightarrow> ClientInfo" where
  "registered now user raw runID hostname version remoteAddr wireProtocol found =
     \<lparr>ci_Key = (case found of None \<Rightarrow> client_key user raw runID | Some i \<Rightarrow> ci_Key i),
      ci_User = (case found of None \<Rightarrow> user | Some i \<Rightarrow> ci_User i),
      ci_RawClientID = raw, ci_RunID = runID, ci_Hostname = hostname, ci_IP = remoteAddr,
      ci_Version = version, ci_WireProtocol = wireProtocol,
      ci_FirstConnectedAt = (case found of None \<Rightarrow> now
         | Some i \<Rightarrow> if ci_FirstConnectedAt i = 0 then now else ci_FirstConnectedAt i),
      ci_LastConnectedAt = now, ci_DisconnectedAt = 0, ci_Online = True\<rparr>"

lemma Register_cases:
  "Register now user raw runID hostname version addr wire cr =
     (if runID = [] then (([], False), cr)
      else if conflicts user raw runID cr then ((client_key user raw runID, True), cr)
      else ((client_key user raw runID, False),
        \<lparr>cr_clients = (cr_clients cr)(client_key user raw runID \<mapsto>
           registered now user raw runID hostname version addr wire (cr_clients cr (client_key user raw runID))),
         cr_runIndex = (case cr_clients cr (client_key user raw runID) of None \<Rightarrow> cr_runIndex cr
            | Some old \<Rightarrow> if ci_RunID old \<noteq> [] then (cr_runIndex cr)(ci_RunID old := None)
                 else cr_runIndex cr)(runID \<mapsto> client_key user raw runID)\<rparr>))"
  unfolding Register_def Let_def conflicts_def session_def client_key_def [symmetric]
  by (cases "cr_clients cr (client_key user raw runID)")
     (auto simp: registered_def zeroClientInfo_def)

lemma new_registry_inv: "registry_inv newClientRegistryWithClock"
  by (simp add: registry_inv_def newClientRegistryWithClock_def)

lemma registry_invI:
  assumes "\<And>r k. cr_runIndex cr r = Some k \<Longrightarrow> \<exists>info. cr_clients cr k = Some info \<and> ci_RunID info = r \<and> r \<noteq> []"
    and "\<And>k info. cr_clients cr k = Some info \<Longrightarrow> client_ok k info"
  shows "registry_inv cr"
  using assms by (simp add: registry_inv_def)

lemma registered_ok:
  assumes "runID \<noteq> []" "\<And>i. found = Some i \<Longrightarrow> client_ok (client_key user raw runID) i"
  shows "client_ok (client_key user raw runID) (registered now user raw runID hostname version addr wire found)"
  using assms by (cases found) (auto simp: registered_def client_ok_def)

lemma Register_inv:
  assumes "registry_inv cr"
  shows "registry_inv (snd (Register now user raw runID hostname version addr wire cr))"
proof (cases "runID = [] \<or> conflicts user raw runID cr")
  case True
  then show ?thesis using assms by (auto simp: Register_cases)
next
  case False
  let ?k = "client_key user raw runID"
  let ?cr = "snd (Register now user raw runID hostname version addr wire cr)"
  show ?thesis
  proof (rule registry_invI)
    fix r k assume r: "cr_runIndex ?cr r = Some k"
    show "\<exists>info. cr_clients ?cr k = Some info \<and> ci_RunID info = r \<and> r \<noteq> []"
    proof (cases "r = runID")
      case True
      then show ?thesis using r False by (auto simp: Register_cases registered_def)
    next
      case neq: False
      with r False have old: "cr_runIndex cr r = Some k"
        by (auto simp: Register_cases split: option.splits if_splits)
      then obtain info where info: "cr_clients cr k = Some info" "ci_RunID info = r" "r \<noteq> []"
        using registry_invD(1) [OF assms] by blast
      have "k \<noteq> ?k"
        using r neq False info by (auto simp: Register_cases)
      then show ?thesis using info False by (simp add: Register_cases)
    qed
  next
    fix k info assume i: "cr_clients ?cr k = Some info"
    show "client_ok k info"
    proof (cases "k = ?k")
      case True
      then show ?thesis
        using i False registered_ok registry_invD(2) [OF assms] by (auto simp: Register_cases)
    next
      case neq: False
      then show ?thesis using i False registry_invD(2) [OF assms] by (simp add: Register_cases)
    qed
  qed
qed

lemma MarkOffline_simps:
  assumes "registry_inv cr"
  shows "cr_runIndex cr runID = None \<Longrightarrow> MarkOfflineByRunID now runID cr = cr"
    and "cr_runIndex cr runID = Some k \<Longrightarrow> cr_clients cr k = Some info \<Longrightarrow>
       MarkOfflineByRunID now runID cr =
         \<lparr>cr_clients = (cr_clients cr)(k := (if ci_RawClientID info = [] then None
            else Some (info\<lparr>ci_RunID := [], ci_Online := False, ci_DisconnectedAt := now\<rparr>))),
          cr_runIndex = (cr_runIndex cr)(runID := None)\<rparr>"
  using registry_invD(1) [OF assms] by (fastforce simp: MarkOfflineByRunID_def)+

lemma MarkOffline_inv:
  assumes "registry_inv cr"
  shows "registry_inv (MarkOfflineByRunID now runID cr)"
proof (cases "cr_runIndex cr runID")
  case None
  then show ?thesis using assms by (simp add: MarkOffline_simps)
next
  case (Some key)
  then obtain info where info: "cr_clients cr key = Some info" "ci_RunID info = runID" "runID \<noteq> []"
    using registry_invD(1) [OF assms] by blast
  note eq = MarkOffline_simps(2) [OF assms Some info(1)]
  show ?thesis
  proof (rule registry_invI)
    fix r k assume "cr_runIndex (MarkOfflineByRunID now runID cr) r = Some k"
    then have r: "cr_runIndex cr r = Some k" "r \<noteq> runID" by (auto simp: eq split: if_splits)
    then obtain i where i: "cr_clients cr k = Some i" "ci_RunID i = r" "r \<noteq> []"
      using registry_invD(1) [OF assms] by blast
    then have "k \<noteq> key" using info r by auto
    then show "\<exists>info. cr_clients (MarkOfflineByRunID now runID cr) k = Some info \<and> ci_RunID info = r \<and> r \<noteq> []"
      using i by (simp add: eq)
  next
    fix k i assume "cr_clients (MarkOfflineByRunID now runID cr) k = Some i"
    then show "client_ok k i"
      using registry_invD(2) [OF assms] info
      by (auto simp: eq client_ok_def split: if_splits)
  qed
qed

lemmas registry_inv_ops [frp_inv] = new_registry_inv Register_inv MarkOffline_inv

inductive registry_reachable :: "ClientRegistry \<Rightarrow> bool" where
  new: "registry_reachable newClientRegistryWithClock"
| register: "registry_reachable cr \<Longrightarrow>
    registry_reachable (snd (Register now user raw runID hostname version addr wire cr))"
| offline: "registry_reachable cr \<Longrightarrow> registry_reachable (MarkOfflineByRunID now runID cr)"

lemma registry_reachable_inv: "registry_reachable cr \<Longrightarrow> registry_inv cr"
  by (induction rule: registry_reachable.induct) (auto intro: frp_inv)

section \<open>Sessions\<close>

lemma session_Register:
  "session (snd (Register now user raw runID hostname version addr wire cr)) =
     (if runID = [] \<or> conflicts user raw runID cr then session cr
      else (session cr)(client_key user raw runID \<mapsto> runID))"
  by (auto simp: Register_cases session_def registered_def fun_eq_iff)

lemma session_MarkOffline:
  assumes "registry_inv cr"
  shows "session (MarkOfflineByRunID now runID cr) =
     (case cr_runIndex cr runID of None \<Rightarrow> session cr | Some k \<Rightarrow> (session cr)(k := None))"
proof (cases "cr_runIndex cr runID")
  case None
  then show ?thesis using assms by (simp add: MarkOffline_simps)
next
  case (Some k)
  then obtain info where info: "cr_clients cr k = Some info" "ci_RunID info = runID"
    using registry_invD(1) [OF assms] by blast
  show ?thesis
    using Some by (auto simp: MarkOffline_simps(2) [OF assms Some info(1)] session_def fun_eq_iff)
qed

lemma runIndex_Register:
  assumes "registry_inv cr" "runID \<noteq> []" "\<not> conflicts user raw runID cr"
  shows "cr_runIndex (snd (Register now user raw runID hostname version addr wire cr)) runID =
     Some (client_key user raw runID)"
  using assms by (simp add: Register_cases)

text \<open>
  The index can be trusted in the other direction only while no run id is shared: a login brings a run id of its own choice, and
  one that another online client carries takes the entry of the index over. \<open>registry_exclusive\<close> has the registries of clients
  that do not do this.
\<close>

inductive registry_exclusive :: "ClientRegistry \<Rightarrow> bool" where
  new: "registry_exclusive newClientRegistryWithClock"
| register: "registry_exclusive cr \<Longrightarrow> (\<And>k. session cr k = Some runID \<Longrightarrow> k = client_key user raw runID) \<Longrightarrow>
    registry_exclusive (snd (Register now user raw runID hostname version addr wire cr))"
| offline: "registry_exclusive cr \<Longrightarrow> registry_exclusive (MarkOfflineByRunID now runID cr)"

lemma exclusive_reachable: "registry_exclusive cr \<Longrightarrow> registry_reachable cr"
  by (induction rule: registry_exclusive.induct) (auto intro: registry_reachable.intros)

lemma index_session:
  assumes "registry_inv cr" "cr_runIndex cr r = Some k"
  shows "r \<noteq> [] \<and> session cr k = Some r"
  using registry_invD [OF assms(1)] assms(2) by (fastforce simp: session_def client_ok_def)

lemma Register_exact:
  assumes "registry_inv cr" "\<And>k. session cr k = Some runID \<Longrightarrow> k = client_key user raw runID"
    and exact: "\<And>r k. session cr k = Some r \<Longrightarrow> cr_runIndex cr r = Some k"
    and "session (snd (Register now user raw runID hostname version addr wire cr)) k = Some r"
  shows "cr_runIndex (snd (Register now user raw runID hostname version addr wire cr)) r = Some k"
proof (cases "runID = [] \<or> conflicts user raw runID cr")
  case True
  then have "snd (Register now user raw runID hostname version addr wire cr) = cr" by (auto simp: Register_cases)
  then show ?thesis using exact assms(4) by simp
next
  case False
  let ?k = "client_key user raw runID"
  show ?thesis
  proof (cases "k = ?k")
    case True
    then have "r = runID" using False assms(4) by (simp add: session_Register)
    then show ?thesis using True False by (simp add: Register_cases)
  next
    case neq: False
    then have k: "session cr k = Some r" using False assms(4) by (simp add: session_Register)
    then have "r \<noteq> runID" using assms(2) neq by blast
    moreover have "ci_RunID old \<noteq> r" if "cr_clients cr ?k = Some old" "ci_RunID old \<noteq> []" for old
    proof
      assume "ci_RunID old = r"
      then have "session cr ?k = Some r" using that registry_invD(2) [OF assms(1)] by (auto simp: session_def client_ok_def)
      from exact [OF this] exact [OF k] neq show False by simp
    qed
    ultimately show ?thesis using exact [OF k] False by (auto simp: Register_cases split: option.split)
  qed
qed

lemma exclusive_exact: "registry_exclusive cr \<Longrightarrow> session cr k = Some r \<Longrightarrow> cr_runIndex cr r = Some k"
proof (induction arbitrary: r k rule: registry_exclusive.induct)
  case new
  then show ?case by (simp add: newClientRegistryWithClock_def session_def)
next
  case (register cr runID user raw)
  then show ?case by (intro Register_exact registry_reachable_inv exclusive_reachable)
next
  case (offline cr now runID)
  have inv: "registry_inv cr" by (intro registry_reachable_inv exclusive_reachable offline.hyps)
  have "cr_runIndex (MarkOfflineByRunID now runID cr) = (cr_runIndex cr)(runID := None)"
    by (auto simp: MarkOfflineByRunID_def Let_def split: option.splits)
  then show ?case
    using offline.IH offline.prems by (auto simp: session_MarkOffline [OF inv] split: option.splits if_splits)
qed

text \<open>The part of a login message and its connection that \<open>Register\<close> receives.\<close>

record login_info =
  li_now :: go_time
  li_user :: string
  li_raw :: string
  li_hostname :: string
  li_version :: string
  li_addr :: string
  li_wire :: string

definition register_login :: "login_info \<Rightarrow> string \<Rightarrow> ClientRegistry \<Rightarrow> (string \<times> bool) \<times> ClientRegistry" where
  "register_login l runID =
     Register (li_now l) (li_user l) (li_raw l) runID (li_hostname l) (li_version l) (li_addr l) (li_wire l)"

abbreviation login_key :: "login_info \<Rightarrow> string \<Rightarrow> string" where
  "login_key l runID \<equiv> client_key (li_user l) (li_raw l) runID"

definition admissible :: "login_info \<Rightarrow> string \<Rightarrow> ClientRegistry \<Rightarrow> bool" where
  "admissible l runID cr \<longleftrightarrow> runID \<noteq> [] \<and> \<not> conflicts (li_user l) (li_raw l) runID cr"

text \<open>
  The interface the session code relies on: a directory of sessions that is entered by a login under a
  key computed from it, and left by the run id alone.
\<close>

locale session_directory =
  fixes inv :: "'s \<Rightarrow> bool" and sess :: "'s \<Rightarrow> 'k \<rightharpoonup> 'r" and index :: "'s \<Rightarrow> 'r \<rightharpoonup> 'k"
    and key :: "'l \<Rightarrow> 'r \<Rightarrow> 'k" and admit :: "'l \<Rightarrow> 'r \<Rightarrow> 's \<Rightarrow> bool"
    and enter :: "'l \<Rightarrow> 'r \<Rightarrow> 's \<Rightarrow> 's" and leave :: "go_time \<Rightarrow> 'r \<Rightarrow> 's \<Rightarrow> 's"
  assumes enter_inv: "inv s \<Longrightarrow> inv (enter l r s)"
    and leave_inv: "inv s \<Longrightarrow> inv (leave t r s)"
    and index_sess: "inv s \<Longrightarrow> index s r = Some k \<Longrightarrow> sess s k = Some r"
    and enter_sess: "inv s \<Longrightarrow> admit l r s \<Longrightarrow> sess (enter l r s) = (sess s)(key l r \<mapsto> r)"
    and enter_index: "inv s \<Longrightarrow> admit l r s \<Longrightarrow> index (enter l r s) r = Some (key l r)"
    and leave_sess: "inv s \<Longrightarrow>
      sess (leave t r s) = (case index s r of None \<Rightarrow> sess s | Some k \<Rightarrow> (sess s)(k := None))"
    and leave_index: "inv s \<Longrightarrow> index (leave t r s) r = None"
begin

lemma enter_leave: "inv s \<Longrightarrow> admit l r s \<Longrightarrow> sess (leave t r (enter l r s)) = (sess s)(key l r := None)"
  by (simp add: leave_sess enter_index enter_sess enter_inv)

lemma leave_twice: "inv s \<Longrightarrow> sess (leave t r (leave u r s)) = sess (leave u r s)"
  by (simp add: leave_sess [of "leave u r s"] leave_index leave_inv)

lemma leave_only_own:
  assumes "inv s" "sess (leave t r s) k \<noteq> sess s k"
  shows "sess s k = Some r \<and> sess (leave t r s) k = None"
  using assms index_sess [of s r] by (auto simp: leave_sess split: option.splits if_splits)

end

interpretation sd: session_directory registry_inv session cr_runIndex login_key admissible
  "\<lambda>l r cr. snd (register_login l r cr)" MarkOfflineByRunID
proof unfold_locales
  fix s :: ClientRegistry and l r k t assume inv: "registry_inv s"
  show "registry_inv (snd (register_login l r s))" using inv by (simp add: register_login_def Register_inv)
  show "registry_inv (MarkOfflineByRunID t r s)" using inv by (rule MarkOffline_inv)
  show "session s k = Some r" if "cr_runIndex s r = Some k"
    using index_session [OF inv that] by simp
  show "session (snd (register_login l r s)) = (session s)(login_key l r \<mapsto> r)" if "admissible l r s"
    using that by (simp add: register_login_def session_Register admissible_def)
  show "cr_runIndex (snd (register_login l r s)) r = Some (login_key l r)" if "admissible l r s"
    using that by (simp add: register_login_def runIndex_Register inv admissible_def)
  show "session (MarkOfflineByRunID t r s) =
      (case cr_runIndex s r of None \<Rightarrow> session s | Some k \<Rightarrow> (session s)(k := None))"
    by (rule session_MarkOffline [OF inv])
  show "cr_runIndex (MarkOfflineByRunID t r s) r = None"
    by (auto simp: MarkOfflineByRunID_def Let_def split: option.splits)
qed

section \<open>Properties\<close>

definition demo_login :: login_info where
  "demo_login = \<lparr>li_now = 5, li_user = ''ann'', li_raw = ''pc'', li_hostname = ''h'', li_version = ''1'',
     li_addr = ''10.0.0.1'', li_wire = ''v2''\<rparr>"

definition demo_registry :: ClientRegistry where
  "demo_registry = snd (register_login demo_login ''r1'' newClientRegistryWithClock)"

lemma demo_registry_reachable: "registry_reachable demo_registry"
  unfolding demo_registry_def register_login_def by (intro registry_reachable.intros)

lemma demo_registry_eq:
  "cr_clients demo_registry ''ann.pc'' = Some (registered 5 ''ann'' ''pc'' ''r1'' ''h'' ''1'' ''10.0.0.1'' ''v2'' None)"
  "cr_runIndex demo_registry ''r1'' = Some ''ann.pc''"
  by (simp_all add: demo_registry_def register_login_def demo_login_def newClientRegistryWithClock_def
      Register_cases conflicts_def session_def client_key_def composeClientKey_def)

lemma demo_registry_exclusive: "registry_exclusive demo_registry"
  unfolding demo_registry_def register_login_def
  by (intro registry_exclusive.intros) (simp add: newClientRegistryWithClock_def session_def)

text \<open>
  C11: The two maps of the registry agree in every state the registry can get into. A run id of the index
  leads to the online client that carries this run id, and as long as no login brings the run id that another online client
  carries, every online client is found under its run id, so the index is exactly the inverse of the sessions. Every client is
  stored under its own key, is online exactly when it carries a run id, and stays in the map while offline only if it has a
  client id of its own.
\<close>

theorem registry_consistent:
  assumes "registry_reachable cr"
  shows "(cr_runIndex cr r = Some k \<longrightarrow> r \<noteq> [] \<and> session cr k = Some r) \<and>
    (registry_exclusive cr \<longrightarrow> (cr_runIndex cr r = Some k \<longleftrightarrow> session cr k = Some r)) \<and>
    (\<forall>info. GetByKey k cr = Some info \<longrightarrow>
       ci_Key info = k \<and> (ci_Online info \<longleftrightarrow> ci_RunID info \<noteq> []) \<and> (ci_Online info \<or> ci_RawClientID info \<noteq> []))"
proof -
  note inv = registry_reachable_inv [OF assms]
  have "ci_Key info = k \<and> (ci_Online info \<longleftrightarrow> ci_RunID info \<noteq> []) \<and> (ci_Online info \<or> ci_RawClientID info \<noteq> [])"
    if "GetByKey k cr = Some info" for info
    using registry_invD(2) [OF inv] that by (auto simp: GetByKey_def client_ok_def)
  then show ?thesis using index_session [OF inv, of r k] exclusive_exact [of cr k r] by blast
qed

theorem registry_consistent_witness:
  "cr_runIndex demo_registry ''r1'' = Some ''ann.pc'' \<and>
   session demo_registry ''ann.pc'' = Some ''r1''"
  using registry_consistent [OF demo_registry_reachable, of "''r1''" "''ann.pc''"] demo_registry_exclusive demo_registry_eq
  by simp

text \<open>
  Client ids are unique among live sessions. A login that names a client id is refused exactly when
  the key is in a session with a different run id, and then nothing changes. Otherwise the key enters a
  session with the new run id, no other key is touched, and the time of the first connection is kept.
\<close>

theorem register_unique:
  assumes "registry_reachable cr" "runID \<noteq> []"
  shows "let k = client_key user raw runID in case Register now user raw runID hostname version addr wire cr of ((key, conflict), cr') \<Rightarrow>
     key = k \<and> (conflict \<longleftrightarrow> raw \<noteq> [] \<and> session cr k \<noteq> None \<and> session cr k \<noteq> Some runID) \<and>
     (if conflict then cr' = cr
      else session cr' = (session cr)(k \<mapsto> runID) \<and> (\<forall>k'. k' \<noteq> k \<longrightarrow> GetByKey k' cr' = GetByKey k' cr) \<and>
        (\<forall>old. GetByKey k cr = Some old \<and> ci_FirstConnectedAt old \<noteq> 0 \<longrightarrow>
           map_option ci_FirstConnectedAt (GetByKey k cr') = Some (ci_FirstConnectedAt old)))"
proof -
  let ?k = "client_key user raw runID"
  have "session cr ?k = Some [] \<Longrightarrow> False"
    using registry_invD(2) [OF registry_reachable_inv [OF assms(1)], of ?k]
    by (auto simp: session_def client_ok_def split: option.splits if_splits)
  then have c: "conflicts user raw runID cr \<longleftrightarrow> raw \<noteq> [] \<and> session cr ?k \<noteq> None \<and> session cr ?k \<noteq> Some runID"
    by (auto simp: conflicts_def split: option.splits)
  show ?thesis
    using session_Register [of now user raw runID hostname version addr wire cr] assms(2)
    by (auto simp: Let_def Register_cases c GetByKey_def registered_def)
qed

theorem register_unique_witness:
  "Register 9 ''ann'' ''pc'' ''r2'' ''h2'' ''1'' ''10.0.0.2'' ''v2'' demo_registry = ((''ann.pc'', True), demo_registry)"
  using register_unique [OF demo_registry_reachable, of "''r2''" "''ann''" "''pc''" 9 "''h2''" "''1''" "''10.0.0.2''" "''v2''"]
  by (simp add: Let_def client_key_def composeClientKey_def session_def demo_registry_eq registered_def split: prod.splits)

text \<open>
  A disconnect undoes a connect. After a successful registration, marking its run id offline takes
  exactly the registered key out of its session: the other sessions are as before the login, a client
  without an id of its own is forgotten, and one with an id is kept as offline with the time of the
  disconnect. Marking it again changes no session.
\<close>

theorem connect_disconnect:
  assumes "registry_reachable cr" "runID \<noteq> []"
    "Register now user raw runID hostname version addr wire cr = ((k, False), cr')"
  shows "session (MarkOfflineByRunID t runID cr') = (session cr)(k := None) \<and>
    (if raw = [] then GetByKey k (MarkOfflineByRunID t runID cr') = None
     else map_option ci_DisconnectedAt (GetByKey k (MarkOfflineByRunID t runID cr')) = Some t) \<and>
    session (MarkOfflineByRunID u runID (MarkOfflineByRunID t runID cr')) = session (MarkOfflineByRunID t runID cr')"
proof -
  let ?l = "\<lparr>li_now = now, li_user = user, li_raw = raw, li_hostname = hostname, li_version = version,
     li_addr = addr, li_wire = wire\<rparr>"
  note inv = registry_reachable_inv [OF assms(1)]
  have adm: "admissible ?l runID cr" and k: "client_key user raw runID = k"
    using assms(2,3) by (auto simp: admissible_def Register_cases split: if_splits)
  have reg: "cr' = snd (register_login ?l runID cr)"
    using assms(3) by (simp add: register_login_def)
  then have inv': "registry_inv cr'" and idx: "cr_runIndex cr' runID = Some k"
    using sd.enter_inv [OF inv] sd.enter_index [OF inv adm] k by simp_all
  have "cr_clients cr' k = Some (registered now user raw runID hostname version addr wire (cr_clients cr k))"
    using assms(2,3) by (auto simp: Register_cases split: if_splits)
  then have "if raw = [] then GetByKey k (MarkOfflineByRunID t runID cr') = None
     else map_option ci_DisconnectedAt (GetByKey k (MarkOfflineByRunID t runID cr')) = Some t"
    by (simp add: GetByKey_def MarkOffline_simps(2) [OF inv' idx] registered_def)
  then show ?thesis
    using sd.enter_leave [OF inv adm, of t] sd.leave_twice [OF inv'] reg k by simp
qed

theorem connect_disconnect_witness:
  "GetByKey ''r7'' (MarkOfflineByRunID 8 ''r7''
     (snd (Register 7 [] [] ''r7'' ''h'' ''1'' ''10.0.0.3'' ''v1'' demo_registry))) = None"
proof -
  have "Register 7 [] [] ''r7'' ''h'' ''1'' ''10.0.0.3'' ''v1'' demo_registry =
    ((''r7'', False), snd (Register 7 [] [] ''r7'' ''h'' ''1'' ''10.0.0.3'' ''v1'' demo_registry))"
    by (simp add: Register_cases conflicts_def client_key_def composeClientKey_def)
  from connect_disconnect [OF demo_registry_reachable _ this, of 8 8] show ?thesis by simp
qed

text \<open>
  A run id used for two keys leaves a ghost. If a session registers under a second key with the run
  id of a session that is still online under another key, then marking the run id offline ends only the
  second session: the first key stays online, no run id leads to it any more, and logins for its client
  id are refused.
\<close>

theorem shared_run_id_ghost:
  assumes "registry_reachable cr" "runID \<noteq> []" "session cr k = Some runID"
    "Register now user raw runID hostname version addr wire cr = ((k', False), cr')" "k' \<noteq> k"
  shows "session (MarkOfflineByRunID t runID cr') k = Some runID \<and>
    cr_runIndex (MarkOfflineByRunID t runID cr') runID = None \<and>
    (k = composeClientKey u c \<and> c \<noteq> [] \<and> r \<noteq> [] \<and> r \<noteq> runID \<longrightarrow>
       fst (Register now2 u c r h v a w (MarkOfflineByRunID t runID cr')) = (k, True))"
proof -
  have s: "session (MarkOfflineByRunID t runID cr') = (session cr)(k' := None)"
    using sd.enter_leave [OF registry_reachable_inv [OF assms(1)],
        of "\<lparr>li_now = now, li_user = user, li_raw = raw, li_hostname = hostname, li_version = version,
     li_addr = addr, li_wire = wire\<rparr>" runID t] assms(2,4)
    by (auto simp: admissible_def register_login_def Register_cases split: if_splits)
  have "registry_inv cr'"
    using Register_inv [OF registry_reachable_inv [OF assms(1)]] assms(4) by (metis snd_conv)
  then have "cr_runIndex (MarkOfflineByRunID t runID cr') runID = None"
    by (rule sd.leave_index)
  then show ?thesis
    using s assms(2,3,5) by (auto simp: Register_cases conflicts_def client_key_def)
qed

theorem shared_run_id_ghost_witness:
  "fst (Register 30 ''ann'' ''pc'' ''r9'' ''h'' ''1'' ''10.0.0.1'' ''v2''
     (MarkOfflineByRunID 20 ''r1''
       (snd (Register 10 ''bob'' ''pc'' ''r1'' ''h'' ''1'' ''10.0.0.1'' ''v2'' demo_registry)))) = (''ann.pc'', True)"
proof -
  have "Register 10 ''bob'' ''pc'' ''r1'' ''h'' ''1'' ''10.0.0.1'' ''v2'' demo_registry =
    ((''bob.pc'', False), snd (Register 10 ''bob'' ''pc'' ''r1'' ''h'' ''1'' ''10.0.0.1'' ''v2'' demo_registry))"
    by (simp add: Register_cases conflicts_def client_key_def composeClientKey_def session_def demo_registry_def
        register_login_def demo_login_def newClientRegistryWithClock_def)
  from shared_run_id_ghost [OF demo_registry_reachable _ _ this, of "''ann.pc''" 20 "''ann''" "''pc''" "''r9''" 30]
  show ?thesis by (simp add: session_def demo_registry_eq registered_def composeClientKey_def)
qed

end
