(* ===== verification/Session.thy ===== *)
theory Session
  imports Client_Registry
begin

text \<open>
  The life of a control session: \<open>ControlManager\<close> and the lifecycle half of \<open>Control\<close>
  (\<open>server/control.go\<close>), and the login path of the service that drives them
  (\<open>RegisterControl\<close> and the login case of \<open>handleConnection\<close>, \<open>server/service.go\<close>).
  Controls are objects behind pointers, so the state has a heap of them; the goroutine that serves a login
  is kept as the place where it has got to. Every step below is one stretch of code between two points
  where the code waits or talks to the peer. The proxies of a control are the subject of
  \<open>Control_Proxies\<close>.
\<close>

section \<open>Controls\<close>

record Control =
  ctl_login :: login_info
  ctl_loginRunID :: string  \<comment> \<open>\<open>sessionCtx.LoginMsg.RunID\<close>\<close>
  ctl_runID :: string
  ctl_started :: bool
  ctl_replaced :: bool
  ctl_done :: bool  \<comment> \<open>\<open>doneCh\<close> is closed\<close>
  ctl_connClosed :: bool
  ctl_readExpired :: bool  \<comment> \<open>the read deadline of the connection has passed\<close>
  ctl_readBroken :: bool  \<comment> \<open>a read of the connection has failed for another reason\<close>

definition NewControl :: "login_info \<Rightarrow> string \<Rightarrow> Control" where
  "NewControl l runID = \<lparr>ctl_login = l, ctl_loginRunID = runID, ctl_runID = runID, ctl_started = False,
     ctl_replaced = False, ctl_done = False, ctl_connClosed = False,
     ctl_readExpired = False, ctl_readBroken = False\<rparr>"

definition Start :: "Control \<Rightarrow> Control" where
  "Start ctl = (if ctl_replaced ctl then ctl else ctl\<lparr>ctl_started := True\<rparr>)"

definition closeDone :: "Control \<Rightarrow> Control" where
  "closeDone ctl = ctl\<lparr>ctl_done := True\<rparr>"

definition closeConn :: "Control \<Rightarrow> Control" where
  "closeConn ctl = ctl\<lparr>ctl_connClosed := True\<rparr>"

text \<open>\<open>SetReadDeadline\<close> with a time in the past.\<close>

definition setReadDeadline :: "Control \<Rightarrow> Control" where
  "setReadDeadline ctl = ctl\<lparr>ctl_readExpired := True\<rparr>"

definition breakRead :: "Control \<Rightarrow> Control" where
  "breakRead ctl = ctl\<lparr>ctl_readBroken := True\<rparr>"

definition Replaced :: "Control \<Rightarrow> Control" where
  "Replaced ctl =
     (let ctl1 = ctl\<lparr>ctl_runID := [], ctl_replaced := True\<rparr>;
          ctl2 = closeConn (setReadDeadline ctl1)
      in if \<not> ctl_started ctl then closeDone ctl2 else ctl2)"

text \<open>Whether the read that the dispatcher is blocked in returns, which ends the dispatcher and lets \<open>worker\<close> go on. Closing the
  connection is not enough: a stream of a multiplexed connection is then only half closed, and a peer that died silently never
  answers. That a read fails for a reason on the connection itself, closing included, is left to the surroundings.\<close>

definition readReturns :: "Control \<Rightarrow> bool" where
  "readReturns ctl \<longleftrightarrow> ctl_readExpired ctl \<or> ctl_readBroken ctl"

section \<open>The service state\<close>

text \<open>Where the goroutine of a login is: waiting for the control it replaced, about to write the login
  response, waiting for its own control to close, or returned.\<close>

datatype stage = AtWaitClosed "nat option" | AtLoginResp | AtFinalWait | Returned

record Service =
  sv_controls :: "nat \<rightharpoonup> Control"
  sv_next :: nat
  sv_ctlsByRunID :: "string \<rightharpoonup> nat"
  sv_registry :: ClientRegistry
  sv_stage :: "nat \<rightharpoonup> stage"
  sv_clientCounts :: int

definition NewService :: Service where
  "NewService = \<lparr>sv_controls = Map.empty, sv_next = 0, sv_ctlsByRunID = Map.empty,
     sv_registry = newClientRegistryWithClock, sv_stage = Map.empty, sv_clientCounts = 0\<rparr>"

definition updControl :: "nat \<Rightarrow> (Control \<Rightarrow> Control) \<Rightarrow> Service \<Rightarrow> Service" where
  "updControl c f s = s\<lparr>sv_controls := (sv_controls s)(c := map_option f (sv_controls s c))\<rparr>"

definition setStage :: "nat \<Rightarrow> stage \<Rightarrow> Service \<Rightarrow> Service" where
  "setStage c st s = s\<lparr>sv_stage := (sv_stage s)(c \<mapsto> st)\<rparr>"

definition ctlAdd :: "string \<Rightarrow> nat \<Rightarrow> Service \<Rightarrow> nat option \<times> Service" where
  "ctlAdd runID c s =
     (let old = sv_ctlsByRunID s runID;
          s1 = (case old of Some o' \<Rightarrow> updControl o' Replaced s | None \<Rightarrow> s)
      in (old, s1\<lparr>sv_ctlsByRunID := (sv_ctlsByRunID s1)(runID \<mapsto> c)\<rparr>))"

definition ctlDel :: "string \<Rightarrow> nat \<Rightarrow> Service \<Rightarrow> Service" where
  "ctlDel runID c s =
     (if sv_ctlsByRunID s runID = Some c then s\<lparr>sv_ctlsByRunID := (sv_ctlsByRunID s)(runID := None)\<rparr> else s)"

definition ctlGetByID :: "string \<Rightarrow> Service \<Rightarrow> nat option" where
  "ctlGetByID runID s = sv_ctlsByRunID s runID"

text \<open>Shutting down: every current control loses its connection and the index is emptied.\<close>

definition ctlClose :: "Service \<Rightarrow> Service" where
  "ctlClose s = s\<lparr>sv_controls := (\<lambda>c. if c \<in> ran (sv_ctlsByRunID s) then map_option closeConn (sv_controls s c)
       else sv_controls s c), sv_ctlsByRunID := Map.empty\<rparr>"

section \<open>The login path\<close>

datatype login_error = AuthError | AlreadyOnline

text \<open>\<open>RegisterControl\<close> up to \<open>oldCtl.WaitClosed()\<close>: \<open>verified\<close> is the answer of the verifier, \<open>rid\<close> the
  identifier drawn when the client sent none.\<close>

definition registerControlBegin ::
  "bool \<Rightarrow> string \<Rightarrow> login_info \<Rightarrow> string \<Rightarrow> Service \<Rightarrow> (login_error + nat) \<times> Service" where
  "registerControlBegin verified rid l runID s =
     (let r = (if runID = [] then rid else runID)
      in if \<not> verified then (Inl AuthError, s)
         else
           let c = sv_next s;
               s1 = s\<lparr>sv_controls := (sv_controls s)(c \<mapsto> NewControl l r), sv_next := c + 1\<rparr>;
               (old, s2) = ctlAdd r c s1
           in (Inr c, setStage c (AtWaitClosed old) s2))"

text \<open>The rest of \<open>RegisterControl\<close> for the control \<open>ctl\<close> at address \<open>c\<close>, and the handling of its error.\<close>

definition registerControlEnd :: "nat \<Rightarrow> Control \<Rightarrow> Service \<Rightarrow> (login_error + nat) \<times> Service" where
  "registerControlEnd c ctl s =
     (case register_login (ctl_login ctl) (ctl_loginRunID ctl) (sv_registry s) of
        ((_, conflict), reg) \<Rightarrow>
          let s1 = s\<lparr>sv_registry := reg\<rparr>
          in if conflict
             then (Inl AlreadyOnline,
                   setStage c Returned (updControl c closeConn (ctlDel (ctl_loginRunID ctl) c s1)))
             else (Inr c, setStage c AtLoginResp s1))"

text \<open>Writing the login response failed.\<close>

definition loginRespFailed :: "go_time \<Rightarrow> nat \<Rightarrow> Control \<Rightarrow> Service \<Rightarrow> Service" where
  "loginRespFailed now c ctl s =
     (let s1 = ctlDel (ctl_loginRunID ctl) c s;
          s2 = s1\<lparr>sv_registry := MarkOfflineByRunID now (ctl_loginRunID ctl) (sv_registry s1)\<rparr>
      in setStage c Returned (updControl c closeConn s2))"

text \<open>The login response is out: the control is started and the client counted.\<close>

definition loginRespSent :: "nat \<Rightarrow> Service \<Rightarrow> Service" where
  "loginRespSent c s =
     (let s1 = updControl c Start s
      in setStage c AtFinalWait (s1\<lparr>sv_clientCounts := sv_clientCounts s1 + 1\<rparr>))"

text \<open>The end of \<open>worker\<close>, after the dispatcher is done.\<close>

definition workerExit :: "go_time \<Rightarrow> nat \<Rightarrow> Control \<Rightarrow> Service \<Rightarrow> Service" where
  "workerExit now c ctl s =
     (let s1 = updControl c closeConn s;
          s2 = s1\<lparr>sv_clientCounts := sv_clientCounts s1 - 1\<rparr>;
          s3 = s2\<lparr>sv_registry := MarkOfflineByRunID now (ctl_runID ctl) (sv_registry s2)\<rparr>
      in updControl c closeDone s3)"

text \<open>The goroutine that waits for the control to close.\<close>

definition finalDel :: "nat \<Rightarrow> Control \<Rightarrow> Service \<Rightarrow> Service" where
  "finalDel c ctl s = setStage c Returned (ctlDel (ctl_loginRunID ctl) c s)"

definition WaitClosed :: "nat \<Rightarrow> Service \<Rightarrow> bool" where
  "WaitClosed c s = (case sv_controls s c of Some ctl \<Rightarrow> ctl_done ctl | None \<Rightarrow> False)"

section \<open>Steps\<close>

inductive svc_step :: "Service \<Rightarrow> Service \<Rightarrow> bool" where
  login: "runID \<noteq> [] \<or> rid \<noteq> [] \<Longrightarrow> svc_step s (snd (registerControlBegin verified rid l runID s))"
| register: "sv_controls s c = Some ctl \<Longrightarrow> sv_stage s c = Some (AtWaitClosed old) \<Longrightarrow>
    (case old of None \<Rightarrow> True | Some o' \<Rightarrow> WaitClosed o' s) \<Longrightarrow> svc_step s (snd (registerControlEnd c ctl s))"
| resp_failed: "sv_controls s c = Some ctl \<Longrightarrow> sv_stage s c = Some AtLoginResp \<Longrightarrow>
    svc_step s (loginRespFailed now c ctl s)"
| resp_sent: "sv_controls s c = Some ctl \<Longrightarrow> sv_stage s c = Some AtLoginResp \<Longrightarrow> svc_step s (loginRespSent c s)"
| worker: "sv_controls s c = Some ctl \<Longrightarrow> ctl_started ctl \<Longrightarrow> \<not> ctl_done ctl \<Longrightarrow> readReturns ctl \<Longrightarrow>
    svc_step s (workerExit now c ctl s)"
| broken: "sv_controls s c = Some ctl \<Longrightarrow> svc_step s (updControl c breakRead s)"
| final: "sv_controls s c = Some ctl \<Longrightarrow> sv_stage s c = Some AtFinalWait \<Longrightarrow> WaitClosed c s \<Longrightarrow>
    svc_step s (finalDel c ctl s)"

inductive svc_reachable :: "Service \<Rightarrow> bool" where
  init: "svc_reachable NewService"
| step: "svc_reachable s \<Longrightarrow> svc_step s s' \<Longrightarrow> svc_reachable s'"

text \<open>A service that may also be shut down, by \<open>Close\<close> of the service. Connections accepted before then go on.\<close>

inductive svc_run :: "Service \<Rightarrow> bool" where
  init: "svc_run NewService"
| step: "svc_run s \<Longrightarrow> svc_step s s' \<Longrightarrow> svc_run s'"
| shutdown: "svc_run s \<Longrightarrow> svc_run (ctlClose s)"

lemma reachable_run: "svc_reachable s \<Longrightarrow> svc_run s"
  by (induction rule: svc_reachable.induct) (auto intro: svc_run.intros)

lemmas control_defs = NewControl_def Start_def closeDone_def closeConn_def setReadDeadline_def breakRead_def Replaced_def Let_def

lemmas service_defs = updControl_def setStage_def ctlAdd_def ctlDel_def registerControlBegin_def registerControlEnd_def
  loginRespFailed_def loginRespSent_def workerExit_def finalDel_def Let_def


section \<open>Invariant\<close>

text \<open>
  A control that has been replaced has given up its run id and its connection, its reads return, and it is closed
  unless its worker is there to close it. A worker runs only under a goroutine that waits for it.
\<close>

definition control_ok :: "stage option \<Rightarrow> Control \<Rightarrow> bool" where
  "control_ok st ctl \<longleftrightarrow> ctl_loginRunID ctl \<noteq> [] \<and>
     ctl_runID ctl = (if ctl_replaced ctl then [] else ctl_loginRunID ctl) \<and>
     (ctl_replaced ctl \<longrightarrow> ctl_connClosed ctl \<and> ctl_readExpired ctl \<and> (ctl_started ctl \<or> ctl_done ctl)) \<and>
     (ctl_done ctl \<longrightarrow> ctl_replaced ctl \<or> ctl_started ctl) \<and>
     (ctl_started ctl \<longrightarrow> st = Some AtFinalWait \<or> st = Some Returned \<and> ctl_done ctl)"

definition controls_ok :: "Service \<Rightarrow> bool" where
  "controls_ok s \<longleftrightarrow> dom (sv_stage s) = dom (sv_controls s) \<and>
     (\<forall>c ctl. sv_controls s c = Some ctl \<longrightarrow> c < sv_next s \<and> control_ok (sv_stage s c) ctl)"

text \<open>The index leads to controls that are neither replaced nor given up, and to each of them whose connection the server has not
  closed.\<close>

definition index_ok :: "Service \<Rightarrow> bool" where
  "index_ok s \<longleftrightarrow>
     (\<forall>r c. sv_ctlsByRunID s r = Some c \<longrightarrow>
       (\<exists>ctl. sv_controls s c = Some ctl \<and> ctl_loginRunID ctl = r \<and> \<not> ctl_replaced ctl \<and> sv_stage s c \<noteq> Some Returned)) \<and>
     (\<forall>c ctl. sv_controls s c = Some ctl \<and> \<not> ctl_replaced ctl \<and> sv_stage s c \<noteq> Some Returned \<and> \<not> ctl_connClosed ctl \<longrightarrow>
       sv_ctlsByRunID s (ctl_loginRunID ctl) = Some c)"

text \<open>A login waits only for an older control, which has been replaced.\<close>

definition waits_ok :: "Service \<Rightarrow> bool" where
  "waits_ok s \<longleftrightarrow> (\<forall>c old. sv_stage s c = Some (AtWaitClosed (Some old)) \<longrightarrow>
     old < c \<and> (\<exists>ctl. sv_controls s old = Some ctl \<and> ctl_replaced ctl))"

definition svc_inv :: "Service \<Rightarrow> bool" where
  "svc_inv s \<longleftrightarrow> controls_ok s \<and> index_ok s \<and> waits_ok s \<and> registry_inv (sv_registry s)"

lemma svc_invD:
  assumes "svc_inv s"
  shows "dom (sv_stage s) = dom (sv_controls s)"
    and "sv_controls s c = Some ctl \<Longrightarrow> c < sv_next s"
    and "sv_controls s c = Some ctl \<Longrightarrow> control_ok (sv_stage s c) ctl"
    and "sv_ctlsByRunID s r = Some c \<Longrightarrow>
     \<exists>ctl. sv_controls s c = Some ctl \<and> ctl_loginRunID ctl = r \<and> \<not> ctl_replaced ctl \<and> sv_stage s c \<noteq> Some Returned"
    and "sv_stage s c = Some (AtWaitClosed (Some old)) \<Longrightarrow>
       old < c \<and> (\<exists>ctl. sv_controls s old = Some ctl \<and> ctl_replaced ctl)"
    and "registry_inv (sv_registry s)"
    and "sv_controls s c = Some ctl \<Longrightarrow> \<not> ctl_replaced ctl \<Longrightarrow> sv_stage s c \<noteq> Some Returned \<Longrightarrow> \<not> ctl_connClosed ctl \<Longrightarrow>
       sv_ctlsByRunID s (ctl_loginRunID ctl) = Some c"
  using assms by (auto simp: svc_inv_def controls_ok_def index_ok_def waits_ok_def)

text \<open>
  All steps but the login change one control and its stage, and drop the control from the index exactly
  when its goroutine returns. The following rule does the bookkeeping for them.
\<close>

lemma svc_inv_local:
  assumes inv: "svc_inv s" and c: "sv_controls s c = Some ctl" "sv_stage s c = Some st"
    and s': "sv_controls s' = (sv_controls s)(c \<mapsto> ctl')" "sv_stage s' = (sv_stage s)(c \<mapsto> st')"
      "sv_next s' = sv_next s" "registry_inv (sv_registry s')"
      "sv_ctlsByRunID s' = (if st' = Returned \<and> sv_ctlsByRunID s (ctl_loginRunID ctl) = Some c
          then (sv_ctlsByRunID s)(ctl_loginRunID ctl := None) else sv_ctlsByRunID s)"
    and ctl': "ctl_loginRunID ctl' = ctl_loginRunID ctl" "ctl_replaced ctl' = ctl_replaced ctl"
      "control_ok (Some st') ctl'" "ctl_connClosed ctl \<Longrightarrow> ctl_connClosed ctl'"
    and st': "\<And>old. st' = AtWaitClosed old \<Longrightarrow> st = st'" "st = Returned \<Longrightarrow> st' = Returned"
  shows "svc_inv s'"
proof -
  note D = svc_invD [OF inv]
  have "controls_ok s'"
    using D(1-3) c s' ctl' by (auto simp: controls_ok_def)
  moreover have "\<exists>k. sv_controls s' d = Some k \<and> ctl_loginRunID k = r \<and> \<not> ctl_replaced k \<and> sv_stage s' d \<noteq> Some Returned"
    if "sv_ctlsByRunID s' r = Some d" for r d
    using that D(4) [of r d] c s' ctl' by (auto split: if_splits)
  moreover have "sv_ctlsByRunID s' (ctl_loginRunID k) = Some d"
    if "sv_controls s' d = Some k" "\<not> ctl_replaced k" "sv_stage s' d \<noteq> Some Returned" "\<not> ctl_connClosed k" for d k
    using that D(7) [of d] D(4) [of "ctl_loginRunID ctl" c] c s' ctl' st' by (fastforce split: if_splits)
  ultimately have "controls_ok s'" "index_ok s'" by (simp_all add: index_ok_def)
  moreover have "waits_ok s'"
    unfolding waits_ok_def using D(5) c s' ctl' st' by (metis fun_upd_apply option.inject)
  ultimately show ?thesis using s' by (simp add: svc_inv_def)
qed

lemma Replaced_simps [simp]:
  "ctl_loginRunID (Replaced ctl) = ctl_loginRunID ctl" "ctl_replaced (Replaced ctl)" "ctl_connClosed (Replaced ctl)"
  "ctl_readExpired (Replaced ctl)"
  "ctl_started (Replaced ctl) = ctl_started ctl"
  by (auto simp: control_defs)

lemma control_ok_Replaced: "control_ok st ctl \<Longrightarrow> control_ok st (Replaced ctl)"
  by (auto simp: control_defs control_ok_def)

lemma control_ok_NewControl: "r \<noteq> [] \<Longrightarrow> control_ok st (NewControl l r)"
  by (simp add: control_ok_def NewControl_def)

text \<open>The state after the first part of a login, field by field.\<close>

lemma login_eqs:
  assumes "r = (if runID = [] then rid else runID)" "s' = snd (registerControlBegin True rid l runID s)"
    "sv_ctlsByRunID s r \<noteq> Some (sv_next s)"
  shows "sv_controls s' = (\<lambda>d. if d = sv_next s then Some (NewControl l r)
      else if sv_ctlsByRunID s r = Some d then map_option Replaced (sv_controls s d) else sv_controls s d)"
    and "sv_next s' = Suc (sv_next s)" "sv_ctlsByRunID s' = (sv_ctlsByRunID s)(r \<mapsto> sv_next s)"
    and "sv_stage s' = (sv_stage s)(sv_next s \<mapsto> AtWaitClosed (sv_ctlsByRunID s r))"
    and "sv_registry s' = sv_registry s"
proof -
  show "sv_controls s' = (\<lambda>d. if d = sv_next s then Some (NewControl l r)
      else if sv_ctlsByRunID s r = Some d then map_option Replaced (sv_controls s d) else sv_controls s d)"
    using assms(3)
    by (cases "sv_ctlsByRunID s r"; simp add: assms(1,2) [symmetric])
       (auto simp: assms(2) assms(1) [symmetric] service_defs fun_eq_iff)
  show "sv_next s' = Suc (sv_next s)" "sv_ctlsByRunID s' = (sv_ctlsByRunID s)(r \<mapsto> sv_next s)"
    "sv_stage s' = (sv_stage s)(sv_next s \<mapsto> AtWaitClosed (sv_ctlsByRunID s r))" "sv_registry s' = sv_registry s"
    by (cases "sv_ctlsByRunID s r"; simp add: assms(2) assms(1) [symmetric] service_defs)+
qed

lemma login_inv:
  assumes inv: "svc_inv s" and r: "runID \<noteq> [] \<or> rid \<noteq> []"
  shows "svc_inv (snd (registerControlBegin verified rid l runID s))"
proof (cases verified)
  case False
  then show ?thesis using inv by (simp add: registerControlBegin_def)
next
  case True
  note D = svc_invD [OF inv]
  define r' where "r' = (if runID = [] then rid else runID)"
  let ?s' = "snd (registerControlBegin verified rid l runID s)" and ?c = "sv_next s"
  have s': "?s' = snd (registerControlBegin True rid l runID s)" using True by simp
  have fresh: "sv_controls s ?c = None" "sv_stage s ?c = None"
    using D(1) D(2) [of ?c] by auto
  have r': "r' \<noteq> []" using r by (auto simp: r'_def)
  have old: "sv_ctlsByRunID s r' = Some d \<Longrightarrow> d < ?c" for d
    using D(2,4) by blast
  then have "sv_ctlsByRunID s r' \<noteq> Some ?c" by blast
  note eqs = login_eqs [OF r'_def s' this]
  have "controls_ok ?s'"
    using D(1-3) D(4) [of r'] control_ok_Replaced control_ok_NewControl [OF r']
    by (auto simp: controls_ok_def eqs dom_def split: if_splits intro: less_SucI)
  moreover have "\<exists>k. sv_controls ?s' d = Some k \<and> ctl_loginRunID k = q \<and> \<not> ctl_replaced k \<and> sv_stage ?s' d \<noteq> Some Returned"
    if "sv_ctlsByRunID ?s' q = Some d" for q d
    using that D(4) [of q d] D(4) [of r' d] fresh by (auto simp: eqs NewControl_def split: if_splits)
  moreover have "sv_ctlsByRunID ?s' (ctl_loginRunID k) = Some d"
    if "sv_controls ?s' d = Some k" "\<not> ctl_replaced k" "sv_stage ?s' d \<noteq> Some Returned" "\<not> ctl_connClosed k" for d k
    using that D(7) [of d k] fresh by (auto simp: eqs NewControl_def split: if_splits)
  ultimately have "controls_ok ?s'" "index_ok ?s'" by (simp_all add: index_ok_def)
  moreover have "o' < d \<and> (\<exists>k. sv_controls ?s' o' = Some k \<and> ctl_replaced k)"
    if d: "sv_stage ?s' d = Some (AtWaitClosed (Some o'))" for d o'
  proof (cases "d = ?c")
    case True
    then have "sv_ctlsByRunID s r' = Some o'" using d by (simp add: eqs)
    then show ?thesis using True old [of o'] D(4) [of r' o'] by (auto simp: eqs)
  next
    case False
    then have "o' < d \<and> (\<exists>k. sv_controls s o' = Some k \<and> ctl_replaced k)" using d D(5) by (simp add: eqs)
    then show ?thesis using fresh by (auto simp: eqs)
  qed
  then have "waits_ok ?s'" by (simp add: waits_ok_def)
  ultimately show ?thesis using D(6) by (simp add: svc_inv_def eqs)
qed

lemma svc_step_inv:
  assumes "svc_step s s'" "svc_inv s"
  shows "svc_inv s'"
  using assms(1)
proof cases
  case (login runID rid verified l)
  then show ?thesis using login_inv [OF assms(2)] by simp
next
  case (register c ctl old)
  note D = svc_invD [OF assms(2)]
  obtain key conflict reg where reg: "register_login (ctl_login ctl) (ctl_loginRunID ctl) (sv_registry s) = ((key, conflict), reg)"
    by (metis prod.collapse)
  have "registry_inv reg" using sd.enter_inv [OF D(6), of "ctl_login ctl" "ctl_loginRunID ctl"] by (simp add: reg)
  moreover have "control_ok (Some (AtWaitClosed old)) ctl" using D(3) register by metis
  ultimately show ?thesis
    by (intro svc_inv_local [OF assms(2) register(2,3), where ctl' = "if conflict then closeConn ctl else ctl"
          and st' = "if conflict then Returned else AtLoginResp"])
       (use register reg in \<open>auto simp: service_defs control_defs control_ok_def split: if_splits\<close>)
next
  case (resp_failed c ctl now)
  note D = svc_invD [OF assms(2)]
  have "control_ok (Some AtLoginResp) ctl" using D(3) resp_failed by metis
  then show ?thesis
    by (intro svc_inv_local [OF assms(2) resp_failed(2,3), where ctl' = "closeConn ctl" and st' = Returned])
       (use resp_failed D(6) in \<open>auto simp: service_defs control_defs control_ok_def intro: sd.leave_inv\<close>)
next
  case (resp_sent c ctl)
  note D = svc_invD [OF assms(2)]
  have "control_ok (Some AtLoginResp) ctl" using D(3) resp_sent by metis
  then show ?thesis
    by (intro svc_inv_local [OF assms(2) resp_sent(2,3), where ctl' = "Start ctl" and st' = AtFinalWait])
       (use resp_sent D(6) in \<open>auto simp: service_defs control_defs control_ok_def\<close>)
next
  case (worker c ctl now)
  note D = svc_invD [OF assms(2)]
  have ok: "control_ok (sv_stage s c) ctl" using D(3) worker by metis
  then have st: "sv_stage s c = Some AtFinalWait" using worker by (auto simp: control_ok_def)
  show ?thesis
    by (intro svc_inv_local [OF assms(2) worker(2) st, where ctl' = "closeDone (closeConn ctl)" and st' = AtFinalWait])
       (use worker ok st D(6) in \<open>auto simp: service_defs control_defs control_ok_def intro: sd.leave_inv\<close>)
next
  case (broken c ctl)
  note D = svc_invD [OF assms(2)]
  obtain st where st: "sv_stage s c = Some st" using D(1) broken by blast
  have "control_ok (Some st) ctl" using D(3) broken st by metis
  moreover have "sv_ctlsByRunID s (ctl_loginRunID ctl) \<noteq> Some c" if "st = Returned" using D(4) st that by blast
  ultimately show ?thesis
    by (intro svc_inv_local [OF assms(2) broken(2) st, where ctl' = "breakRead ctl" and st' = st])
       (use broken st D(6) in \<open>auto simp: service_defs control_defs control_ok_def\<close>)
next
  case (final c ctl)
  note D = svc_invD [OF assms(2)]
  have "control_ok (Some AtFinalWait) ctl" using D(3) final by metis
  then show ?thesis
    by (intro svc_inv_local [OF assms(2) final(2,3), where ctl' = ctl and st' = Returned])
       (use final D(6) in \<open>auto simp: service_defs control_defs control_ok_def WaitClosed_def\<close>)
qed

lemma ctlClose_inv:
  assumes "svc_inv s"
  shows "svc_inv (ctlClose s)"
proof -
  note D = svc_invD [OF assms]
  have ok: "control_ok st ctl \<Longrightarrow> control_ok st (closeConn ctl)" for st ctl by (auto simp: control_ok_def closeConn_def)
  have "controls_ok (ctlClose s)"
    using D(1-3) ok by (auto simp: controls_ok_def ctlClose_def dom_def)
  moreover have "index_ok (ctlClose s)"
    using D(7) by (fastforce simp: index_ok_def ctlClose_def closeConn_def ran_def split: if_splits)
  moreover have "waits_ok (ctlClose s)"
    using D(5) by (fastforce simp: waits_ok_def ctlClose_def closeConn_def)
  ultimately show ?thesis using D(6) by (simp add: svc_inv_def ctlClose_def)
qed

lemma svc_run_inv: "svc_run s \<Longrightarrow> svc_inv s"
proof (induction rule: svc_run.induct)
  case init
  then show ?case
    by (simp add: svc_inv_def controls_ok_def index_ok_def waits_ok_def NewService_def new_registry_inv)
qed (blast intro: svc_step_inv ctlClose_inv)+

lemmas svc_reachable_inv = svc_run_inv [OF reachable_run]

text \<open>Until the service is shut down, it closes the connection of no control that is in use.\<close>

definition open_ok :: "Service \<Rightarrow> bool" where
  "open_ok s \<longleftrightarrow> (\<forall>c ctl. sv_controls s c = Some ctl \<and> ctl_connClosed ctl \<longrightarrow>
     ctl_replaced ctl \<or> ctl_done ctl \<or> sv_stage s c = Some Returned)"

lemma open_okI:
  assumes "open_ok s" "sv_controls s' = (sv_controls s)(c \<mapsto> k)"
    "\<And>d. d \<noteq> c \<Longrightarrow> sv_stage s' d = sv_stage s d" "ctl_connClosed k \<Longrightarrow> ctl_replaced k \<or> ctl_done k \<or> sv_stage s' c = Some Returned"
  shows "open_ok s'"
  using assms by (auto simp: open_ok_def)

lemma open_okD:
  "open_ok s \<Longrightarrow> sv_controls s c = Some ctl \<Longrightarrow> ctl_connClosed ctl \<Longrightarrow>
   ctl_replaced ctl \<or> ctl_done ctl \<or> sv_stage s c = Some Returned"
  by (simp add: open_ok_def)

lemma svc_step_open:
  assumes "svc_step s s'" "svc_inv s" "open_ok s"
  shows "open_ok s'"
  using assms(1)
proof cases
  case (login runID rid verified l)
  show ?thesis
  proof (cases verified)
    case True
    define r where "r = (if runID = [] then rid else runID)"
    have "sv_ctlsByRunID s r \<noteq> Some (sv_next s)" using svc_invD(2,4) [OF assms(2)] by blast
    note eqs = login_eqs [OF r_def _ this, of s' l]
    have fresh: "sv_controls s (sv_next s) = None" using svc_invD(2) [OF assms(2), of "sv_next s"] by (cases "sv_controls s (sv_next s)") auto
    show ?thesis using assms(3) eqs login True by (auto simp: open_ok_def NewControl_def split: if_splits)
  qed (use login assms(3) in \<open>simp add: registerControlBegin_def\<close>)
next
  case (register c ctl old)
  obtain key conflict reg where "register_login (ctl_login ctl) (ctl_loginRunID ctl) (sv_registry s) = ((key, conflict), reg)"
    by (metis prod.collapse)
  then show ?thesis
    using register assms(3)
    by (intro open_okI [OF assms(3), of _ c "if conflict then closeConn ctl else ctl"])
       (auto simp: service_defs control_defs dest: open_okD)
next
  case (resp_failed c ctl now)
  then show ?thesis by (intro open_okI [OF assms(3), of _ c "closeConn ctl"]) (auto simp: service_defs)
next
  case (resp_sent c ctl)
  then show ?thesis using assms(3)
    by (intro open_okI [OF assms(3), of _ c "Start ctl"]) (auto simp: service_defs control_defs dest: open_okD)
next
  case (worker c ctl now)
  then show ?thesis by (intro open_okI [OF assms(3), of _ c "closeDone (closeConn ctl)"]) (auto simp: service_defs control_defs)
next
  case (broken c ctl)
  then show ?thesis using assms(3)
    by (intro open_okI [OF assms(3), of _ c "breakRead ctl"]) (auto simp: service_defs control_defs dest: open_okD)
next
  case (final c ctl)
  then show ?thesis using assms(3) by (auto simp: service_defs open_ok_def)
qed

lemma svc_reachable_open: "svc_reachable s \<Longrightarrow> open_ok s"
proof (induction rule: svc_reachable.induct)
  case init
  then show ?case by (simp add: open_ok_def NewService_def)
qed (blast intro: svc_step_open svc_reachable_inv)

section \<open>Properties\<close>

text \<open>Two logins with the same run id: the first is replaced while its response is still to be written.\<close>

definition demo_svc1 :: Service where
  "demo_svc1 = snd (registerControlBegin True [] demo_login ''r1'' NewService)"

definition demo_svc2 :: Service where
  "demo_svc2 = snd (registerControlEnd 0 (NewControl demo_login ''r1'') demo_svc1)"

definition demo_svc3 :: Service where
  "demo_svc3 = snd (registerControlBegin True [] demo_login ''r1'' demo_svc2)"

definition demo_svc4 :: Service where
  "demo_svc4 = loginRespSent 1 (snd (registerControlEnd 1 (NewControl demo_login ''r1'') demo_svc3))"

lemmas registry_eval = register_login_def demo_login_def newClientRegistryWithClock_def Register_cases conflicts_def
  session_def client_key_def composeClientKey_def registered_def

lemma demo_svc1_eq:
  "demo_svc1 = \<lparr>sv_controls = [0 \<mapsto> NewControl demo_login ''r1''], sv_next = 1, sv_ctlsByRunID = [''r1'' \<mapsto> 0],
     sv_registry = newClientRegistryWithClock, sv_stage = [0 \<mapsto> AtWaitClosed None], sv_clientCounts = 0\<rparr>"
  by (simp add: demo_svc1_def service_defs NewService_def)

lemma demo_svc2_eq:
  "demo_svc2 = \<lparr>sv_controls = [0 \<mapsto> NewControl demo_login ''r1''], sv_next = 1, sv_ctlsByRunID = [''r1'' \<mapsto> 0],
     sv_registry = demo_registry, sv_stage = [0 \<mapsto> AtLoginResp], sv_clientCounts = 0\<rparr>"
proof -
  have "register_login demo_login ''r1'' newClientRegistryWithClock = ((''ann.pc'', False), demo_registry)"
    by (simp add: demo_registry_def registry_eval)
  then show ?thesis
    by (simp add: demo_svc2_def demo_svc1_eq service_defs NewControl_def)
qed

lemma demo_svc3_eq:
  "demo_svc3 = \<lparr>sv_controls = [0 \<mapsto> Replaced (NewControl demo_login ''r1''), 1 \<mapsto> NewControl demo_login ''r1''],
     sv_next = 2, sv_ctlsByRunID = [''r1'' \<mapsto> 1], sv_registry = demo_registry,
     sv_stage = [0 \<mapsto> AtLoginResp, 1 \<mapsto> AtWaitClosed (Some 0)], sv_clientCounts = 0\<rparr>"
  by (simp add: demo_svc3_def demo_svc2_eq service_defs fun_upd_twist)

lemma demo_svc4_eq:
  "sv_controls demo_svc4 = [0 \<mapsto> Replaced (NewControl demo_login ''r1''), 1 \<mapsto> Start (NewControl demo_login ''r1'')]"
  "sv_ctlsByRunID demo_svc4 = [''r1'' \<mapsto> 1]" "sv_stage demo_svc4 = [0 \<mapsto> AtLoginResp, 1 \<mapsto> AtFinalWait]"
  "cr_runIndex (sv_registry demo_svc4) ''r1'' = Some ''ann.pc''"
proof -
  have "fst (register_login demo_login ''r1'' demo_registry) = (''ann.pc'', False)"
    and "cr_runIndex (snd (register_login demo_login ''r1'' demo_registry)) ''r1'' = Some ''ann.pc''"
    by (simp_all add: demo_registry_def registry_eval)
  then show "sv_controls demo_svc4 = [0 \<mapsto> Replaced (NewControl demo_login ''r1''), 1 \<mapsto> Start (NewControl demo_login ''r1'')]"
    "sv_ctlsByRunID demo_svc4 = [''r1'' \<mapsto> 1]" "sv_stage demo_svc4 = [0 \<mapsto> AtLoginResp, 1 \<mapsto> AtFinalWait]"
    "cr_runIndex (sv_registry demo_svc4) ''r1'' = Some ''ann.pc''"
    by (auto simp: demo_svc4_def demo_svc3_eq service_defs NewControl_def split: prod.splits)
qed

lemma demo_svc3_reachable: "svc_reachable demo_svc3"
proof -
  have 1: "svc_reachable demo_svc1"
    unfolding demo_svc1_def by (rule svc_reachable.step [OF svc_reachable.init svc_step.login]) simp
  have "svc_step demo_svc1 demo_svc2"
    unfolding demo_svc2_def by (rule svc_step.register [where old = None]) (simp_all add: demo_svc1_eq)
  with 1 have 2: "svc_reachable demo_svc2" by (rule svc_reachable.step)
  show ?thesis
    unfolding demo_svc3_def by (rule svc_reachable.step [OF 2 svc_step.login]) simp
qed

lemma demo_svc4_reachable: "svc_reachable demo_svc4"
proof -
  let ?s = "snd (registerControlEnd 1 (NewControl demo_login ''r1'') demo_svc3)"
  have "svc_step demo_svc3 ?s"
    by (rule svc_step.register [where old = "Some 0"]) (simp_all add: demo_svc3_eq WaitClosed_def control_defs)
  with demo_svc3_reachable have 1: "svc_reachable ?s" by (rule svc_reachable.step)
  have "fst (register_login demo_login ''r1'' demo_registry) = (''ann.pc'', False)"
    by (simp add: demo_registry_def registry_eval)
  then have "sv_controls ?s 1 = Some (NewControl demo_login ''r1'')" "sv_stage ?s 1 = Some AtLoginResp"
    by (auto simp: demo_svc3_eq service_defs NewControl_def split: prod.splits)
  from svc_reachable.step [OF 1 svc_step.resp_sent [OF this]] show ?thesis by (simp add: demo_svc4_def)
qed

text \<open>The session that took over is replaced in turn, now with its worker running.\<close>

definition demo_svc5 :: Service where
  "demo_svc5 = snd (registerControlBegin True [] demo_login ''r1'' demo_svc4)"

lemma demo_svc5_reachable: "svc_reachable demo_svc5"
  unfolding demo_svc5_def by (rule svc_reachable.step [OF demo_svc4_reachable svc_step.login]) simp

lemma demo_svc4_next: "sv_next demo_svc4 = 2"
  by (simp add: demo_svc4_def demo_svc3_eq service_defs split: prod.splits)

lemma demo_svc5_eq:
  "sv_controls demo_svc5 1 = Some (Replaced (Start (NewControl demo_login ''r1'')))"
  "sv_controls demo_svc5 2 = Some (NewControl demo_login ''r1'')"
  "sv_stage demo_svc5 2 = Some (AtWaitClosed (Some 1))"
  using login_eqs [of "''r1''" "''r1''" "[]" demo_svc5 demo_login demo_svc4]
  by (simp_all add: demo_svc5_def demo_svc4_eq demo_svc4_next)

text \<open>
  C7: A login never waits in vain for the session it replaces, also while the service shuts down. The session waited for is an
  older one, so logins cannot wait for each other in a circle. If it is closed already, the login goes on. Otherwise its
  worker is running, and although the peer may be silent forever, nothing but the worker itself has to move: the read it is
  blocked in returns because its deadline has passed, the worker can exit, and after that the login can go on.
\<close>

theorem login_wait_ends:
  assumes "svc_run s" "sv_stage s c = Some (AtWaitClosed (Some old))"
  shows "old < c \<and> (\<exists>k ctl. sv_controls s c = Some k \<and> sv_controls s old = Some ctl \<and>
    (if ctl_done ctl then svc_step s (snd (registerControlEnd c k s))
     else ctl_started ctl \<and> readReturns ctl \<and>
       (\<forall>now. svc_step s (workerExit now old ctl s) \<and>
          svc_step (workerExit now old ctl s) (snd (registerControlEnd c k (workerExit now old ctl s))))))"
proof -
  note D = svc_invD [OF svc_run_inv [OF assms(1)]]
  obtain ctl where old: "old < c" and ctl: "sv_controls s old = Some ctl" "ctl_replaced ctl"
    using D(5) [OF assms(2)] by blast
  obtain k where k: "sv_controls s c = Some k" using D(1) assms(2) by blast
  show ?thesis
  proof (cases "ctl_done ctl")
    case True
    then have "svc_step s (snd (registerControlEnd c k s))"
      using assms(2) k ctl by (intro svc_step.register [where old = "Some old"]) (simp_all add: WaitClosed_def)
    then show ?thesis using True old ctl k by auto
  next
    case False
    then have r: "ctl_started ctl" "readReturns ctl" using D(3) [OF ctl(1)] ctl(2) by (auto simp: control_ok_def readReturns_def)
    have e: "svc_step s (workerExit now old ctl s)" for now
      by (rule svc_step.worker [OF ctl(1) r(1) False r(2)])
    have "svc_step (workerExit now old ctl s) (snd (registerControlEnd c k (workerExit now old ctl s)))" for now
      using assms(2) k ctl old
      by (intro svc_step.register [where old = "Some old"]) (simp_all add: WaitClosed_def service_defs control_defs)
    then show ?thesis using old ctl k False r e by auto
  qed
qed

theorem login_wait_ends_witness:
  "sv_stage demo_svc5 2 = Some (AtWaitClosed (Some 1)) \<and>
   svc_step demo_svc5 (workerExit 9 1 (Replaced (Start (NewControl demo_login ''r1''))) demo_svc5)"
proof -
  have "\<not> ctl_done (Replaced (Start (NewControl demo_login ''r1'')))" by (simp add: control_defs)
  then show ?thesis
    using login_wait_ends [OF reachable_run [OF demo_svc5_reachable] demo_svc5_eq(3)] demo_svc5_eq by auto
qed

text \<open>
  C1: The index of controls leads to the live session, as long as the service is not shut down (which empties the index). A control whose worker is running and that has not
  been replaced is the one found under the run id of its login, so work connections for this run id reach
  it; and what is found under a run id is a control with this run id that has not been replaced, at most
  one for each run id.
\<close>

theorem live_session_indexed:
  assumes "svc_reachable s"
  shows "(sv_controls s c = Some ctl \<and> ctl_started ctl \<and> \<not> ctl_done ctl \<and> \<not> ctl_replaced ctl \<longrightarrow>
      ctlGetByID (ctl_loginRunID ctl) s = Some c) \<and>
    (ctlGetByID r s = Some c \<longrightarrow> (\<exists>k. sv_controls s c = Some k \<and> ctl_runID k = r \<and> \<not> ctl_replaced k))"
  using svc_invD(3,4,7) [OF svc_reachable_inv [OF assms]] svc_reachable_open [OF assms]
  by (fastforce simp: ctlGetByID_def control_ok_def open_ok_def)

theorem live_session_indexed_witness:
  "ctlGetByID ''r1'' demo_svc4 = Some 1 \<and> (\<exists>k. sv_controls demo_svc4 1 = Some k \<and> ctl_runID k = ''r1'' \<and> \<not> ctl_replaced k)"
  using live_session_indexed [OF demo_svc4_reachable, of 1 "Start (NewControl demo_login ''r1'')" "''r1''"]
  by (simp add: demo_svc4_eq NewControl_def Start_def)

text \<open>
  The end of a replaced session is invisible. When the worker of a replaced control exits, neither the
  registry of clients nor the index of controls changes, so the session that took over its run id
  stays online and reachable; the same holds for the final removal.
\<close>

theorem replaced_worker_harmless:
  assumes "svc_reachable s" "sv_controls s c = Some ctl" "ctl_replaced ctl"
  shows "sv_registry (workerExit now c ctl s) = sv_registry s \<and>
    sv_ctlsByRunID (workerExit now c ctl s) = sv_ctlsByRunID s \<and> finalDel c ctl s = setStage c Returned s"
proof -
  note D = svc_invD [OF svc_reachable_inv [OF assms(1)]]
  have "cr_runIndex (sv_registry s) [] = None"
    using registry_invD(1) [OF D(6), of "[]"] by fastforce
  moreover have "sv_ctlsByRunID s (ctl_loginRunID ctl) \<noteq> Some c"
    using D(4) [of "ctl_loginRunID ctl" c] assms(2,3) by auto
  ultimately show ?thesis
    using D(3) [OF assms(2)] assms(3) by (simp add: service_defs control_ok_def MarkOfflineByRunID_def)
qed

theorem replaced_worker_harmless_witness:
  "sv_registry (workerExit 9 0 (Replaced (NewControl demo_login ''r1'')) demo_svc4) = sv_registry demo_svc4"
  using replaced_worker_harmless [OF demo_svc4_reachable, of 0 "Replaced (NewControl demo_login ''r1'')" 9]
  by (simp add: demo_svc4_eq)

text \<open>
  A failed login response can take the wrong client offline. When a login has been replaced before its
  response is written, the failure of that write marks the run id of the login offline although the run
  id now belongs to the session that replaced it: this session stays the current one of its run id, but
  the registry no longer has it online and a second client with the same id would be let in.
\<close>

theorem late_login_failure:
  assumes "svc_reachable s" "sv_controls s c = Some ctl" "sv_stage s c = Some AtLoginResp" "ctl_replaced ctl"
    "cr_runIndex (sv_registry s) (ctl_loginRunID ctl) = Some k"
  shows "session (sv_registry s) k = Some (ctl_loginRunID ctl) \<and>
    session (sv_registry (loginRespFailed now c ctl s)) k = None \<and>
    ctlGetByID (ctl_loginRunID ctl) (loginRespFailed now c ctl s) = ctlGetByID (ctl_loginRunID ctl) s"
proof -
  note D = svc_invD [OF svc_reachable_inv [OF assms(1)]]
  have "sv_ctlsByRunID s (ctl_loginRunID ctl) \<noteq> Some c"
    using D(4) [of "ctl_loginRunID ctl" c] assms(2,4) by auto
  then show ?thesis
    using sd.index_sess [OF D(6) assms(5)] sd.leave_sess [OF D(6)] assms(5)
    by (simp add: service_defs ctlGetByID_def)
qed

theorem late_login_failure_witness:
  "session (sv_registry (loginRespFailed 9 0 (Replaced (NewControl demo_login ''r1'')) demo_svc4)) ''ann.pc'' = None \<and>
   ctlGetByID ''r1'' (loginRespFailed 9 0 (Replaced (NewControl demo_login ''r1'')) demo_svc4) = Some 1"
  using late_login_failure [OF demo_svc4_reachable, of 0 "Replaced (NewControl demo_login ''r1'')" "''ann.pc''" 9]
  by (simp add: demo_svc4_eq NewControl_def ctlGetByID_def)

end
