(* ===== verification/Control_Proxies.thy ===== *)
theory Control_Proxies
  imports Frp_Prelude
begin

text \<open>
  What a control session owns: its proxies, counted against \<open>MaxPortsPerClient\<close>, and its pool of work
  connections (\<open>server/control.go\<close>: \<open>RegisterProxy\<close>, \<open>CloseProxy\<close>, the cleanup in \<open>worker\<close>,
  \<open>RegisterWorkConn\<close>, \<open>GetWorkConn\<close>), and the names shared by all sessions (\<open>Manager\<close> in
  \<open>server/proxy/proxy.go\<close>). The dispatcher runs the handlers of one session one after the other, but
  sessions interleave: \<open>RegisterProxy\<close> looks at the shared names, runs the proxy, and only then claims the
  name, so it is modelled as two steps.
\<close>

section \<open>Proxies and their names\<close>

text \<open>A proxy object; \<open>px_owner\<close> is the session whose work connections it uses.\<close>

record Proxy =
  px_name :: string
  px_owner :: nat
  px_usedPortsNum :: nat

record PxyControl =
  pc_proxies :: "string \<rightharpoonup> Proxy"
  pc_portsUsedNum :: int
  pc_pending :: "Proxy option"  \<comment> \<open>the proxy \<open>RegisterProxy\<close> is about to run\<close>
  pc_alive :: bool  \<comment> \<open>the dispatcher is running\<close>

text \<open>\<open>ps_running\<close> are the proxies that have been run and not closed, \<open>ps_left\<close> those whose \<open>Run\<close> has failed half way and which
  are not closed either: the listeners and entries such a run has made before it failed stay behind.\<close>

record PxySystem =
  ps_controls :: "nat \<rightharpoonup> PxyControl"
  ps_pxys :: "string \<rightharpoonup> Proxy"
  ps_running :: "Proxy set"
  ps_left :: "Proxy list"

datatype proxy_error = ExceedMaxPorts | AlreadyExists | RunFailed | NameInUse

definition pxyAdd :: "string \<Rightarrow> Proxy \<Rightarrow> (string \<rightharpoonup> Proxy) \<Rightarrow> proxy_error + (string \<rightharpoonup> Proxy)" where
  "pxyAdd name pxy pxys = (case pxys name of Some _ \<Rightarrow> Inl NameInUse | None \<Rightarrow> Inr (pxys(name \<mapsto> pxy)))"

definition pxyExist :: "string \<Rightarrow> (string \<rightharpoonup> Proxy) \<Rightarrow> bool" where
  "pxyExist name pxys = (pxys name \<noteq> None)"

definition pxyDel :: "string \<Rightarrow> (string \<rightharpoonup> Proxy) \<Rightarrow> (string \<rightharpoonup> Proxy)" where
  "pxyDel name pxys = pxys(name := None)"

definition newPxyControl :: PxyControl where
  "newPxyControl = \<lparr>pc_proxies = Map.empty, pc_portsUsedNum = 0, pc_pending = None, pc_alive = True\<rparr>"

definition newPxySystem :: PxySystem where
  "newPxySystem = \<lparr>ps_controls = Map.empty, ps_pxys = Map.empty, ps_running = {}, ps_left = []\<rparr>"

definition setPC :: "nat \<Rightarrow> PxyControl \<Rightarrow> PxySystem \<Rightarrow> PxySystem" where
  "setPC c pc s = s\<lparr>ps_controls := (ps_controls s)(c \<mapsto> pc)\<rparr>"

section \<open>Registering and closing proxies\<close>

text \<open>The booking against \<open>MaxPortsPerClient\<close> and the deferred function that takes it back.\<close>

definition bookPorts :: "int \<Rightarrow> Proxy \<Rightarrow> PxyControl \<Rightarrow> proxy_error + PxyControl" where
  "bookPorts maxPorts pxy pc =
     (if maxPorts > 0 then
        if pc_portsUsedNum pc + int (px_usedPortsNum pxy) > maxPorts then Inl ExceedMaxPorts
        else Inr (pc\<lparr>pc_portsUsedNum := pc_portsUsedNum pc + int (px_usedPortsNum pxy)\<rparr>)
      else Inr pc)"

definition unbookPorts :: "int \<Rightarrow> Proxy \<Rightarrow> PxyControl \<Rightarrow> PxyControl" where
  "unbookPorts maxPorts pxy pc =
     (if maxPorts > 0 then pc\<lparr>pc_portsUsedNum := pc_portsUsedNum pc - int (px_usedPortsNum pxy)\<rparr> else pc)"

text \<open>\<open>RegisterProxy\<close> up to \<open>pxy.Run()\<close>.\<close>

definition registerProxyCheck ::
  "int \<Rightarrow> string \<Rightarrow> nat \<Rightarrow> nat \<Rightarrow> PxyControl \<Rightarrow> PxySystem \<Rightarrow> (proxy_error + unit) \<times> PxySystem" where
  "registerProxyCheck maxPorts name used c pc s =
     (let pxy = \<lparr>px_name = name, px_owner = c, px_usedPortsNum = used\<rparr>
      in case bookPorts maxPorts pxy pc of
           Inl e \<Rightarrow> (Inl e, s)
         | Inr pc1 \<Rightarrow>
             if pxyExist name (ps_pxys s) then (Inl AlreadyExists, setPC c (unbookPorts maxPorts pxy pc1) s)
             else (Inr (), setPC c (pc1\<lparr>pc_pending := Some pxy\<rparr>) s))"

text \<open>The rest of \<open>RegisterProxy\<close>. What \<open>pxy.Run()\<close> does depends on the kind of proxy and on the resources of the server: it
  succeeds or it fails, and a failed run may leave something behind. \<open>RegisterProxy\<close> closes the proxy only after a run that
  succeeded.\<close>

datatype run_outcome = RunOk | RunErr bool

definition registerProxyRun ::
  "int \<Rightarrow> run_outcome \<Rightarrow> nat \<Rightarrow> PxyControl \<Rightarrow> Proxy \<Rightarrow> PxySystem \<Rightarrow> (proxy_error + unit) \<times> PxySystem" where
  "registerProxyRun maxPorts out c pc pxy s =
     (let pc1 = pc\<lparr>pc_pending := None\<rparr>
      in case out of
           RunErr leaves \<Rightarrow> (Inl RunFailed, setPC c (unbookPorts maxPorts pxy pc1)
             (if leaves then s\<lparr>ps_left := pxy # ps_left s\<rparr> else s))
         | RunOk \<Rightarrow>
             let s1 = s\<lparr>ps_running := insert pxy (ps_running s)\<rparr>
             in case pxyAdd (px_name pxy) pxy (ps_pxys s1) of
                  Inl e \<Rightarrow> (Inl e, setPC c (unbookPorts maxPorts pxy pc1) (s1\<lparr>ps_running := ps_running s1 - {pxy}\<rparr>))
                | Inr pxys \<Rightarrow>
                    (Inr (), setPC c (pc1\<lparr>pc_proxies := (pc_proxies pc1)(px_name pxy \<mapsto> pxy)\<rparr>) (s1\<lparr>ps_pxys := pxys\<rparr>)))"

definition closeProxy :: "Proxy \<Rightarrow> PxySystem \<Rightarrow> PxySystem" where
  "closeProxy pxy s = s\<lparr>ps_running := ps_running s - {pxy}, ps_pxys := pxyDel (px_name pxy) (ps_pxys s)\<rparr>"

definition CloseProxy :: "int \<Rightarrow> string \<Rightarrow> nat \<Rightarrow> PxyControl \<Rightarrow> PxySystem \<Rightarrow> PxySystem" where
  "CloseProxy maxPorts name c pc s =
     (case pc_proxies pc name of None \<Rightarrow> s
      | Some pxy \<Rightarrow>
          let pc1 = unbookPorts maxPorts pxy pc;
              pc2 = pc1\<lparr>pc_proxies := (pc_proxies pc1)(name := None)\<rparr>
          in closeProxy pxy (setPC c pc2 s))"

text \<open>The end of \<open>worker\<close>: the proxies are taken out of the session and closed one by one, in the
  order in which Go iterates over the map.\<close>

definition workerCleanup :: "string list \<Rightarrow> nat \<Rightarrow> PxyControl \<Rightarrow> PxySystem \<Rightarrow> PxySystem" where
  "workerCleanup order c pc s =
     (let s1 = setPC c (pc\<lparr>pc_proxies := Map.empty, pc_alive := False\<rparr>) s
      in fold closeProxy (List.map_filter (pc_proxies pc) order) s1)"

inductive pxy_step :: "int \<Rightarrow> PxySystem \<Rightarrow> PxySystem \<Rightarrow> bool" for maxPorts where
  connect: "ps_controls s c = None \<Longrightarrow> pxy_step maxPorts s (setPC c newPxyControl s)"
| check: "ps_controls s c = Some pc \<Longrightarrow> pc_alive pc \<Longrightarrow> pc_pending pc = None \<Longrightarrow>
    pxy_step maxPorts s (snd (registerProxyCheck maxPorts name used c pc s))"
| run: "ps_controls s c = Some pc \<Longrightarrow> pc_alive pc \<Longrightarrow> pc_pending pc = Some pxy \<Longrightarrow>
    pxy_step maxPorts s (snd (registerProxyRun maxPorts out c pc pxy s))"
| close: "ps_controls s c = Some pc \<Longrightarrow> pc_alive pc \<Longrightarrow> pc_pending pc = None \<Longrightarrow>
    pxy_step maxPorts s (CloseProxy maxPorts name c pc s)"
| worker: "ps_controls s c = Some pc \<Longrightarrow> pc_alive pc \<Longrightarrow> pc_pending pc = None \<Longrightarrow>
    set order = dom (pc_proxies pc) \<Longrightarrow> pxy_step maxPorts s (workerCleanup order c pc s)"

inductive pxy_reachable :: "int \<Rightarrow> PxySystem \<Rightarrow> bool" for maxPorts where
  init: "pxy_reachable maxPorts newPxySystem"
| step: "pxy_reachable maxPorts s \<Longrightarrow> pxy_step maxPorts s s' \<Longrightarrow> pxy_reachable maxPorts s'"

text \<open>What the other sessions may do meanwhile: steps that leave the session \<open>c\<close> alone.\<close>

inductive pxy_others :: "int \<Rightarrow> nat \<Rightarrow> PxySystem \<Rightarrow> PxySystem \<Rightarrow> bool" for maxPorts c s where
  none: "pxy_others maxPorts c s s"
| other: "pxy_others maxPorts c s s' \<Longrightarrow> pxy_step maxPorts s' s'' \<Longrightarrow> ps_controls s'' c = ps_controls s' c \<Longrightarrow>
    pxy_others maxPorts c s s''"

text \<open>A whole call of \<open>RegisterProxy\<close> for session \<open>c\<close>, from \<open>s\<close> to \<open>s'\<close>: \<open>mid\<close> is the state that the other sessions have made of
  \<open>s\<close> when its last part is reached.\<close>

inductive RegisterProxy ::
  "int \<Rightarrow> run_outcome \<Rightarrow> string \<Rightarrow> nat \<Rightarrow> nat \<Rightarrow> PxySystem \<Rightarrow> PxySystem \<Rightarrow> proxy_error + unit \<Rightarrow> PxySystem \<Rightarrow> bool"
  for maxPorts out name used c where
  refused: "ps_controls s c = Some pc \<Longrightarrow> registerProxyCheck maxPorts name used c pc s = (Inl e, s') \<Longrightarrow>
    RegisterProxy maxPorts out name used c s s (Inl e) s'"
| ran: "ps_controls s c = Some pc \<Longrightarrow> registerProxyCheck maxPorts name used c pc s = (Inr (), s1) \<Longrightarrow>
    pxy_others maxPorts c s1 mid \<Longrightarrow> ps_controls mid c = Some pc1 \<Longrightarrow> pc_pending pc1 = Some pxy \<Longrightarrow>
    registerProxyRun maxPorts out c pc1 pxy mid = (r, s') \<Longrightarrow> RegisterProxy maxPorts out name used c s mid r s'"

section \<open>The pool of work connections\<close>

text \<open>A buffered channel of connections; \<open>wp_cap\<close> is \<open>poolCount+10\<close>.\<close>

record WorkPool =
  wp_conns :: "nat list"
  wp_cap :: nat
  wp_closed :: bool

definition newWorkPool :: "nat \<Rightarrow> WorkPool" where
  "newWorkPool poolCount = \<lparr>wp_conns = [], wp_cap = poolCount + 10, wp_closed = False\<rparr>"

datatype pool_error = PoolFull | ErrCtlClosed | AlreadyClosed | WaitTimeout

text \<open>Sending on a closed channel panics; the deferred function recovers and the result stays nil.\<close>

definition RegisterWorkConn :: "nat \<Rightarrow> WorkPool \<Rightarrow> (pool_error + unit) \<times> WorkPool" where
  "RegisterWorkConn conn wp =
     (if wp_closed wp then (Inr (), wp)
      else if length (wp_conns wp) < wp_cap wp then (Inr (), wp\<lparr>wp_conns := wp_conns wp @ [conn]\<rparr>)
      else (Inl PoolFull, wp))"

text \<open>What happens while the call waits on the empty pool.\<close>

datatype pool_wait = Arrives nat | Closes | TimesOut

definition GetWorkConn :: "bool \<Rightarrow> pool_wait \<Rightarrow> WorkPool \<Rightarrow> (pool_error + nat) \<times> WorkPool" where
  "GetWorkConn sendOk w wp =
     (case wp_conns wp of
        conn # rest \<Rightarrow> (Inr conn, wp\<lparr>wp_conns := rest\<rparr>)
      | [] \<Rightarrow>
          if wp_closed wp then (Inl ErrCtlClosed, wp)
          else if \<not> sendOk then (Inl AlreadyClosed, wp)
          else (case w of
                  Arrives conn \<Rightarrow> (Inr conn, wp)
                | Closes \<Rightarrow> (Inl ErrCtlClosed, wp\<lparr>wp_closed := True\<rparr>)
                | TimesOut \<Rightarrow> (Inl WaitTimeout, wp)))"

text \<open>\<open>worker\<close> closes the channel and the connections left in it.\<close>

definition closeWorkPool :: "WorkPool \<Rightarrow> nat list \<times> WorkPool" where
  "closeWorkPool wp = (wp_conns wp, wp\<lparr>wp_conns := [], wp_closed := True\<rparr>)"

lemmas pxy_defs [frp_defs] = registerProxyCheck_def registerProxyRun_def bookPorts_def unbookPorts_def pxyAdd_def
  pxyExist_def pxyDel_def setPC_def closeProxy_def CloseProxy_def Let_def

section \<open>Invariant\<close>

definition portsOf :: "(string \<rightharpoonup> Proxy) \<Rightarrow> nat" where
  "portsOf m = (\<Sum>n \<in> dom m. px_usedPortsNum (the (m n)))"

lemma portsOf_empty [simp]: "portsOf Map.empty = 0"
  by (simp add: portsOf_def)

lemma portsOf_insert:
  assumes "finite (dom m)" "m n = None"
  shows "portsOf (m(n \<mapsto> p)) = portsOf m + px_usedPortsNum p"
proof -
  have "(\<Sum>k \<in> dom m. px_usedPortsNum (the ((m(n \<mapsto> p)) k))) = (\<Sum>k \<in> dom m. px_usedPortsNum (the (m k)))"
    using assms(2) by (intro sum.cong) auto
  moreover have "n \<notin> dom m" using assms(2) by auto
  ultimately show ?thesis using assms(1) by (simp add: portsOf_def)
qed

lemma portsOf_delete:
  assumes "finite (dom m)" "m n = Some p"
  shows "portsOf m = portsOf (m(n := None)) + px_usedPortsNum p"
proof -
  have "(m(n := None))(n \<mapsto> p) = m" using assms(2) by auto
  then show ?thesis using portsOf_insert [of "m(n := None)" n p] assms(1) by simp
qed

definition pendingPorts :: "PxyControl \<Rightarrow> nat" where
  "pendingPorts pc = (case pc_pending pc of Some p \<Rightarrow> px_usedPortsNum p | None \<Rightarrow> 0)"

definition quota_ok :: "int \<Rightarrow> PxyControl \<Rightarrow> bool" where
  "quota_ok maxPorts pc \<longleftrightarrow> (pc_alive pc \<and> maxPorts > 0 \<longrightarrow>
     pc_portsUsedNum pc = int (portsOf (pc_proxies pc) + pendingPorts pc) \<and> pc_portsUsedNum pc \<le> maxPorts)"

text \<open>A session holds proxies of its own under their names, and none once it has ended.\<close>

definition pc_ok :: "nat \<Rightarrow> PxyControl \<Rightarrow> bool" where
  "pc_ok c pc \<longleftrightarrow> finite (dom (pc_proxies pc)) \<and>
     (\<forall>n p. pc_proxies pc n = Some p \<longrightarrow> px_name p = n \<and> px_owner p = c) \<and>
     (\<forall>p. pc_pending pc = Some p \<longrightarrow> px_owner p = c \<and> pc_proxies pc (px_name p) = None) \<and>
     (\<not> pc_alive pc \<longrightarrow> pc_proxies pc = Map.empty \<and> pc_pending pc = None)"

lemma pc_okD:
  assumes "pc_ok c pc" "pc_proxies pc n = Some p"
  shows "px_name p = n" "px_owner p = c"
  using assms by (auto simp: pc_ok_def)

definition pcs_ok :: "int \<Rightarrow> PxySystem \<Rightarrow> bool" where
  "pcs_ok maxPorts s \<longleftrightarrow> (\<forall>c pc. ps_controls s c = Some pc \<longrightarrow> pc_ok c pc \<and> quota_ok maxPorts pc)"

text \<open>The shared names are the union of the sessions' proxies, and those are the proxies that run.\<close>

definition names_ok :: "PxySystem \<Rightarrow> bool" where
  "names_ok s \<longleftrightarrow> (\<forall>n p. ps_pxys s n = Some p \<longleftrightarrow>
       (\<exists>pc. ps_controls s (px_owner p) = Some pc \<and> pc_proxies pc n = Some p)) \<and>
     ps_running s = ran (ps_pxys s)"

definition pxy_inv :: "int \<Rightarrow> PxySystem \<Rightarrow> bool" where
  "pxy_inv maxPorts s \<longleftrightarrow> pcs_ok maxPorts s \<and> names_ok s"

lemma pxy_invD:
  assumes "pxy_inv maxPorts s"
  shows "ps_controls s c = Some pc \<Longrightarrow> pc_ok c pc"
    and "ps_controls s c = Some pc \<Longrightarrow> quota_ok maxPorts pc"
    and "ps_pxys s n = Some p \<longleftrightarrow> (\<exists>pc. ps_controls s (px_owner p) = Some pc \<and> pc_proxies pc n = Some p)"
    and "ps_running s = ran (ps_pxys s)"
  using assms by (auto simp: pxy_inv_def pcs_ok_def names_ok_def)

lemma owned_name:
  assumes "pxy_inv maxPorts s" "ps_controls s c = Some pc" "pc_proxies pc n = Some p"
  shows "ps_pxys s n = Some p"
  using pxy_invD(1) [OF assms(1,2)] pxy_invD(3) [OF assms(1)] assms(2,3) by (auto simp: pc_ok_def)

lemma pcs_ok_upd:
  assumes "pxy_inv maxPorts s" "ps_controls s' = (ps_controls s)(c \<mapsto> pc)" "pc_ok c pc" "quota_ok maxPorts pc"
  shows "pcs_ok maxPorts s'"
  using assms by (simp add: pxy_inv_def pcs_ok_def)

text \<open>A change of one session that keeps its proxies keeps the invariant.\<close>

lemma pxy_inv_setPC:
  assumes "pxy_inv maxPorts s" "ps_controls s c = Some pc" "pc_proxies pc' = pc_proxies pc"
    "pc_ok c pc'" "quota_ok maxPorts pc'"
  shows "pxy_inv maxPorts (setPC c pc' s)"
  using assms by (auto simp: pxy_inv_def pcs_ok_def names_ok_def setPC_def)

lemma connect_inv:
  assumes "pxy_inv maxPorts s" "ps_controls s c = None"
  shows "pxy_inv maxPorts (setPC c newPxyControl s)"
proof -
  have "pc_ok c newPxyControl" "quota_ok maxPorts newPxyControl"
    by (simp_all add: newPxyControl_def pc_ok_def quota_ok_def pendingPorts_def)
  moreover have "pc_proxies newPxyControl = Map.empty" by (simp add: newPxyControl_def)
  ultimately show ?thesis using assms by (auto simp: pxy_inv_def pcs_ok_def names_ok_def setPC_def)
qed

lemma check_inv:
  assumes inv: "pxy_inv maxPorts s" and pc: "ps_controls s c = Some pc" "pc_alive pc" "pc_pending pc = None"
  shows "pxy_inv maxPorts (snd (registerProxyCheck maxPorts name used c pc s))"
proof -
  note ok = pxy_invD(1,2) [OF inv pc(1)]
  have "\<not> pxyExist name (ps_pxys s) \<Longrightarrow> pc_proxies pc name = None"
    using owned_name [OF inv pc(1), of name] by (cases "pc_proxies pc name") (auto simp: pxyExist_def)
  then show ?thesis
    using inv ok pc
    by (auto simp: registerProxyCheck_def bookPorts_def unbookPorts_def Let_def pc_ok_def quota_ok_def pendingPorts_def
        intro!: pxy_inv_setPC [OF inv pc(1)])
qed

lemma unbook_inv:
  assumes inv: "pxy_inv maxPorts s" and pc: "ps_controls s c = Some pc" "pc_alive pc" "pc_pending pc = Some pxy"
  shows "pxy_inv maxPorts (setPC c (unbookPorts maxPorts pxy (pc\<lparr>pc_pending := None\<rparr>)) s)"
  using pxy_invD(1,2) [OF inv pc(1)] pc
  by (intro pxy_inv_setPC [OF inv pc(1)])
     (auto simp: unbookPorts_def pc_ok_def quota_ok_def pendingPorts_def)

lemma claim_inv:
  assumes inv: "pxy_inv maxPorts s" and pc: "ps_controls s c = Some pc" "pc_alive pc" "pc_pending pc = Some pxy"
    and free: "ps_pxys s (px_name pxy) = None"
  shows "pxy_inv maxPorts (setPC c (pc\<lparr>pc_pending := None, pc_proxies := (pc_proxies pc)(px_name pxy \<mapsto> pxy)\<rparr>)
     (s\<lparr>ps_running := insert pxy (ps_running s), ps_pxys := (ps_pxys s)(px_name pxy \<mapsto> pxy)\<rparr>))"
    (is "pxy_inv _ ?s'")
proof -
  note D = pxy_invD [OF inv]
  note ok = D(1,2) [OF pc(1)]
  have own: "px_owner pxy = c" using ok(1) pc(3) by (simp add: pc_ok_def)
  have none: "pc_proxies pc (px_name pxy) = None"
    using owned_name [OF inv pc(1), of "px_name pxy"] free by (cases "pc_proxies pc (px_name pxy)") auto
  let ?pc = "pc\<lparr>pc_pending := None, pc_proxies := (pc_proxies pc)(px_name pxy \<mapsto> pxy)\<rparr>"
  have "pc_ok c ?pc" using ok(1) pc(2) own by (auto simp: pc_ok_def)
  moreover have "portsOf (pc_proxies ?pc) = portsOf (pc_proxies pc) + px_usedPortsNum pxy"
    using ok(1) none by (simp add: portsOf_insert pc_ok_def)
  then have "quota_ok maxPorts ?pc" using ok(2) pc(3) by (auto simp: quota_ok_def pendingPorts_def)
  ultimately have pcs: "pcs_ok maxPorts ?s'"
    by (intro pcs_ok_upd [OF inv]) (simp_all add: setPC_def)
  have "ran ((ps_pxys s)(px_name pxy \<mapsto> pxy)) = insert pxy (ran (ps_pxys s))"
    using free by simp
  moreover have "ps_pxys ?s' n = Some p \<longleftrightarrow>
      (\<exists>pc. ps_controls ?s' (px_owner p) = Some pc \<and> pc_proxies pc n = Some p)" for n p
    using D(3) [of n p] pc(1) own free
    by (cases "px_owner p = c"; cases "n = px_name pxy") (auto simp: setPC_def)
  ultimately have "names_ok ?s'"
    using D(4) by (simp add: names_ok_def setPC_def)
  with pcs show ?thesis by (simp add: pxy_inv_def)
qed

lemma pending_not_running:
  assumes inv: "pxy_inv maxPorts s" and pc: "ps_controls s c = Some pc" "pc_pending pc = Some pxy"
  shows "pxy \<notin> ps_running s"
proof -
  have ok: "pc_proxies pc (px_name pxy) = None" "px_owner pxy = c"
    using pxy_invD(1) [OF inv pc(1)] pc(2) by (auto simp: pc_ok_def)
  have "ps_pxys s n \<noteq> Some pxy" for n
  proof
    assume "ps_pxys s n = Some pxy"
    then have "pc_proxies pc n = Some pxy" using pxy_invD(3) [OF inv, of n pxy] ok(2) pc(1) by auto
    then show False using pxy_invD(1) [OF inv pc(1)] ok(1) by (auto simp: pc_ok_def)
  qed
  then show ?thesis using pxy_invD(4) [OF inv] by (auto simp: ran_def)
qed

text \<open>The three ways \<open>registerProxyRun\<close> ends.\<close>

lemma registerProxyRun_cases:
  assumes "pxy \<notin> ps_running s"
  shows "registerProxyRun maxPorts (RunErr leaves) c pc pxy s = (Inl RunFailed,
      (setPC c (unbookPorts maxPorts pxy (pc\<lparr>pc_pending := None\<rparr>)) s)\<lparr>ps_left := (if leaves then pxy # ps_left s else ps_left s)\<rparr>)"
    and "ps_pxys s (px_name pxy) \<noteq> None \<Longrightarrow> registerProxyRun maxPorts RunOk c pc pxy s =
      (Inl NameInUse, setPC c (unbookPorts maxPorts pxy (pc\<lparr>pc_pending := None\<rparr>)) s)"
    and "ps_pxys s (px_name pxy) = None \<Longrightarrow> registerProxyRun maxPorts RunOk c pc pxy s = (Inr (),
      setPC c (pc\<lparr>pc_pending := None, pc_proxies := (pc_proxies pc)(px_name pxy \<mapsto> pxy)\<rparr>)
        (s\<lparr>ps_running := insert pxy (ps_running s), ps_pxys := (ps_pxys s)(px_name pxy \<mapsto> pxy)\<rparr>))"
  using assms by (auto simp: registerProxyRun_def pxyAdd_def setPC_def Let_def)

lemma pxy_inv_left: "pxy_inv maxPorts (s\<lparr>ps_left := l\<rparr>) \<longleftrightarrow> pxy_inv maxPorts s"
  by (simp add: pxy_inv_def pcs_ok_def names_ok_def)

lemma run_inv:
  assumes inv: "pxy_inv maxPorts s" and pc: "ps_controls s c = Some pc" "pc_alive pc" "pc_pending pc = Some pxy"
  shows "pxy_inv maxPorts (snd (registerProxyRun maxPorts out c pc pxy s))"
proof -
  note cases = registerProxyRun_cases [OF pending_not_running [OF inv pc(1,3)], of maxPorts]
  show ?thesis
    using unbook_inv [OF inv pc] claim_inv [OF inv pc]
    by (cases out; cases "ps_pxys s (px_name pxy) = None") (simp_all add: cases pxy_inv_left)
qed

lemma closeProxy_inv:
  assumes inv: "pxy_inv maxPorts s" and pc: "ps_controls s c = Some pc" "pc_alive pc" "pc_pending pc = None"
  shows "pxy_inv maxPorts (CloseProxy maxPorts name c pc s)" (is "pxy_inv _ ?s'")
proof (cases "pc_proxies pc name")
  case None
  then show ?thesis using inv by (simp add: CloseProxy_def)
next
  case (Some pxy)
  note D = pxy_invD [OF inv]
  note ok = D(1,2) [OF pc(1)]
  have name: "px_name pxy = name" "px_owner pxy = c" using ok(1) Some by (auto simp: pc_ok_def)
  have reg: "ps_pxys s name = Some pxy" by (rule owned_name [OF inv pc(1) Some])
  let ?pc = "(unbookPorts maxPorts pxy pc)\<lparr>pc_proxies := (pc_proxies pc)(name := None)\<rparr>"
  have s': "ps_controls ?s' = (ps_controls s)(c \<mapsto> ?pc)" "ps_running ?s' = ps_running s - {pxy}"
      "ps_pxys ?s' = (ps_pxys s)(name := None)"
    using Some name by (simp_all add: CloseProxy_def closeProxy_def pxyDel_def setPC_def Let_def unbookPorts_def)
  have "portsOf (pc_proxies pc) = portsOf ((pc_proxies pc)(name := None)) + px_usedPortsNum pxy"
    using ok(1) Some by (intro portsOf_delete) (auto simp: pc_ok_def)
  then have "quota_ok maxPorts ?pc" using ok(2) by (auto simp: quota_ok_def pendingPorts_def unbookPorts_def)
  moreover have "pc_ok c ?pc" using ok(1) by (auto simp: pc_ok_def unbookPorts_def)
  ultimately have pcs: "pcs_ok maxPorts ?s'"
    by (intro pcs_ok_upd [OF inv]) (simp_all add: s')
  have uniq: "n = name" if "ps_pxys s n = Some pxy" for n
    using D(3) [of n pxy] that name pc(1) ok(1) by (auto simp: pc_ok_def)
  have "ran ((ps_pxys s)(name := None)) = ran (ps_pxys s) - {pxy}"
    by (rule ran_delete [where m = "ps_pxys s", OF reg uniq])
  moreover have "ps_pxys ?s' n = Some p \<longleftrightarrow>
      (\<exists>pc. ps_controls ?s' (px_owner p) = Some pc \<and> pc_proxies pc n = Some p)" for n p
    using D(3) [of n p] pc(1) Some name reg
    by (cases "px_owner p = c"; cases "n = name") (auto simp: s')
  ultimately show ?thesis
    using D(4) pcs by (simp add: pxy_inv_def names_ok_def s')
qed

lemma fold_closeProxy:
  "ps_controls (fold closeProxy ps s) = ps_controls s"
  "ps_running (fold closeProxy ps s) = ps_running s - set ps"
  "ps_pxys (fold closeProxy ps s) n = (if n \<in> px_name ` set ps then None else ps_pxys s n)"
  by (induction ps arbitrary: s) (auto simp: closeProxy_def pxyDel_def)

lemma set_map_filter_dom: "set order = dom m \<Longrightarrow> set (List.map_filter m order) = ran m"
  by (force simp: List.map_filter_def ran_def image_iff)

lemma workerCleanup_eqs:
  assumes "pc_ok c pc" "set order = dom (pc_proxies pc)"
  shows "ps_controls (workerCleanup order c pc s) = (ps_controls s)(c \<mapsto> pc\<lparr>pc_proxies := Map.empty, pc_alive := False\<rparr>)"
    and "ps_running (workerCleanup order c pc s) = ps_running s - ran (pc_proxies pc)"
    and "ps_pxys (workerCleanup order c pc s) n = (if pc_proxies pc n = None then ps_pxys s n else None)"
proof -
  have name: "pc_proxies pc n = Some p \<Longrightarrow> px_name p = n" for n p
    using assms(1) by (simp add: pc_ok_def)
  then have "px_name ` ran (pc_proxies pc) = dom (pc_proxies pc)"
    by (auto simp: ran_def dom_def intro: rev_image_eqI)
  then show "ps_controls (workerCleanup order c pc s) = (ps_controls s)(c \<mapsto> pc\<lparr>pc_proxies := Map.empty, pc_alive := False\<rparr>)"
    "ps_running (workerCleanup order c pc s) = ps_running s - ran (pc_proxies pc)"
    "ps_pxys (workerCleanup order c pc s) n = (if pc_proxies pc n = None then ps_pxys s n else None)"
    by (simp_all add: workerCleanup_def fold_closeProxy set_map_filter_dom [OF assms(2)] setPC_def Let_def domIff)
qed

lemma worker_inv:
  assumes inv: "pxy_inv maxPorts s" and pc: "ps_controls s c = Some pc" "pc_alive pc" "pc_pending pc = None"
    and order: "set order = dom (pc_proxies pc)"
  shows "pxy_inv maxPorts (workerCleanup order c pc s)" (is "pxy_inv _ ?s'")
proof -
  note D = pxy_invD [OF inv]
  note ok = D(1) [OF pc(1)] and eqs = workerCleanup_eqs [OF D(1) [OF pc(1)] order]
  have "pcs_ok maxPorts ?s'"
    using pc by (intro pcs_ok_upd [OF inv eqs(1)]) (auto simp: pc_ok_def quota_ok_def)
  moreover have own: "pc_proxies pc n = Some p \<longleftrightarrow> ps_pxys s n = Some p \<and> px_owner p = c" for n p
  proof
    assume p: "pc_proxies pc n = Some p"
    then show "ps_pxys s n = Some p \<and> px_owner p = c"
      using owned_name [OF inv pc(1) p] ok by (simp add: pc_ok_def)
  next
    assume "ps_pxys s n = Some p \<and> px_owner p = c"
    then show "pc_proxies pc n = Some p" using D(3) [of n p] pc(1) by auto
  qed
  have pxys': "ps_pxys ?s' n = Some p \<longleftrightarrow> ps_pxys s n = Some p \<and> px_owner p \<noteq> c" for n p
  proof (cases "pc_proxies pc n")
    case None
    then show ?thesis using own [of n p] by (auto simp: eqs(3))
  next
    case (Some q)
    then show ?thesis using own [of n q] by (auto simp: eqs(3))
  qed
  have "ps_pxys ?s' n = Some p \<longleftrightarrow>
      (\<exists>pc. ps_controls ?s' (px_owner p) = Some pc \<and> pc_proxies pc n = Some p)" for n p
    unfolding pxys' D(3) by (auto simp: eqs(1))
  moreover have "ran (ps_pxys ?s') = ran (ps_pxys s) - ran (pc_proxies pc)"
    unfolding ran_def pxys' own by auto
  ultimately show ?thesis using D(4) by (auto simp: pxy_inv_def names_ok_def eqs(2))
qed

lemma pxy_step_inv: "pxy_step maxPorts s s' \<Longrightarrow> pxy_inv maxPorts s \<Longrightarrow> pxy_inv maxPorts s'"
  by (induction rule: pxy_step.induct) (simp_all add: connect_inv check_inv run_inv closeProxy_inv worker_inv)

lemma pxy_reachable_inv: "pxy_reachable maxPorts s \<Longrightarrow> pxy_inv maxPorts s"
proof (induction rule: pxy_reachable.induct)
  case init
  then show ?case by (simp add: pxy_inv_def pcs_ok_def names_ok_def newPxySystem_def)
qed (blast intro: pxy_step_inv)

section \<open>Work connections\<close>

datatype pool_op = OpRegister nat | OpGet bool pool_wait

text \<open>Running a list of calls: the connections accepted into the pool (or handed over to a waiting call)
  and those handed out, both in order.\<close>

fun runPool :: "pool_op list \<Rightarrow> WorkPool \<Rightarrow> nat list \<times> nat list \<times> WorkPool" where
  "runPool [] wp = ([], [], wp)"
| "runPool (OpRegister conn # ops) wp =
     (case RegisterWorkConn conn wp of (r, wp1) \<Rightarrow>
        case runPool ops wp1 of (acc, out, wp2) \<Rightarrow>
          (if r = Inr () \<and> \<not> wp_closed wp then conn # acc else acc, out, wp2))"
| "runPool (OpGet sendOk w # ops) wp =
     (case GetWorkConn sendOk w wp of (r, wp1) \<Rightarrow>
        case runPool ops wp1 of (acc, out, wp2) \<Rightarrow>
          (case r of Inr conn \<Rightarrow> (if wp_conns wp = [] then conn # acc else acc, conn # out, wp2)
           | Inl _ \<Rightarrow> (acc, out, wp2)))"

lemma runPool_fifo:
  "runPool ops wp = (acc, out, wp') \<Longrightarrow> wp_conns wp @ acc = out @ wp_conns wp'"
proof (induction ops arbitrary: wp acc out rule: list.induct)
  case (Cons op ops)
  show ?case
  proof (cases op)
    case (OpRegister conn)
    then show ?thesis using Cons.prems
      by (auto simp: RegisterWorkConn_def split: prod.splits if_splits dest!: Cons.IH)
  next
    case (OpGet sendOk w)
    then show ?thesis using Cons.prems
      by (auto simp: GetWorkConn_def split: prod.splits if_splits list.splits pool_wait.splits dest!: Cons.IH)
  qed
qed simp

lemma runPool_bounded:
  "runPool ops wp = (acc, out, wp') \<Longrightarrow> length (wp_conns wp) \<le> wp_cap wp \<Longrightarrow>
     wp_cap wp' = wp_cap wp \<and> length (wp_conns wp') \<le> wp_cap wp'"
proof (induction ops arbitrary: wp acc out rule: list.induct)
  case (Cons op ops)
  show ?case
  proof (cases op)
    case (OpRegister conn)
    then show ?thesis using Cons.prems
      by (auto simp: RegisterWorkConn_def split: prod.splits if_splits dest!: Cons.IH)
  next
    case (OpGet sendOk w)
    then show ?thesis using Cons.prems
      by (auto simp: GetWorkConn_def split: prod.splits if_splits list.splits pool_wait.splits dest!: Cons.IH)
  qed
qed simp

section \<open>Properties\<close>

definition demo_pxys :: PxySystem where
  "demo_pxys = snd (registerProxyRun 3 RunOk 0 \<lparr>pc_proxies = Map.empty, pc_portsUsedNum = 2,
       pc_pending = Some \<lparr>px_name = ''ssh'', px_owner = 0, px_usedPortsNum = 2\<rparr>, pc_alive = True\<rparr>
     \<lparr>px_name = ''ssh'', px_owner = 0, px_usedPortsNum = 2\<rparr>
     (snd (registerProxyCheck 3 ''ssh'' 2 0 newPxyControl (setPC 0 newPxyControl newPxySystem))))"

lemma demo_pxys_eq:
  "demo_pxys = \<lparr>ps_controls = [0 \<mapsto> \<lparr>pc_proxies = [''ssh'' \<mapsto> \<lparr>px_name = ''ssh'', px_owner = 0, px_usedPortsNum = 2\<rparr>],
       pc_portsUsedNum = 2, pc_pending = None, pc_alive = True\<rparr>],
     ps_pxys = [''ssh'' \<mapsto> \<lparr>px_name = ''ssh'', px_owner = 0, px_usedPortsNum = 2\<rparr>],
     ps_running = {\<lparr>px_name = ''ssh'', px_owner = 0, px_usedPortsNum = 2\<rparr>}, ps_left = []\<rparr>"
  by (simp add: demo_pxys_def pxy_defs newPxyControl_def newPxySystem_def)

lemma demo_pxys_reachable: "pxy_reachable 3 demo_pxys"
proof -
  let ?s0 = "setPC 0 newPxyControl newPxySystem"
  have "pxy_reachable 3 ?s0"
    by (rule pxy_reachable.step [OF pxy_reachable.init pxy_step.connect]) (simp add: newPxySystem_def)
  moreover have "pxy_step 3 ?s0 (snd (registerProxyCheck 3 ''ssh'' 2 0 newPxyControl ?s0))"
    by (rule pxy_step.check) (simp_all add: setPC_def newPxyControl_def)
  ultimately have 1: "pxy_reachable 3 (snd (registerProxyCheck 3 ''ssh'' 2 0 newPxyControl ?s0))"
    by (rule pxy_reachable.step)
  show ?thesis
    unfolding demo_pxys_def
    by (rule pxy_reachable.step [OF 1 pxy_step.run])
       (simp_all add: pxy_defs newPxyControl_def newPxySystem_def)
qed

text \<open>
  C3: Proxy names are exclusive, whatever the interleaving of the sessions. A name is in use exactly when one
  session has a proxy of that name, and then this is the only session that has one; the proxies that are
  running are exactly those in use, so neither a registration that finds its name taken nor a closed or ended session leaves
  a proxy running. (A proxy whose start fails does not count as running; what such a start may leave behind is \<open>ps_left\<close>.)
\<close>

theorem proxy_names_exclusive:
  assumes "pxy_reachable maxPorts s"
  shows "(ps_pxys s n = Some p \<longleftrightarrow> (\<exists>c pc. ps_controls s c = Some pc \<and> pc_proxies pc n = Some p)) \<and>
    (ps_controls s c = Some pc \<and> ps_controls s d = Some qc \<and> pc_proxies pc n \<noteq> None \<and> pc_proxies qc n \<noteq> None \<longrightarrow> c = d) \<and>
    ps_running s = ran (ps_pxys s)"
proof (intro conjI impI)
  note inv = pxy_reachable_inv [OF assms]
  note D = pxy_invD [OF inv]
  show "ps_pxys s n = Some p \<longleftrightarrow> (\<exists>c pc. ps_controls s c = Some pc \<and> pc_proxies pc n = Some p)"
    using D(3) [of n p] owned_name [OF inv] by blast
  show "ps_running s = ran (ps_pxys s)" by (rule D(4))
  assume "ps_controls s c = Some pc \<and> ps_controls s d = Some qc \<and> pc_proxies pc n \<noteq> None \<and> pc_proxies qc n \<noteq> None"
  then obtain p q where pq: "ps_controls s c = Some pc" "pc_proxies pc n = Some p"
      "ps_controls s d = Some qc" "pc_proxies qc n = Some q" by blast
  then have "p = q" using owned_name [OF inv pq(1,2)] owned_name [OF inv pq(3,4)] by simp
  then show "c = d" using pc_okD(2) [OF D(1) [OF pq(1)] pq(2)] pc_okD(2) [OF D(1) [OF pq(3)] pq(4)] by simp
qed

theorem proxy_names_exclusive_witness:
  "ps_pxys demo_pxys ''ssh'' = Some \<lparr>px_name = ''ssh'', px_owner = 0, px_usedPortsNum = 2\<rparr> \<and>
   ps_running demo_pxys = {\<lparr>px_name = ''ssh'', px_owner = 0, px_usedPortsNum = 2\<rparr>}"
  using proxy_names_exclusive [OF demo_pxys_reachable, of "''ssh''" "\<lparr>px_name = ''ssh'', px_owner = 0, px_usedPortsNum = 2\<rparr>"]
  by (simp add: demo_pxys_eq)

text \<open>
  C10: The limit on ports per client is kept. As long as a session is alive, the number it keeps is the sum of
  the ports of its proxies, together with the one it is about to run, and never exceeds the limit.
\<close>

theorem ports_quota:
  assumes "pxy_reachable maxPorts s" "maxPorts > 0" "ps_controls s c = Some pc" "pc_alive pc"
  shows "pc_portsUsedNum pc = (\<Sum>n \<in> dom (pc_proxies pc). int (px_usedPortsNum (the (pc_proxies pc n)))) +
      (case pc_pending pc of Some p \<Rightarrow> int (px_usedPortsNum p) | None \<Rightarrow> 0) \<and>
    pc_portsUsedNum pc \<le> maxPorts"
  using pxy_invD(2) [OF pxy_reachable_inv [OF assms(1)] assms(3)] assms(2,4)
  by (simp add: quota_ok_def portsOf_def pendingPorts_def split: option.splits)

theorem ports_quota_witness:
  "map_option pc_portsUsedNum (ps_controls demo_pxys 0) = Some 2 \<and> (2::int) \<le> 3"
  using ports_quota [OF demo_pxys_reachable, of 0 "the (ps_controls demo_pxys 0)"] by (simp add: demo_pxys_eq)

text \<open>The session while its proxy is pending.\<close>

definition booked :: "int \<Rightarrow> Proxy \<Rightarrow> PxyControl \<Rightarrow> PxyControl" where
  "booked maxPorts pxy pc = pc\<lparr>pc_portsUsedNum := (if maxPorts > 0 then pc_portsUsedNum pc + int (px_usedPortsNum pxy)
     else pc_portsUsedNum pc), pc_pending := Some pxy\<rparr>"

lemma unbook_booked: "pc_pending pc = None \<Longrightarrow> unbookPorts maxPorts pxy ((booked maxPorts pxy pc)\<lparr>pc_pending := None\<rparr>) = pc"
  by (cases pc) (simp add: booked_def unbookPorts_def)

lemma registerProxyCheck_cases:
  assumes "ps_controls s c = Some pc"
  shows "registerProxyCheck maxPorts name used c pc s =
     (if maxPorts > 0 \<and> pc_portsUsedNum pc + int used > maxPorts then (Inl ExceedMaxPorts, s)
      else if ps_pxys s name \<noteq> None then (Inl AlreadyExists, s)
      else (Inr (), setPC c (booked maxPorts \<lparr>px_name = name, px_owner = c, px_usedPortsNum = used\<rparr> pc) s))"
  using fun_upd_idem [of "ps_controls s" c "Some pc", OF assms] by (cases s) (auto simp: pxy_defs booked_def)

lemma others_keep: "pxy_others maxPorts c s s' \<Longrightarrow> ps_controls s' c = ps_controls s c"
  by (induction rule: pxy_others.induct) auto

lemma others_inv: "pxy_others maxPorts c s s' \<Longrightarrow> pxy_inv maxPorts s \<Longrightarrow> pxy_inv maxPorts s'"
  by (induction rule: pxy_others.induct) (auto intro: pxy_step_inv)

lemma CloseProxy_undo:
  assumes "ps_controls s c = Some (booked maxPorts pxy pc)" "pc_pending pc = None" "pc_proxies pc (px_name pxy) = None"
    and "ps_pxys s (px_name pxy) = None" "pxy \<notin> ps_running s"
    and pc': "pc' = (booked maxPorts pxy pc)\<lparr>pc_pending := None, pc_proxies := (pc_proxies pc)(px_name pxy \<mapsto> pxy)\<rparr>"
  shows "CloseProxy maxPorts (px_name pxy) c pc'
     (setPC c pc' (s\<lparr>ps_running := insert pxy (ps_running s), ps_pxys := (ps_pxys s)(px_name pxy \<mapsto> pxy)\<rparr>)) = setPC c pc s"
proof -
  note same = fun_upd_idem [of "pc_proxies pc" "px_name pxy" None, OF assms(3)]
    fun_upd_idem [of "ps_pxys s" "px_name pxy" None, OF assms(4)]
  show ?thesis
    using same assms(2,5)
    by (cases s, cases pc) (simp add: pc' booked_def CloseProxy_def unbookPorts_def closeProxy_def pxyDel_def setPC_def)
qed

text \<open>
  C19: Registering a proxy is all or nothing, and closing it undoes it, whatever the other sessions do while the proxy is being
  started. A registration of session \<open>c\<close> that fails leaves its session exactly as it was before the call and changes nothing
  that the other sessions have made of the rest, except that a start that failed half way is recorded as having left something
  behind: the call takes no name, leaves no proxy running and gives back the ports it had booked. A name that is taken, even one
  that another session took while the proxy was being started, is the reason given only if it is taken, and a registration
  succeeds only if it is free; then the proxy is running under its name, and \<open>CloseProxy\<close> gives what the other sessions have made of the state, with
  session \<open>c\<close> as before.
\<close>

theorem register_proxy_atomic:
  assumes "pxy_reachable maxPorts s" "ps_controls s c = Some pc" "pc_alive pc" "pc_pending pc = None"
    "RegisterProxy maxPorts out name used c s mid r s'"
  shows "ps_controls mid c = Some (case r of Inl ExceedMaxPorts \<Rightarrow> pc | Inl AlreadyExists \<Rightarrow> pc
        | _ \<Rightarrow> booked maxPorts \<lparr>px_name = name, px_owner = c, px_usedPortsNum = used\<rparr> pc) \<and>
    (case r of
       Inl e \<Rightarrow> s' = (setPC c pc mid)\<lparr>ps_left := (if e = RunFailed \<and> out = RunErr True
           then \<lparr>px_name = name, px_owner = c, px_usedPortsNum = used\<rparr> # ps_left mid else ps_left mid)\<rparr> \<and>
         (e = AlreadyExists \<or> e = NameInUse \<longrightarrow> ps_pxys mid name \<noteq> None)
     | Inr _ \<Rightarrow> out = RunOk \<and> ps_pxys mid name = None \<and>
         (\<exists>pc' pxy. ps_controls s' c = Some pc' \<and> ps_pxys s' name = Some pxy \<and> pxy \<in> ps_running s' \<and>
            CloseProxy maxPorts name c pc' s' = setPC c pc mid))"
  using assms(5)
proof cases
  case (refused pc2 e)
  then show ?thesis
    using assms(2) fun_upd_idem [of "ps_controls s" c "Some pc", OF assms(2)]
    by (cases s) (auto simp: registerProxyCheck_cases setPC_def split: if_splits)
next
  case (ran pc2 s1 pc1 pxy)
  let ?pxy = "\<lparr>px_name = name, px_owner = c, px_usedPortsNum = used\<rparr>"
  have chk: "s1 = setPC c (booked maxPorts ?pxy pc) s" using ran assms(2) by (auto simp: registerProxyCheck_cases split: if_splits)
  have pc1: "pc1 = booked maxPorts ?pxy pc" using ran others_keep [OF ran(3)] chk by (simp add: setPC_def)
  then have pxy: "pxy = ?pxy" using ran by (simp add: booked_def)
  have "pxy_inv maxPorts s1"
    using check_inv [OF pxy_reachable_inv [OF assms(1)] assms(2-4), of name used] ran assms(2) by simp
  then have inv: "pxy_inv maxPorts mid" by (rule others_inv [OF ran(3)])
  have nr: "?pxy \<notin> ps_running mid" using pending_not_running [OF inv ran(4,5)] pxy by simp
  note cases = registerProxyRun_cases [OF nr, of maxPorts, where c = c and pc = pc1]
  have none: "pc_proxies pc name = None" using pxy_invD(1) [OF inv ran(4)] ran(5) pc1 pxy by (auto simp: pc_ok_def booked_def)
  show ?thesis
  proof (cases "out = RunOk \<and> ps_pxys mid name = None")
    case True
    then show ?thesis
      using ran(4,6) cases(3) CloseProxy_undo [OF _ assms(4) _ _ nr refl, where maxPorts = maxPorts and c = c] none
      by (auto simp: pc1 pxy setPC_def booked_def)
  next
    case False
    then show ?thesis
      using ran(4,6) cases(1,2) unbook_booked [OF assms(4), of maxPorts ?pxy]
      by (cases out) (auto simp: pc1 pxy setPC_def)
  qed
qed

text \<open>Two sessions that register the same name at the same time: session 0 takes it while session 1 starts its proxy.\<close>

definition demo_two :: PxySystem where
  "demo_two = setPC 1 newPxyControl (setPC 0 newPxyControl newPxySystem)"

abbreviation demo_pxy :: "nat \<Rightarrow> Proxy" where
  "demo_pxy c \<equiv> \<lparr>px_name = ''ssh'', px_owner = c, px_usedPortsNum = 1\<rparr>"

definition demo_mid :: PxySystem where
  "demo_mid = \<lparr>ps_controls = [0 \<mapsto> newPxyControl\<lparr>pc_portsUsedNum := 1, pc_proxies := [''ssh'' \<mapsto> demo_pxy 0]\<rparr>,
       1 \<mapsto> booked 3 (demo_pxy 1) newPxyControl],
     ps_pxys = [''ssh'' \<mapsto> demo_pxy 0], ps_running = {demo_pxy 0}, ps_left = []\<rparr>"

lemma demo_two_reachable: "pxy_reachable 3 demo_two"
proof -
  have "pxy_reachable 3 (setPC 0 newPxyControl newPxySystem)"
    by (rule pxy_reachable.step [OF pxy_reachable.init pxy_step.connect]) (simp add: newPxySystem_def)
  then show ?thesis
    unfolding demo_two_def by (rule pxy_reachable.step [OF _ pxy_step.connect]) (simp add: newPxySystem_def setPC_def)
qed

lemma demo_two_race: "RegisterProxy 3 RunOk ''ssh'' 1 1 demo_two demo_mid (Inl NameInUse) (setPC 1 newPxyControl demo_mid)"
proof (rule RegisterProxy.ran)
  let ?s1 = "setPC 1 (booked 3 (demo_pxy 1) newPxyControl) demo_two"
  let ?s2 = "setPC 0 (booked 3 (demo_pxy 0) newPxyControl) ?s1"
  have 1: "ps_controls demo_two 1 = Some newPxyControl" by (simp add: demo_two_def setPC_def)
  then show "ps_controls demo_two 1 = Some newPxyControl" .
  show "registerProxyCheck 3 ''ssh'' 1 1 newPxyControl demo_two = (Inr (), ?s1)"
    unfolding registerProxyCheck_cases [OF 1] by (simp add: newPxyControl_def demo_two_def setPC_def newPxySystem_def)
  have 0: "ps_controls ?s1 0 = Some newPxyControl" by (simp add: demo_two_def setPC_def)
  have "pxy_step 3 ?s1 (snd (registerProxyCheck 3 ''ssh'' 1 0 newPxyControl ?s1))"
    by (rule pxy_step.check [OF 0]) (simp_all add: newPxyControl_def)
  moreover have "snd (registerProxyCheck 3 ''ssh'' 1 0 newPxyControl ?s1) = ?s2"
    unfolding registerProxyCheck_cases [OF 0] by (simp add: newPxyControl_def demo_two_def setPC_def newPxySystem_def)
  ultimately have a: "pxy_others 3 1 ?s1 ?s2"
    by (intro pxy_others.other [OF pxy_others.none]) (simp_all add: setPC_def)
  have "pxy_step 3 ?s2 (snd (registerProxyRun 3 RunOk 0 (booked 3 (demo_pxy 0) newPxyControl) (demo_pxy 0) ?s2))"
    by (rule pxy_step.run) (simp_all add: setPC_def booked_def newPxyControl_def)
  moreover have "snd (registerProxyRun 3 RunOk 0 (booked 3 (demo_pxy 0) newPxyControl) (demo_pxy 0) ?s2) = demo_mid"
    by (simp add: pxy_defs booked_def demo_two_def demo_mid_def newPxySystem_def newPxyControl_def fun_eq_iff)
  ultimately show "pxy_others 3 1 ?s1 demo_mid"
    by (intro pxy_others.other [OF a]) (simp_all add: setPC_def demo_mid_def)
  show "ps_controls demo_mid 1 = Some (booked 3 (demo_pxy 1) newPxyControl)" by (simp add: demo_mid_def)
  show "pc_pending (booked 3 (demo_pxy 1) newPxyControl) = Some (demo_pxy 1)" by (simp add: booked_def)
  show "registerProxyRun 3 RunOk 1 (booked 3 (demo_pxy 1) newPxyControl) (demo_pxy 1) demo_mid =
      (Inl NameInUse, setPC 1 newPxyControl demo_mid)"
    by (subst registerProxyRun_cases(2))
       (simp_all add: unbook_booked newPxyControl_def, simp_all add: demo_mid_def)
qed

theorem register_proxy_atomic_witness:
  "RegisterProxy 3 RunOk ''ssh'' 1 1 demo_two demo_mid (Inl NameInUse) (setPC 1 newPxyControl demo_mid) \<and>
   setPC 1 newPxyControl demo_mid = (setPC 1 newPxyControl demo_mid)\<lparr>ps_left := ps_left demo_mid\<rparr> \<and>
   ps_pxys demo_mid ''ssh'' \<noteq> None"
  using register_proxy_atomic [OF demo_two_reachable _ _ _ demo_two_race, of newPxyControl] demo_two_race
  by (simp add: demo_two_def setPC_def newPxyControl_def)

text \<open>
  The pool hands out work connections first in, first out, each exactly once. Over any sequence of calls
  on a new pool, the connections handed out followed by those still pooled are the accepted ones in order,
  and the pool never holds more than the pool count plus ten.
\<close>

theorem work_conns_fifo:
  "runPool ops (newWorkPool poolCount) = (accepted, out, wp) \<Longrightarrow>
     accepted = out @ wp_conns wp \<and> length (wp_conns wp) \<le> poolCount + 10"
  using runPool_fifo [of ops "newWorkPool poolCount" accepted out wp]
    runPool_bounded [of ops "newWorkPool poolCount" accepted out wp]
  by (simp add: newWorkPool_def)

theorem work_conns_fifo_witness:
  "runPool [OpRegister 7, OpRegister 8, OpGet True TimesOut] (newWorkPool 1) =
     ([7, 8], [7], \<lparr>wp_conns = [8], wp_cap = 11, wp_closed = False\<rparr>) \<and> [7, 8] = [7] @ [8 :: nat]"
  using work_conns_fifo [of "[OpRegister 7, OpRegister 8, OpGet True TimesOut]" 1 "[7, 8]" "[7]"
      "\<lparr>wp_conns = [8], wp_cap = 11, wp_closed = False\<rparr>"]
  by (simp add: newWorkPool_def RegisterWorkConn_def GetWorkConn_def)

text \<open>
  A work connection that arrives after the session has ended is lost. Once the worker has closed the
  pool, \<open>RegisterWorkConn\<close> reports success for every connection, yet the connection is neither in the pool
  nor will any later call hand it out: the panic of the send is recovered and the result stays nil.
\<close>

theorem late_work_conn_lost:
  "RegisterWorkConn conn (snd (closeWorkPool wp)) = (Inr (), snd (closeWorkPool wp)) \<and>
   GetWorkConn sendOk w (snd (RegisterWorkConn conn (snd (closeWorkPool wp)))) =
     (Inl ErrCtlClosed, snd (closeWorkPool wp))"
  by (simp add: RegisterWorkConn_def closeWorkPool_def GetWorkConn_def)

end
