(* ===== verification/Listener_Group.thy ===== *)
theory Listener_Group
  imports Frp_Prelude
begin

text \<open>
  Load-balancing groups of listeners (\<open>server/group/base.go\<close>, \<open>registry.go\<close>, \<open>listener.go\<close>): proxies that
  name the same group share one real listener, which is opened by the first of them and closed with the last.
  The three kinds of listener groups differ in the settings that have to agree and in the real listener, so
  these are arguments here; \<open>Tcp_Group\<close> and \<open>Mux_Group\<close> supply those of the sources.

  Groups are objects that callers keep pointers to: \<open>Listen\<close> first looks the group up or creates it, and only
  then locks it, so the group may have been emptied and dropped in between. Groups live in a heap, and the
  registry maps names to addresses.
\<close>

section \<open>The registry of groups\<close>

type_synonym gid = nat

definition getOrCreate :: "string \<Rightarrow> gid \<Rightarrow> (string \<rightharpoonup> gid) \<Rightarrow> gid \<times> (string \<rightharpoonup> gid)" where
  "getOrCreate k new groups = (case groups k of Some g \<Rightarrow> (g, groups) | None \<Rightarrow> (new, groups(k \<mapsto> new)))"

definition isCurrent :: "string \<Rightarrow> (gid \<Rightarrow> bool) \<Rightarrow> (string \<rightharpoonup> gid) \<Rightarrow> bool" where
  "isCurrent k matchFn groups = (case groups k of Some g \<Rightarrow> matchFn g | None \<Rightarrow> False)"

definition removeIf :: "string \<Rightarrow> (gid \<Rightarrow> bool) \<Rightarrow> (string \<rightharpoonup> gid) \<Rightarrow> (string \<rightharpoonup> gid)" where
  "removeIf k fn groups = (case groups k of Some g \<Rightarrow> if fn g then groups(k := None) else groups | None \<Rightarrow> groups)"

lemma isCurrent_eq [simp]: "isCurrent k (\<lambda>cur. cur = g) groups \<longleftrightarrow> groups k = Some g"
  by (auto simp: isCurrent_def split: option.splits)

lemma removeIf_eq [simp]: "removeIf k (\<lambda>cur. cur = g) groups = (if groups k = Some g then groups(k := None) else groups)"
  by (auto simp: removeIf_def split: option.splits)

section \<open>Groups and listeners\<close>

datatype 'e group_error = ErrGroupAuthFailed | ErrGroupParamsInvalid | ErrListenerClosed | ErrGroupDifferentPort
  | ErrProxyRepeated | errGroupStale | Underlying 'e

text \<open>\<open>gr_cfg\<close> are the settings of the first listener, \<open>gr_real\<close> the real listener; both are unset in a new group.\<close>

record ('c, 'h) Group =
  gr_group :: string
  gr_groupKey :: string
  gr_cfg :: "'c option"
  gr_real :: "'h option"
  gr_lns :: "nat list"
  gr_acceptClosed :: bool

text \<open>
  \<open>gc_lns\<close> tells for every listener its group and whether it has been closed; \<open>gc_res\<close> is what the real
  listeners are taken from; \<open>gc_panic\<close> records the closing of a closed channel.
\<close>

record ('c, 'h, 'r) GroupCtl =
  gc_groups :: "string \<rightharpoonup> gid"
  gc_heap :: "gid \<rightharpoonup> ('c, 'h) Group"
  gc_next :: gid
  gc_lns :: "nat \<rightharpoonup> gid \<times> bool"
  gc_nextLn :: nat
  gc_res :: 'r
  gc_panic :: bool

definition newGroup :: "('c, 'h) Group" where
  "newGroup = \<lparr>gr_group = [], gr_groupKey = [], gr_cfg = None, gr_real = None, gr_lns = [], gr_acceptClosed = False\<rparr>"

definition newGroupCtl :: "'r \<Rightarrow> ('c, 'h, 'r) GroupCtl" where
  "newGroupCtl r = \<lparr>gc_groups = Map.empty, gc_heap = Map.empty, gc_next = 0, gc_lns = Map.empty, gc_nextLn = 0,
     gc_res = r, gc_panic = False\<rparr>"

definition initBase :: "string \<Rightarrow> string \<Rightarrow> 'c \<Rightarrow> 'h \<Rightarrow> ('c, 'h) Group \<Rightarrow> ('c, 'h) Group" where
  "initBase grp groupKey cfg h g = g\<lparr>gr_group := grp, gr_groupKey := groupKey, gr_cfg := Some cfg, gr_real := Some h,
     gr_acceptClosed := False\<rparr>"

definition newListener :: "gid \<Rightarrow> ('c, 'h) Group \<Rightarrow> ('c, 'h, 'r) GroupCtl \<Rightarrow> nat \<times> ('c, 'h, 'r) GroupCtl" where
  "newListener gid g s =
     (let ln = gc_nextLn s
      in (ln, s\<lparr>gc_heap := (gc_heap s)(gid \<mapsto> g\<lparr>gr_lns := gr_lns g @ [ln]\<rparr>),
               gc_lns := (gc_lns s)(ln \<mapsto> (gid, False)), gc_nextLn := ln + 1\<rparr>))"

text \<open>The lookup at the start of \<open>Listen\<close>.\<close>

definition lookupGroup :: "string \<Rightarrow> ('c, 'h, 'r) GroupCtl \<Rightarrow> gid \<times> ('c, 'h, 'r) GroupCtl" where
  "lookupGroup grp s =
     (case getOrCreate grp (gc_next s) (gc_groups s) of
        (gid, groups) \<Rightarrow>
          if gc_groups s grp = None
          then (gid, s\<lparr>gc_groups := groups, gc_heap := (gc_heap s)(gid \<mapsto> newGroup), gc_next := gc_next s + 1\<rparr>)
          else (gid, s))"

text \<open>\<open>Listen\<close> of the group at \<open>gid\<close>, under its lock. \<open>openReal\<close> opens the real listener and \<open>joinErr\<close> compares
  the settings of the group with those of a further listener.\<close>

definition groupListen ::
  "('env \<Rightarrow> string \<Rightarrow> 'c \<Rightarrow> 'r \<Rightarrow> ('e, 'h) result \<times> 'r) \<Rightarrow> ('c \<Rightarrow> 'c \<Rightarrow> 'e group_error option) \<Rightarrow>
     'env \<Rightarrow> string \<Rightarrow> string \<Rightarrow> string \<Rightarrow> 'c \<Rightarrow> gid \<Rightarrow> ('c, 'h, 'r) GroupCtl \<Rightarrow>
     ('e group_error, nat) result \<times> ('c, 'h, 'r) GroupCtl" where
  "groupListen openReal joinErr e name grp groupKey cfg gid s =
     (case gc_heap s gid of None \<Rightarrow> (Inl errGroupStale, s)
      | Some g \<Rightarrow>
          if \<not> isCurrent grp (\<lambda>cur. cur = gid) (gc_groups s) then (Inl errGroupStale, s)
          else if gr_lns g = [] then
            (case openReal e name cfg (gc_res s) of
               (Inl err, r) \<Rightarrow> (Inl (Underlying err), s\<lparr>gc_res := r\<rparr>)
             | (Inr h, r) \<Rightarrow>
                 (case newListener gid (initBase grp groupKey cfg h g) (s\<lparr>gc_res := r\<rparr>) of (ln, s') \<Rightarrow> (Inr ln, s')))
          else if gr_group g \<noteq> grp then (Inl ErrGroupParamsInvalid, s)
          else (case Option.bind (gr_cfg g) (\<lambda>c0. joinErr c0 cfg) of
                  Some err \<Rightarrow> (Inl err, s)
                | None \<Rightarrow>
                    if gr_groupKey g \<noteq> groupKey then (Inl ErrGroupAuthFailed, s)
                    else (case newListener gid g s of (ln, s') \<Rightarrow> (Inr ln, s'))))"

text \<open>\<open>closeListener\<close> with the cleanup function of the group.\<close>

definition closeListener ::
  "(go_time \<Rightarrow> 'h \<Rightarrow> 'r \<Rightarrow> 'r) \<Rightarrow> go_time \<Rightarrow> nat \<Rightarrow> gid \<Rightarrow> ('c, 'h) Group \<Rightarrow> ('c, 'h, 'r) GroupCtl \<Rightarrow> ('c, 'h, 'r) GroupCtl" where
  "closeListener closeReal now ln gid g s =
     (let g1 = g\<lparr>gr_lns := remove1 ln (gr_lns g)\<rparr>
      in if gr_lns g1 \<noteq> [] then s\<lparr>gc_heap := (gc_heap s)(gid \<mapsto> g1)\<rparr>
         else if gr_acceptClosed g1 then s\<lparr>gc_panic := True\<rparr>
         else s\<lparr>gc_heap := (gc_heap s)(gid \<mapsto> g1\<lparr>gr_acceptClosed := True\<rparr>),
                gc_res := (case gr_real g1 of Some h \<Rightarrow> closeReal now h (gc_res s) | None \<Rightarrow> gc_res s),
                gc_groups := removeIf (gr_group g1) (\<lambda>cur. cur = gid) (gc_groups s)\<rparr>)"

text \<open>\<open>Close\<close> of a listener, which does its work once.\<close>

definition lnClose ::
  "(go_time \<Rightarrow> 'h \<Rightarrow> 'r \<Rightarrow> 'r) \<Rightarrow> go_time \<Rightarrow> nat \<Rightarrow> ('c, 'h, 'r) GroupCtl \<Rightarrow> ('c, 'h, 'r) GroupCtl" where
  "lnClose closeReal now ln s =
     (case gc_lns s ln of
        Some (gid, False) \<Rightarrow>
          let s1 = s\<lparr>gc_lns := (gc_lns s)(ln \<mapsto> (gid, True))\<rparr>
          in (case gc_heap s gid of Some g \<Rightarrow> closeListener closeReal now ln gid g s1 | None \<Rightarrow> s1)
      | _ \<Rightarrow> s)"

text \<open>
  \<open>Listen\<close> of the controller: look up, listen, and start again if the group turned out to be stale. The list
  tells what other goroutines do between the lookup and the lock in each round; once it is used up
  nothing comes in between.
\<close>

fun ctlListen ::
  "('env \<Rightarrow> string \<Rightarrow> 'c \<Rightarrow> 'r \<Rightarrow> ('e, 'h) result \<times> 'r) \<Rightarrow> ('c \<Rightarrow> 'c \<Rightarrow> 'e group_error option) \<Rightarrow>
     (('c, 'h, 'r) GroupCtl \<Rightarrow> ('c, 'h, 'r) GroupCtl) list \<Rightarrow>
     'env \<Rightarrow> string \<Rightarrow> string \<Rightarrow> string \<Rightarrow> 'c \<Rightarrow> ('c, 'h, 'r) GroupCtl \<Rightarrow>
     ('e group_error, nat) result \<times> ('c, 'h, 'r) GroupCtl" where
  "ctlListen openReal joinErr [] e name grp groupKey cfg s =
     (case lookupGroup grp s of (gid, s1) \<Rightarrow> groupListen openReal joinErr e name grp groupKey cfg gid s1)"
| "ctlListen openReal joinErr (f # fs) e name grp groupKey cfg s =
     (case lookupGroup grp s of (gid, s1) \<Rightarrow>
        case groupListen openReal joinErr e name grp groupKey cfg gid (f s1) of
          (Inl errGroupStale, s2) \<Rightarrow> ctlListen openReal joinErr fs e name grp groupKey cfg s2
        | res \<Rightarrow> res)"

section \<open>Steps\<close>

text \<open>A group that has listeners holds its real listener; \<open>key\<close> identifies what a real listener occupies.\<close>

definition heldKeys :: "('h \<Rightarrow> 'k) \<Rightarrow> ('c, 'h, 'r) GroupCtl \<Rightarrow> 'k set" where
  "heldKeys key s = {key h | gid g h. gc_heap s gid = Some g \<and> gr_lns g \<noteq> [] \<and> gr_real g = Some h}"

text \<open>Besides the calls on groups there are other users of the resource, who leave alone what groups hold.\<close>

inductive grp_step for openReal and closeReal and joinErr and key and held and good and env_ok where
  lookup: "grp_step openReal closeReal joinErr key held good env_ok s (snd (lookupGroup grp s))"
| listen: "env_ok e (gc_res s) \<Longrightarrow> grp_step openReal closeReal joinErr key held good env_ok s
    (snd (groupListen openReal joinErr e name grp groupKey cfg gid s))"
| close: "grp_step openReal closeReal joinErr key held good env_ok s (lnClose closeReal now ln s)"
| other: "good r \<Longrightarrow> (\<And>k. k \<in> heldKeys key s \<Longrightarrow> held r k) \<Longrightarrow>
    grp_step openReal closeReal joinErr key held good env_ok s (s\<lparr>gc_res := r\<rparr>)"

inductive grp_reachable for openReal and closeReal and joinErr and key and held and good and env_ok where
  init: "good r \<Longrightarrow> grp_reachable openReal closeReal joinErr key held good env_ok (newGroupCtl r)"
| step: "grp_reachable openReal closeReal joinErr key held good env_ok s \<Longrightarrow>
    grp_step openReal closeReal joinErr key held good env_ok s s' \<Longrightarrow>
    grp_reachable openReal closeReal joinErr key held good env_ok s'"

section \<open>Invariant\<close>

definition live :: "('c, 'h, 'r) GroupCtl \<Rightarrow> gid \<Rightarrow> ('c, 'h) Group \<Rightarrow> bool" where
  "live s gid g \<longleftrightarrow> gc_heap s gid = Some g \<and> gr_lns g \<noteq> []"

definition group_ok :: "('h \<Rightarrow> 'k) \<Rightarrow> ('r \<Rightarrow> 'k \<Rightarrow> bool) \<Rightarrow> ('c, 'h, 'r) GroupCtl \<Rightarrow> gid \<Rightarrow> ('c, 'h) Group \<Rightarrow> bool" where
  "group_ok key held s gid g \<longleftrightarrow> gc_groups s (gr_group g) = Some gid \<and> \<not> gr_acceptClosed g \<and>
     gr_cfg g \<noteq> None \<and> (\<exists>h. gr_real g = Some h \<and> held (gc_res s) (key h))"

definition registry_ok :: "('c, 'h, 'r) GroupCtl \<Rightarrow> bool" where
  "registry_ok s \<longleftrightarrow> (\<forall>k gid. gc_groups s k = Some gid \<longrightarrow> gc_heap s gid \<noteq> None) \<and>
     inj_on (gc_groups s) (dom (gc_groups s)) \<and> (\<forall>gid. gc_heap s gid \<noteq> None \<longrightarrow> gid < gc_next s)"

definition listeners_ok :: "('c, 'h, 'r) GroupCtl \<Rightarrow> bool" where
  "listeners_ok s \<longleftrightarrow>
     (\<forall>ln gid. gc_lns s ln = Some (gid, False) \<longleftrightarrow> (\<exists>g. gc_heap s gid = Some g \<and> ln \<in> set (gr_lns g))) \<and>
     (\<forall>gid g. gc_heap s gid = Some g \<longrightarrow> distinct (gr_lns g)) \<and> (\<forall>ln. gc_lns s ln \<noteq> None \<longrightarrow> ln < gc_nextLn s)"

definition keys_ok :: "('h \<Rightarrow> 'k) \<Rightarrow> ('c, 'h, 'r) GroupCtl \<Rightarrow> bool" where
  "keys_ok key s \<longleftrightarrow> (\<forall>a b g g'. live s a g \<and> live s b g' \<and> map_option key (gr_real g) = map_option key (gr_real g') \<longrightarrow> a = b)"

definition grp_inv ::
  "('h \<Rightarrow> 'k) \<Rightarrow> ('r \<Rightarrow> 'k \<Rightarrow> bool) \<Rightarrow> ('r \<Rightarrow> bool) \<Rightarrow> ('c, 'h, 'r) GroupCtl \<Rightarrow> bool" where
  "grp_inv key held good s \<longleftrightarrow> (\<forall>gid g. live s gid g \<longrightarrow> group_ok key held s gid g) \<and>
     registry_ok s \<and> listeners_ok s \<and> keys_ok key s \<and> good (gc_res s) \<and> \<not> gc_panic s"

lemma grp_invD:
  assumes "grp_inv key held good s"
  shows "live s gid g \<Longrightarrow> group_ok key held s gid g" "registry_ok s" "listeners_ok s" "keys_ok key s"
    "good (gc_res s)" "\<not> gc_panic s"
  using assms by (auto simp: grp_inv_def)

lemma keys_okI:
  "(\<And>a b g g'. live s a g \<Longrightarrow> live s b g' \<Longrightarrow> map_option key (gr_real g) = map_option key (gr_real g') \<Longrightarrow> a = b) \<Longrightarrow>
     keys_ok key s"
  by (auto simp: keys_ok_def)

lemma keys_okD:
  "keys_ok key s \<Longrightarrow> live s a g \<Longrightarrow> live s b g' \<Longrightarrow> map_option key (gr_real g) = map_option key (gr_real g') \<Longrightarrow> a = b"
  by (auto simp: keys_ok_def)

lemma liveI: "gc_heap s gid = Some g \<Longrightarrow> gr_lns g \<noteq> [] \<Longrightarrow> live s gid g"
  by (simp add: live_def)

text \<open>Another user of the resource.\<close>

lemma grp_inv_res:
  assumes "grp_inv key held good s" "good r" "\<And>k. k \<in> heldKeys key s \<Longrightarrow> held r k"
  shows "grp_inv key held good (s\<lparr>gc_res := r\<rparr>)"
proof -
  have "group_ok key held (s\<lparr>gc_res := r\<rparr>) gid g" if g: "live s gid g" for gid g
  proof -
    obtain h where h: "gr_real g = Some h" using grp_invD(1) [OF assms(1) g] by (auto simp: group_ok_def)
    then have "key h \<in> heldKeys key s" using g by (auto simp: heldKeys_def live_def)
    then show ?thesis using assms(3) h grp_invD(1) [OF assms(1) g] by (simp add: group_ok_def)
  qed
  then show ?thesis
    using assms(1,2) by (simp add: grp_inv_def live_def registry_ok_def listeners_ok_def keys_ok_def)
qed

lemma lookup_eqs:
  "gc_groups s grp = Some gid \<Longrightarrow> lookupGroup grp s = (gid, s)"
  "gc_groups s grp = None \<Longrightarrow> lookupGroup grp s = (gc_next s, s\<lparr>gc_groups := (gc_groups s)(grp \<mapsto> gc_next s),
     gc_heap := (gc_heap s)(gc_next s \<mapsto> newGroup), gc_next := gc_next s + 1\<rparr>)"
  by (simp_all add: lookupGroup_def getOrCreate_def)

lemma registry_okD:
  assumes "registry_ok s"
  shows "gc_groups s k = Some gid \<Longrightarrow> gc_heap s gid \<noteq> None" "gc_heap s gid = Some g \<Longrightarrow> gid < gc_next s"
    "gc_groups s k = Some gid \<Longrightarrow> gc_groups s k' = Some gid \<Longrightarrow> k = k'"
  using assms by (auto simp: registry_ok_def inj_on_def dom_def)

lemma registry_okI:
  assumes "\<And>k gid. gc_groups s k = Some gid \<Longrightarrow> gc_heap s gid \<noteq> None"
    "\<And>gid g. gc_heap s gid = Some g \<Longrightarrow> gid < gc_next s"
    "\<And>k k' gid. gc_groups s k = Some gid \<Longrightarrow> gc_groups s k' = Some gid \<Longrightarrow> k = k'"
  shows "registry_ok s"
  unfolding registry_ok_def using assms by (auto intro!: inj_onI)

lemma listeners_okD:
  assumes "listeners_ok s"
  shows "gc_lns s ln = Some (gid, False) \<longleftrightarrow> (\<exists>g. gc_heap s gid = Some g \<and> ln \<in> set (gr_lns g))"
    "gc_heap s gid = Some g \<Longrightarrow> distinct (gr_lns g)" "gc_lns s ln = Some x \<Longrightarrow> ln < gc_nextLn s"
  using assms by (auto simp: listeners_ok_def)

lemma lookup_inv:
  assumes inv: "grp_inv key held good s"
  shows "grp_inv key held good (snd (lookupGroup grp s))"
proof (cases "gc_groups s grp")
  case (Some gid)
  then show ?thesis using inv by (simp add: lookup_eqs)
next
  case None
  note R = registry_okD [OF grp_invD(2) [OF inv]] and L = listeners_okD [OF grp_invD(3) [OF inv]]
  let ?s = "snd (lookupGroup grp s)"
  have fresh: "gc_heap s (gc_next s) = None" using R(2) by (cases "gc_heap s (gc_next s)") auto
  then have nogrp: "gc_groups s k \<noteq> Some (gc_next s)" for k using R(1) by blast
  have live: "live ?s gid g \<longleftrightarrow> live s gid g" for gid g
    using fresh by (auto simp: live_def lookup_eqs None newGroup_def)
  have "group_ok key held ?s gid g" if "live s gid g" for gid g
    using grp_invD(1) [OF inv that] None by (auto simp: group_ok_def lookup_eqs)
  moreover have "registry_ok ?s"
    using R nogrp by (intro registry_okI) (auto simp: lookup_eqs None split: if_splits intro: less_SucI)
  moreover have "listeners_ok ?s"
    using L fresh by (auto simp: listeners_ok_def lookup_eqs None newGroup_def)
  moreover have "keys_ok key ?s"
    using grp_invD(4) [OF inv] by (simp add: keys_ok_def live)
  ultimately show ?thesis
    using inv by (auto simp: grp_inv_def live) (simp_all add: lookup_eqs None)
qed

text \<open>A listener is added to a group that is current and has its real listener.\<close>

lemma newListener_inv:
  assumes inv: "grp_inv key held good s" and cur: "gc_groups s (gr_group g) = Some gid"
    and g0: "gc_heap s gid = Some g0" "gr_lns g0 = gr_lns g"
    and g: "\<not> gr_acceptClosed g" "gr_cfg g \<noteq> None" "gr_real g = Some h" "held (gc_res s) (key h)"
    and uniq: "\<And>b g' h'. live s b g' \<Longrightarrow> b \<noteq> gid \<Longrightarrow> gr_real g' = Some h' \<Longrightarrow> key h' \<noteq> key h"
  shows "grp_inv key held good (snd (newListener gid g s))"
proof -
  note R = registry_okD [OF grp_invD(2) [OF inv]] and L = listeners_okD [OF grp_invD(3) [OF inv]]
  let ?s = "snd (newListener gid g s)" and ?g = "g\<lparr>gr_lns := gr_lns g @ [gc_nextLn s]\<rparr>"
  have eqs: "gc_groups ?s = gc_groups s" "gc_heap ?s = (gc_heap s)(gid \<mapsto> ?g)" "gc_next ?s = gc_next s"
      "gc_lns ?s = (gc_lns s)(gc_nextLn s \<mapsto> (gid, False))" "gc_nextLn ?s = Suc (gc_nextLn s)" "gc_res ?s = gc_res s"
      "gc_panic ?s = gc_panic s"
    by (simp_all add: newListener_def Let_def)
  have live: "live ?s b g' \<longleftrightarrow> (if b = gid then g' = ?g else live s b g')" for b g'
    by (auto simp: live_def eqs)
  have "group_ok key held ?s b g'" if "live ?s b g'" for b g'
    using that grp_invD(1) [OF inv, of b g'] cur g by (auto simp: live group_ok_def eqs split: if_splits)
  moreover have "registry_ok ?s"
    using R g0(1) by (intro registry_okI) (auto simp: eqs split: if_splits)
  moreover have "listeners_ok ?s"
  proof -
    have new: "gc_lns s (gc_nextLn s) = None" using L(3) by (cases "gc_lns s (gc_nextLn s)") auto
    then have notin: "gc_nextLn s \<notin> set (gr_lns g')" if "gc_heap s b = Some g'" for b g'
      using L(1) [of "gc_nextLn s" b] that by auto
    have "distinct (gr_lns ?g)" using L(2) [OF g0(1)] notin [OF g0(1)] g0(2) by simp
    then show ?thesis
      using L g0 new notin by (auto simp: listeners_ok_def eqs intro: less_SucI)
  qed
  moreover have "keys_ok key ?s"
    unfolding keys_ok_def
  proof (intro allI impI, elim conjE)
    fix a b g1 g2 assume l: "live ?s a g1" "live ?s b g2" and eq: "map_option key (gr_real g1) = map_option key (gr_real g2)"
    have real: "\<exists>h'. gr_real g' = Some h'" if "live s c g'" for c g'
      using grp_invD(1) [OF inv that] by (auto simp: group_ok_def)
    show "a = b"
    proof (cases "a = gid"; cases "b = gid")
      assume "a \<noteq> gid" "b \<noteq> gid"
      then show ?thesis using l eq grp_invD(4) [OF inv] by (auto simp: live keys_ok_def)
    qed (use l eq g(3) real uniq in \<open>fastforce simp: live\<close>)+
  qed
  ultimately show ?thesis using inv by (simp add: grp_inv_def eqs)
qed

lemma listeners_ok_remove:
  assumes "listeners_ok s" and ln: "gc_lns s ln = Some (gid, False)" and g: "gc_heap s gid = Some g"
    and s': "gc_heap s' = (gc_heap s)(gid \<mapsto> g')" "gr_lns g' = remove1 ln (gr_lns g)"
      "gc_lns s' = (gc_lns s)(ln \<mapsto> (gid, True))" "gc_nextLn s' = gc_nextLn s"
  shows "listeners_ok s'"
proof -
  note L = listeners_okD [OF assms(1)]
  have dist: "distinct (gr_lns g)" by (rule L(2) [OF g])
  have "gc_lns s' l = Some (b, False) \<longleftrightarrow> (\<exists>k. gc_heap s' b = Some k \<and> l \<in> set (gr_lns k))" for l b
    using L(1) [of l b] ln g dist by (cases "l = ln"; cases "b = gid") (auto simp: s')
  moreover have "distinct (gr_lns k)" if "gc_heap s' b = Some k" for b k
    using that L(2) [of b k] distinct_remove1 [OF dist, of ln] s'(2) by (auto simp: s'(1) split: if_splits)
  moreover have "l < gc_nextLn s'" if "gc_lns s' l \<noteq> None" for l
    using that L(3) ln by (auto simp: s' split: if_splits)
  ultimately show ?thesis by (simp add: listeners_ok_def)
qed

text \<open>What \<open>Listen\<close> of a group does to the state, by the branch it takes.\<close>

lemma groupListen_cases:
  obtains (same) err where "groupListen openReal joinErr e name grp groupKey cfg gid s = (Inl err, s)"
  | (failed) err r where "groupListen openReal joinErr e name grp groupKey cfg gid s = (Inl (Underlying err), s\<lparr>gc_res := r\<rparr>)"
      "openReal e name cfg (gc_res s) = (Inl err, r)"
  | (first) g h r where "gc_heap s gid = Some g" "gc_groups s grp = Some gid" "gr_lns g = []"
      "openReal e name cfg (gc_res s) = (Inr h, r)"
      "groupListen openReal joinErr e name grp groupKey cfg gid s =
         map_prod Inr id (newListener gid (initBase grp groupKey cfg h g) (s\<lparr>gc_res := r\<rparr>))"
  | (join) g where "gc_heap s gid = Some g" "gc_groups s grp = Some gid" "gr_lns g \<noteq> []" "gr_group g = grp"
      "Option.bind (gr_cfg g) (\<lambda>c0. joinErr c0 cfg) = None" "gr_groupKey g = groupKey"
      "groupListen openReal joinErr e name grp groupKey cfg gid s = map_prod Inr id (newListener gid g s)"
proof -
  let ?res = "groupListen openReal joinErr e name grp groupKey cfg gid s"
  show thesis
  proof (cases "gc_heap s gid")
    case None
    then show thesis by (intro same) (simp add: groupListen_def)
  next
    case (Some g)
    consider "gc_groups s grp \<noteq> Some gid" | "gc_groups s grp = Some gid" "gr_lns g = []"
      | "gc_groups s grp = Some gid" "gr_lns g \<noteq> []" by blast
    then show thesis
    proof cases
      case 1
      then show thesis using Some by (intro same) (simp add: groupListen_def)
    next
      case 2
      obtain x r where op: "openReal e name cfg (gc_res s) = (x, r)" by fastforce
      show thesis
      proof (cases x)
        case (Inl err)
        show thesis by (rule failed) (simp_all add: groupListen_def 2 Some op Inl)
      next
        case (Inr h)
        show thesis by (rule first) (simp_all add: groupListen_def 2 Some op Inr split_beta map_prod_def)
      qed
    next
      case 3
      show thesis
      proof (cases "Option.bind (gr_cfg g) (\<lambda>c0. joinErr c0 cfg) = None \<and> gr_group g = grp \<and> gr_groupKey g = groupKey")
        case True
        show thesis by (rule join) (simp_all add: groupListen_def 3 Some True split_beta map_prod_def)
      next
        case False
        then have "\<exists>err. ?res = (Inl err, s)"
          by (cases "Option.bind (gr_cfg g) (\<lambda>c0. joinErr c0 cfg)") (simp_all add: groupListen_def 3 Some)
        then show thesis using same by blast
      qed
    qed
  qed
qed

section \<open>The contract of the real listeners\<close>

text \<open>
  What a group relies on: opening a real listener takes something nobody holds, a failed opening takes
  nothing, and closing it gives back what it holds and nothing else.
\<close>

locale listener_resource =
  fixes openReal :: "'env \<Rightarrow> string \<Rightarrow> 'c \<Rightarrow> 'r \<Rightarrow> ('e, 'h) result \<times> 'r"
    and closeReal :: "go_time \<Rightarrow> 'h \<Rightarrow> 'r \<Rightarrow> 'r"
    and joinErr :: "'c \<Rightarrow> 'c \<Rightarrow> 'e group_error option"
    and key :: "'h \<Rightarrow> 'k" and held :: "'r \<Rightarrow> 'k \<Rightarrow> bool" and good :: "'r \<Rightarrow> bool" and env_ok :: "'env \<Rightarrow> 'r \<Rightarrow> bool"
  assumes open_good: "good r \<Longrightarrow> env_ok e r \<Longrightarrow> openReal e n c r = (x, r') \<Longrightarrow> good r'"
    and close_good: "good r \<Longrightarrow> good (closeReal t h r)"
    and open_ok: "good r \<Longrightarrow> env_ok e r \<Longrightarrow> openReal e n c r = (Inr h, r') \<Longrightarrow>
      \<not> held r (key h) \<and> held r' = (held r)(key h := True)"
    and open_fail: "good r \<Longrightarrow> env_ok e r \<Longrightarrow> openReal e n c r = (Inl err, r') \<Longrightarrow> held r' = held r"
    and close_held: "good r \<Longrightarrow> held (closeReal t h r) = (held r)(key h := False)"
begin

lemma heldKeys_held:
  assumes "grp_inv key held good s" "k \<in> heldKeys key s"
  shows "held (gc_res s) k"
proof -
  obtain gid g h where "live s gid g" "gr_real g = Some h" "k = key h"
    using assms(2) by (auto simp: heldKeys_def live_def)
  then show ?thesis using grp_invD(1) [OF assms(1), of gid g] by (auto simp: group_ok_def)
qed

lemma listen_inv:
  assumes inv: "grp_inv key held good s" and env: "env_ok e (gc_res s)"
  shows "grp_inv key held good (snd (groupListen openReal joinErr e name grp groupKey cfg gid s))"
proof (cases rule: groupListen_cases [of openReal joinErr e name grp groupKey cfg gid s])
  case (same err)
  then show ?thesis using inv by simp
next
  case (failed err r)
  note good = grp_invD(5) [OF inv]
  have "grp_inv key held good (s\<lparr>gc_res := r\<rparr>)"
    using open_good [OF good env failed(2)] open_fail [OF good env failed(2)] heldKeys_held [OF inv]
    by (intro grp_inv_res [OF inv]) auto
  then show ?thesis using failed by simp
next
  case (first g h r)
  note good = grp_invD(5) [OF inv]
  note op = open_ok [OF good env first(4)]
  have inv': "grp_inv key held good (s\<lparr>gc_res := r\<rparr>)"
    using open_good [OF good env first(4)] op heldKeys_held [OF inv] by (intro grp_inv_res [OF inv]) auto
  have uniq: "key h' \<noteq> key h" if "live (s\<lparr>gc_res := r\<rparr>) b g'" "gr_real g' = Some h'" for b g' h'
    using that op grp_invD(1) [OF inv, of b g'] by (auto simp: live_def group_ok_def)
  show ?thesis
    using first op uniq
    by (simp, intro newListener_inv [OF inv', where h = h]) (auto simp: initBase_def)
next
  case (join g)
  have ok: "group_ok key held s gid g" using grp_invD(1) [OF inv, of gid g] join by (simp add: live_def)
  then obtain h where h: "gr_real g = Some h" "held (gc_res s) (key h)" by (auto simp: group_ok_def)
  have "key h' \<noteq> key h" if "live s b g'" "b \<noteq> gid" "gr_real g' = Some h'" for b g' h'
    using that join h grp_invD(4) [OF inv] by (fastforce simp: keys_ok_def live_def)
  then show ?thesis
    using join ok h by (simp, intro newListener_inv [OF inv, where h = h]) (auto simp: group_ok_def)
qed

lemma close_inv:
  fixes s :: "('c, 'h, 'r) GroupCtl"
  assumes inv: "grp_inv key held good s"
  shows "grp_inv key held good (lnClose closeReal now ln s)"
proof (cases "\<exists>gid. gc_lns s ln = Some (gid, False)")
  case False
  then show ?thesis using inv by (auto simp: lnClose_def split: option.splits bool.splits)
next
  case True
  note R = registry_okD [OF grp_invD(2) [OF inv]] and L = listeners_okD [OF grp_invD(3) [OF inv]]
  obtain gid g where ln: "gc_lns s ln = Some (gid, False)" and g: "gc_heap s gid = Some g" "ln \<in> set (gr_lns g)"
    using True L(1) by blast
  have gl: "live s gid g" using g by (auto simp: live_def)
  then obtain h where ok: "gc_groups s (gr_group g) = Some gid" "\<not> gr_acceptClosed g" "gr_real g = Some h" "held (gc_res s) (key h)"
    using grp_invD(1) [OF inv gl] by (auto simp: group_ok_def)
  let ?s = "lnClose closeReal now ln s" and ?lns = "remove1 ln (gr_lns g)"
  note listeners = listeners_ok_remove [OF grp_invD(3) [OF inv] ln g(1)]
  show ?thesis
  proof (cases "?lns = []")
    case False
    let ?g = "g\<lparr>gr_lns := ?lns\<rparr>"
    have eqs: "gc_lns ?s = (gc_lns s)(ln \<mapsto> (gid, True))" "gc_heap ?s = (gc_heap s)(gid \<mapsto> ?g)"
        "gc_res ?s = gc_res s" "gc_groups ?s = gc_groups s" "gc_next ?s = gc_next s" "gc_nextLn ?s = gc_nextLn s"
        "gc_panic ?s = gc_panic s"
      using False ln g by (simp_all add: lnClose_def closeListener_def)
    have live: "live ?s b g' \<longleftrightarrow> (if b = gid then g' = ?g else live s b g')" for b g'
      using False by (auto simp: live_def eqs)
    have "group_ok key held ?s b g'" if "live ?s b g'" for b g'
      using that grp_invD(1) [OF inv, of b g'] grp_invD(1) [OF inv gl] by (auto simp: live group_ok_def eqs split: if_splits)
    moreover have "registry_ok ?s" using R g(1) by (intro registry_okI) (auto simp: eqs split: if_splits)
    moreover have "listeners_ok ?s" by (rule listeners [where g' = ?g]) (auto simp: eqs)
    moreover have "\<exists>k. live s b k \<and> gr_real k = gr_real g'" if "live ?s b g'" for b g'
      using that gl by (auto simp: live split: if_splits)
    then have "keys_ok key ?s"
      by (intro keys_okI) (metis keys_okD [OF grp_invD(4) [OF inv]])
    ultimately show ?thesis using inv by (simp add: grp_inv_def eqs)
  next
    case True
    let ?g = "g\<lparr>gr_lns := [], gr_acceptClosed := True\<rparr>"
    have eqs: "gc_lns ?s = (gc_lns s)(ln \<mapsto> (gid, True))" "gc_heap ?s = (gc_heap s)(gid \<mapsto> ?g)"
        "gc_res ?s = closeReal now h (gc_res s)" "gc_groups ?s = (gc_groups s)(gr_group g := None)"
        "gc_next ?s = gc_next s" "gc_nextLn ?s = gc_nextLn s" "gc_panic ?s = gc_panic s"
      using True ln g ok by (simp_all add: lnClose_def closeListener_def)
    have live: "live ?s b g' \<longleftrightarrow> b \<noteq> gid \<and> live s b g'" for b g'
      by (auto simp: live_def eqs)
    have "group_ok key held ?s b g'" if b: "live ?s b g'" for b g'
    proof -
      have b': "live s b g'" "b \<noteq> gid" using b by (auto simp: live)
      then have okb: "group_ok key held s b g'" using grp_invD(1) [OF inv] by blast
      then have "gr_group g' \<noteq> gr_group g" using ok(1) b'(2) by (auto simp: group_ok_def)
      moreover have "map_option key (gr_real g') \<noteq> Some (key h)"
        using grp_invD(4) [OF inv] b' gl ok(3) by (fastforce simp: keys_ok_def)
      ultimately show ?thesis
        using okb close_held [OF grp_invD(5) [OF inv]] by (auto simp: group_ok_def eqs)
    qed
    moreover have "registry_ok ?s" using R g(1) by (intro registry_okI) (auto simp: eqs split: if_splits)
    moreover have "listeners_ok ?s" by (rule listeners [where g' = ?g]) (use True in \<open>auto simp: eqs\<close>)
    moreover have "keys_ok key ?s"
      using grp_invD(4) [OF inv] by (auto simp: keys_ok_def live)
    ultimately show ?thesis using inv close_good by (simp add: grp_inv_def eqs)
  qed
qed

lemma grp_reachable_inv:
  assumes "grp_reachable openReal closeReal joinErr key held good env_ok s"
  shows "grp_inv key held good s"
  using assms
proof (induction rule: grp_reachable.induct)
  case (init r)
  then show ?case
    by (simp add: grp_inv_def newGroupCtl_def live_def registry_ok_def listeners_ok_def keys_ok_def)
next
  case (step s s')
  from step.hyps(2) step.IH show ?case
    by cases (auto intro: lookup_inv listen_inv close_inv grp_inv_res)
qed

text \<open>A group that has listeners is current, its real listener is held, and by no other group.\<close>

lemma live_group:
  assumes inv: "grp_inv key held good s" and g: "gc_heap s gid = Some g" "gr_lns g \<noteq> []"
  obtains h where "gr_real g = Some h" "held (gc_res s) (key h)" "gc_groups s (gr_group g) = Some gid"
    "\<And>b g' h'. gc_heap s b = Some g' \<Longrightarrow> gr_lns g' \<noteq> [] \<Longrightarrow> gr_real g' = Some h' \<Longrightarrow> key h' = key h \<Longrightarrow> b = gid"
proof -
  have gl: "live s gid g" using g by (simp add: live_def)
  then obtain h where h: "gr_real g = Some h" "held (gc_res s) (key h)" "gc_groups s (gr_group g) = Some gid"
    using grp_invD(1) [OF inv] by (auto simp: group_ok_def)
  have "b = gid" if b: "gc_heap s b = Some g'" "gr_lns g' \<noteq> []" "gr_real g' = Some h'" "key h' = key h" for b g' h'
    by (rule keys_okD [OF grp_invD(4) [OF inv] liveI [OF b(1,2)] gl]) (simp add: b h)
  with h show thesis by (rule that)
qed

text \<open>Closing the last listener gives the real listener back and drops the group; closing another one keeps both.\<close>

lemma close_last:
  assumes inv: "grp_inv key held good s" and g: "gc_heap s gid = Some g" "gr_lns g = [ln]"
  obtains h where "gr_real g = Some h" "held (gc_res (lnClose closeReal now ln s)) = (held (gc_res s))(key h := False)"
    "gc_groups (lnClose closeReal now ln s) = (gc_groups s)(gr_group g := None)"
proof -
  have ln: "gc_lns s ln = Some (gid, False)" using listeners_okD(1) [OF grp_invD(3) [OF inv]] g by auto
  have "gr_lns g \<noteq> []" using g(2) by simp
  then obtain h where h: "gr_real g = Some h" "gc_groups s (gr_group g) = Some gid" "\<not> gr_acceptClosed g"
    using grp_invD(1) [OF inv, of gid g] g by (auto simp: live_def group_ok_def)
  then show thesis
    using that ln g close_held [OF grp_invD(5) [OF inv]] by (simp add: lnClose_def closeListener_def)
qed

lemma close_not_last:
  assumes "gc_lns s ln = Some (gid, False)" "gc_heap s gid = Some g" "remove1 ln (gr_lns g) \<noteq> []"
  shows "gc_res (lnClose closeReal now ln s) = gc_res s" "gc_groups (lnClose closeReal now ln s) = gc_groups s"
  using assms by (simp_all add: lnClose_def closeListener_def)

text \<open>The retry loop of the controller gives an answer that is never \<open>errGroupStale\<close>.\<close>

lemma ctlListen_answers:
  assumes "grp_inv key held good s" "\<And>f s. f \<in> set fs \<Longrightarrow> grp_inv key held good s \<Longrightarrow> grp_inv key held good (f s)"
    and "\<And>c c'. joinErr c c' \<noteq> Some errGroupStale"
  shows "fst (ctlListen openReal joinErr fs e name grp groupKey cfg s) \<noteq> Inl errGroupStale"
  using assms(1,2)
proof (induction fs arbitrary: s)
  case Nil
  obtain gid s1 where l: "lookupGroup grp s = (gid, s1)" by fastforce
  then have "grp_inv key held good s1" using lookup_inv [OF Nil(1), of grp] by simp
  moreover have "gc_groups s1 grp = Some gid"
    using l by (cases "gc_groups s grp") (auto simp: lookup_eqs)
  ultimately have "gc_groups s1 grp = Some gid" "\<exists>g. gc_heap s1 gid = Some g"
    using registry_okD(1) [OF grp_invD(2)] by blast+
  then show ?case
    using l assms(3) by (auto simp: groupListen_def newListener_def Let_def bind_eq_Some_conv split: prod.splits sum.splits option.splits)
next
  case (Cons f fs)
  obtain gid s1 where l: "lookupGroup grp s = (gid, s1)" by fastforce
  then have inv: "grp_inv key held good (f s1)" using lookup_inv [OF Cons(2), of grp] Cons(3) by simp
  show ?case
  proof (cases "fst (groupListen openReal joinErr e name grp groupKey cfg gid (f s1)) = Inl errGroupStale")
    case True
    then have "groupListen openReal joinErr e name grp groupKey cfg gid (f s1) = (Inl errGroupStale, f s1)"
      by (cases rule: groupListen_cases [of openReal joinErr e name grp groupKey cfg gid "f s1"]) auto
    then show ?thesis using Cons.IH [OF inv] Cons(3) l by simp
  next
    case False
    then show ?thesis using l by (auto split: prod.splits sum.splits group_error.splits)
  qed
qed

end

end
