(* ===== verification/Ports.thy ===== *)
theory Ports
  imports Frp_Prelude
begin

text \<open>
  The port manager of frps, \<open>server/ports/ports.go\<close>: which public ports are free, which are used
  by a proxy, and which are reserved for the proxy that used them last.

  A \<open>*PortCtx\<close> is shared between \<open>usedPorts\<close> and \<open>reservedPorts\<close>, and \<open>Release\<close> writes through the
  former what \<open>cleanReservedPortsOnce\<close> reads through the latter, so the contexts live in an explicit
  store (\<open>pm_ctxs\<close>) and both maps hold addresses into it. What the operating system answers when
  \<open>isPortAvailable\<close> tries to bind a port is the argument \<open>avail\<close>; the order in which Go ranges over
  the map of free ports is the argument \<open>order\<close>; the clock reading is the argument \<open>now\<close>.
\<close>

section \<open>Data\<close>

definition MinPort :: int where "MinPort = 1"
definition MaxPort :: int where "MaxPort = 65535"
definition MaxPortReservedDuration :: duration where "MaxPortReservedDuration = 24 * Hour"

datatype port_error = ErrPortAlreadyUsed | ErrPortNotAllowed | ErrPortUnAvailable | ErrNoAvailablePort

record PortCtx =
  pc_ProxyName :: string
  pc_Port :: int
  pc_Closed :: bool
  pc_UpdateTime :: go_time

record PortsRange =
  pr_Start :: int
  pr_End :: int
  pr_Single :: int

record Manager =
  pm_reservedPorts :: "string \<rightharpoonup> nat"
  pm_usedPorts :: "int \<rightharpoonup> nat"
  pm_freePorts :: "int set"
  pm_ctxs :: "nat \<rightharpoonup> PortCtx"
  pm_next :: nat

section \<open>Operations\<close>

definition rangePorts :: "PortsRange \<Rightarrow> int set" where
  "rangePorts pair = (if pr_Single pair > 0 then {pr_Single pair} else {pr_Start pair .. pr_End pair})"

fun addRanges :: "PortsRange list \<Rightarrow> int set \<Rightarrow> int set" where
  "addRanges [] free = free"
| "addRanges (pair # pairs) free = addRanges pairs (free \<union> rangePorts pair)"

definition allowedPorts :: "PortsRange list \<Rightarrow> int set" where
  "allowedPorts allowPorts =
     (if length allowPorts > 0 then addRanges allowPorts {} else {MinPort .. MaxPort})"

definition newManagerWithClock :: "PortsRange list \<Rightarrow> Manager" where
  "newManagerWithClock allowPorts =
     \<lparr>pm_reservedPorts = Map.empty, pm_usedPorts = Map.empty, pm_freePorts = allowedPorts allowPorts,
      pm_ctxs = Map.empty, pm_next = 0\<rparr>"

definition markPortAcquiredLocked :: "string \<Rightarrow> int \<Rightarrow> nat \<Rightarrow> Manager \<Rightarrow> Manager" where
  "markPortAcquiredLocked name port ctx pm =
     pm\<lparr>pm_usedPorts := (pm_usedPorts pm)(port \<mapsto> ctx),
        pm_reservedPorts := (pm_reservedPorts pm)(name \<mapsto> ctx),
        pm_freePorts := pm_freePorts pm - {port}\<rparr>"

text \<open>The deferred function of \<open>Acquire\<close>: on success the context learns its port.\<close>

definition setCtxPort :: "nat \<Rightarrow> int \<Rightarrow> Manager \<Rightarrow> Manager" where
  "setCtxPort a port pm =
     (case pm_ctxs pm a of None \<Rightarrow> pm
      | Some c \<Rightarrow> pm\<lparr>pm_ctxs := (pm_ctxs pm)(a \<mapsto> c\<lparr>pc_Port := port\<rparr>)\<rparr>)"

definition newCtx :: "string \<Rightarrow> go_time \<Rightarrow> Manager \<Rightarrow> Manager" where
  "newCtx name now pm =
     pm\<lparr>pm_ctxs := (pm_ctxs pm)(pm_next pm \<mapsto>
            \<lparr>pc_ProxyName = name, pc_Port = 0, pc_Closed = False, pc_UpdateTime = now\<rparr>),
        pm_next := Suc (pm_next pm)\<rparr>"

definition maxTryTimes :: nat where "maxTryTimes = 5"

text \<open>The loop over the free ports: at most \<open>maxTryTimes\<close> of them are probed.\<close>

fun tryFreePorts :: "(int \<Rightarrow> bool) \<Rightarrow> nat \<Rightarrow> int list \<Rightarrow> int option" where
  "tryFreePorts avail count [] = None"
| "tryFreePorts avail count (k # ks) =
     (if Suc count > maxTryTimes then None
      else if avail k then Some k
      else tryFreePorts avail (Suc count) ks)"

definition reservedPort :: "(int \<Rightarrow> bool) \<Rightarrow> string \<Rightarrow> Manager \<Rightarrow> int option" where
  "reservedPort avail name pm =
     (case pm_reservedPorts pm name of None \<Rightarrow> None
      | Some a \<Rightarrow> (case pm_ctxs pm a of None \<Rightarrow> None
          | Some ctx \<Rightarrow> if avail (pc_Port ctx) then Some (pc_Port ctx) else None))"

text \<open>Marking a port and running the deferred function of a successful return.\<close>

definition grantPort :: "string \<Rightarrow> int \<Rightarrow> nat \<Rightarrow> Manager \<Rightarrow> (port_error, int) result \<times> Manager" where
  "grantPort name port a pm = (Inr port, setCtxPort a port (markPortAcquiredLocked name port a pm))"

definition acquireRandom ::
  "(int \<Rightarrow> bool) \<Rightarrow> int list \<Rightarrow> string \<Rightarrow> nat \<Rightarrow> Manager \<Rightarrow> (port_error, int) result \<times> Manager" where
  "acquireRandom avail order name a pm =
     (case tryFreePorts avail 0 order of
        None \<Rightarrow> (Inl ErrNoAvailablePort, pm)
      | Some k \<Rightarrow>
          if k = 0 then (Inl ErrNoAvailablePort, markPortAcquiredLocked name k a pm)
          else grantPort name k a pm)"

definition acquireSpecified ::
  "(int \<Rightarrow> bool) \<Rightarrow> string \<Rightarrow> int \<Rightarrow> nat \<Rightarrow> Manager \<Rightarrow> (port_error, int) result \<times> Manager" where
  "acquireSpecified avail name port a pm =
     (if port \<in> pm_freePorts pm then
        if avail port then grantPort name port a pm else (Inl ErrPortUnAvailable, pm)
      else if pm_usedPorts pm port \<noteq> None then (Inl ErrPortAlreadyUsed, pm)
      else (Inl ErrPortNotAllowed, pm))"

definition Acquire ::
  "(int \<Rightarrow> bool) \<Rightarrow> int list \<Rightarrow> go_time \<Rightarrow> string \<Rightarrow> int \<Rightarrow> Manager \<Rightarrow> (port_error, int) result \<times> Manager" where
  "Acquire avail order now name port pm =
     (let a = pm_next pm; pm0 = newCtx name now pm
      in if port = 0 then
           case reservedPort avail name pm of
             Some p \<Rightarrow> grantPort name p a pm0
           | None \<Rightarrow> acquireRandom avail order name a pm0
         else acquireSpecified avail name port a pm0)"

definition Release :: "go_time \<Rightarrow> int \<Rightarrow> Manager \<Rightarrow> Manager" where
  "Release now port pm =
     (case pm_usedPorts pm port of None \<Rightarrow> pm
      | Some a \<Rightarrow>
          pm\<lparr>pm_freePorts := insert port (pm_freePorts pm),
             pm_usedPorts := (pm_usedPorts pm)(port := None),
             pm_ctxs := (pm_ctxs pm)(a := map_option (\<lambda>c. c\<lparr>pc_Closed := True, pc_UpdateTime := now\<rparr>)
                                            (pm_ctxs pm a))\<rparr>)"

definition expiredCtx :: "go_time \<Rightarrow> PortCtx \<Rightarrow> bool" where
  "expiredCtx now c \<longleftrightarrow> pc_Closed c \<and> now - pc_UpdateTime c > MaxPortReservedDuration"

definition cleanReservedPortsOnce :: "go_time \<Rightarrow> Manager \<Rightarrow> Manager" where
  "cleanReservedPortsOnce now pm =
     pm\<lparr>pm_reservedPorts := (\<lambda>name.
          case pm_reservedPorts pm name of None \<Rightarrow> None
          | Some a \<Rightarrow> (case pm_ctxs pm a of
                None \<Rightarrow> Some a
              | Some c \<Rightarrow> if expiredCtx now c then None else Some a))\<rparr>"

section \<open>Invariant\<close>

text \<open>
  The manager owns a fixed set of ports. At every moment each of them is free or used and not
  both, a used port points to an open context that carries its number, and a reservation names a
  port of that set.
\<close>

definition used_ok :: "Manager \<Rightarrow> bool" where
  "used_ok pm \<longleftrightarrow> (\<forall>p a. pm_usedPorts pm p = Some a \<longrightarrow>
     a < pm_next pm \<and> (\<exists>c. pm_ctxs pm a = Some c \<and> pc_Port c = p \<and> \<not> pc_Closed c))"

definition reserved_ok :: "int set \<Rightarrow> Manager \<Rightarrow> bool" where
  "reserved_ok allowed pm \<longleftrightarrow> (\<forall>n a. pm_reservedPorts pm n = Some a \<longrightarrow>
     a < pm_next pm \<and> (\<exists>c. pm_ctxs pm a = Some c \<and> pc_Port c \<in> allowed))"

definition pm_inv :: "int set \<Rightarrow> Manager \<Rightarrow> bool" where
  "pm_inv allowed pm \<longleftrightarrow>
     pm_freePorts pm \<inter> dom (pm_usedPorts pm) = {} \<and>
     pm_freePorts pm \<union> dom (pm_usedPorts pm) = allowed \<and>
     used_ok pm \<and> reserved_ok allowed pm"

lemmas pm_ok_defs = pm_inv_def used_ok_def reserved_ok_def

lemma used_okD:
  "used_ok pm \<Longrightarrow> pm_usedPorts pm p = Some a \<Longrightarrow>
     a < pm_next pm \<and> (\<exists>c. pm_ctxs pm a = Some c \<and> pc_Port c = p \<and> \<not> pc_Closed c)"
  by (simp add: used_ok_def)

lemma reserved_okD:
  "reserved_ok S pm \<Longrightarrow> pm_reservedPorts pm n = Some a \<Longrightarrow>
     a < pm_next pm \<and> (\<exists>c. pm_ctxs pm a = Some c \<and> pc_Port c \<in> S)"
  by (simp add: reserved_ok_def)

lemma used_ok_inj:
  "used_ok pm \<Longrightarrow> pm_usedPorts pm p = Some a \<Longrightarrow> pm_usedPorts pm q = Some a \<Longrightarrow> p = q"
  using used_okD [of pm p a] used_okD [of pm q a] by auto

lemma pm_invD:
  assumes "pm_inv S pm"
  shows "used_ok pm" and "reserved_ok S pm" and "pm_freePorts pm \<inter> dom (pm_usedPorts pm) = {}"
    and "S = pm_freePorts pm \<union> dom (pm_usedPorts pm)"
  using assms by (auto simp: pm_inv_def)

lemma pm_inv_new: "pm_inv (allowedPorts ps) (newManagerWithClock ps)"
  by (simp add: pm_ok_defs newManagerWithClock_def)

lemma pm_inv_newCtx: "pm_inv S pm \<Longrightarrow> pm_inv S (newCtx name now pm)"
  by (fastforce simp: pm_ok_defs newCtx_def)

text \<open>A grant keeps the invariant when the address is fresh and the port is one of the manager's.\<close>

definition fresh_addr :: "nat \<Rightarrow> Manager \<Rightarrow> bool" where
  "fresh_addr a pm \<longleftrightarrow> a < pm_next pm \<and> a \<notin> ran (pm_usedPorts pm) \<and> a \<notin> ran (pm_reservedPorts pm) \<and>
     (\<exists>c. pm_ctxs pm a = Some c \<and> pc_Port c = 0 \<and> \<not> pc_Closed c)"

lemma fresh_addr_newCtx: "pm_inv S pm \<Longrightarrow> fresh_addr (pm_next pm) (newCtx name now pm)"
  by (auto simp: fresh_addr_def newCtx_def pm_ok_defs ran_def)

lemma setCtxPort_simps [simp]:
  "pm_usedPorts (setCtxPort a p pm) = pm_usedPorts pm"
  "pm_reservedPorts (setCtxPort a p pm) = pm_reservedPorts pm"
  "pm_freePorts (setCtxPort a p pm) = pm_freePorts pm"
  "pm_next (setCtxPort a p pm) = pm_next pm"
  "pm_ctxs (setCtxPort a p pm) = (pm_ctxs pm)(a := map_option (\<lambda>c. c\<lparr>pc_Port := p\<rparr>) (pm_ctxs pm a))"
  by (auto simp: setCtxPort_def split: option.splits)

lemma mark_simps [simp]:
  "pm_usedPorts (markPortAcquiredLocked n p a pm) = (pm_usedPorts pm)(p \<mapsto> a)"
  "pm_reservedPorts (markPortAcquiredLocked n p a pm) = (pm_reservedPorts pm)(n \<mapsto> a)"
  "pm_freePorts (markPortAcquiredLocked n p a pm) = pm_freePorts pm - {p}"
  "pm_next (markPortAcquiredLocked n p a pm) = pm_next pm"
  "pm_ctxs (markPortAcquiredLocked n p a pm) = pm_ctxs pm"
  by (simp_all add: markPortAcquiredLocked_def)

lemma newCtx_simps [simp]:
  "pm_usedPorts (newCtx n t pm) = pm_usedPorts pm"
  "pm_reservedPorts (newCtx n t pm) = pm_reservedPorts pm"
  "pm_freePorts (newCtx n t pm) = pm_freePorts pm"
  by (simp_all add: newCtx_def)

lemma pm_inv_mark:
  assumes inv: "pm_inv S pm" and p: "p \<in> S" and a: "fresh_addr a pm"
    and c: "pm_ctxs pm' = (pm_ctxs pm)(a := map_option (\<lambda>c. c\<lparr>pc_Port := p\<rparr>) (pm_ctxs pm a))"
    and u: "pm_usedPorts pm' = (pm_usedPorts pm)(p \<mapsto> a)"
    and r: "pm_reservedPorts pm' = (pm_reservedPorts pm)(n \<mapsto> a)"
    and f: "pm_freePorts pm' = pm_freePorts pm - {p}" and x: "pm_next pm' = pm_next pm"
  shows "pm_inv S pm'"
proof -
  have "used_ok pm'"
    using inv a unfolding used_ok_def c u x pm_inv_def
    by (auto simp: fresh_addr_def ran_def used_ok_def split: if_splits)
  moreover have "reserved_ok S pm'"
    using inv a p unfolding reserved_ok_def c r x pm_inv_def
    by (auto simp: fresh_addr_def ran_def reserved_ok_def split: if_splits)
  moreover have "pm_freePorts pm' \<inter> dom (pm_usedPorts pm') = {}"
    and "pm_freePorts pm' \<union> dom (pm_usedPorts pm') = S"
    using inv p by (auto simp: pm_inv_def f u)
  ultimately show ?thesis by (simp add: pm_inv_def)
qed

lemma grantPort_simps [simp]:
  "fst (grantPort n p a pm) = Inr p"
  "pm_usedPorts (snd (grantPort n p a pm)) = (pm_usedPorts pm)(p \<mapsto> a)"
  "pm_reservedPorts (snd (grantPort n p a pm)) = (pm_reservedPorts pm)(n \<mapsto> a)"
  "pm_freePorts (snd (grantPort n p a pm)) = pm_freePorts pm - {p}"
  "pm_next (snd (grantPort n p a pm)) = pm_next pm"
  "pm_ctxs (snd (grantPort n p a pm)) =
     (pm_ctxs pm)(a := map_option (\<lambda>c. c\<lparr>pc_Port := p\<rparr>) (pm_ctxs pm a))"
  by (simp_all add: grantPort_def)

lemma pm_inv_grantPort:
  "pm_inv S pm \<Longrightarrow> p \<in> S \<Longrightarrow> fresh_addr a pm \<Longrightarrow> pm_inv S (snd (grantPort n p a pm))"
  by (rule pm_inv_mark) simp_all

lemma pm_inv_mark_zero:
  assumes "pm_inv S pm" "0 \<in> S" "fresh_addr a pm"
  shows "pm_inv S (markPortAcquiredLocked n 0 a pm)"
proof (rule pm_inv_mark [OF assms])
  from assms(3) show "pm_ctxs (markPortAcquiredLocked n 0 a pm) =
      (pm_ctxs pm)(a := map_option (\<lambda>c. c\<lparr>pc_Port := 0\<rparr>) (pm_ctxs pm a))"
    by (auto simp: fresh_addr_def fun_eq_iff)
qed simp_all

lemma tryFreePorts_Some: "tryFreePorts avail n ks = Some k \<Longrightarrow> k \<in> set ks \<and> avail k"
  by (induction avail n ks rule: tryFreePorts.induct) (auto split: if_splits)

lemma tryFreePorts_None:
  "tryFreePorts avail n ks = None \<longleftrightarrow> (\<forall>k \<in> set (take (maxTryTimes - n) ks). \<not> avail k)"
proof (induction avail n ks rule: tryFreePorts.induct)
  case (2 avail n k ks)
  show ?case
  proof (cases "Suc n > maxTryTimes")
    case False
    then have "maxTryTimes - n = Suc (maxTryTimes - Suc n)" by simp
    with 2 False show ?thesis by auto
  qed simp
qed simp

lemma reservedPort_Some:
  "reservedPort avail n pm = Some p \<longleftrightarrow>
     (\<exists>a c. pm_reservedPorts pm n = Some a \<and> pm_ctxs pm a = Some c \<and> pc_Port c = p \<and> avail p)"
  by (auto simp: reservedPort_def split: option.splits)

lemma reservedPort_in: "pm_inv S pm \<Longrightarrow> reservedPort avail n pm = Some p \<Longrightarrow> p \<in> S \<and> avail p"
  by (auto simp: reservedPort_Some dest!: pm_invD(2) dest: reserved_okD)

lemma Acquire_inv:
  assumes inv: "pm_inv S pm" and ord: "set order = pm_freePorts pm"
  shows "pm_inv S (snd (Acquire avail order now name port pm))"
proof -
  let ?a = "pm_next pm" and ?pm = "newCtx name now pm"
  from inv have inv': "pm_inv S ?pm" by (rule pm_inv_newCtx)
  from inv have a: "fresh_addr ?a ?pm" by (rule fresh_addr_newCtx)
  from inv have sub: "pm_freePorts pm \<subseteq> S" by (auto simp: pm_inv_def)
  have "pm_inv S (snd (acquireRandom avail order name ?a ?pm))"
    using inv' a sub ord unfolding acquireRandom_def
    by (auto split: option.splits intro: pm_inv_grantPort pm_inv_mark_zero dest!: tryFreePorts_Some)
  moreover have "pm_inv S (snd (acquireSpecified avail name port ?a ?pm))"
    using inv' a sub by (auto simp: acquireSpecified_def intro: pm_inv_grantPort)
  moreover have "reservedPort avail name pm = Some p \<Longrightarrow> pm_inv S (snd (grantPort name p ?a ?pm))" for p
    using inv inv' a by (blast intro: pm_inv_grantPort dest: reservedPort_in)
  ultimately show ?thesis
    by (auto simp: Acquire_def Let_def split: option.splits)
qed

lemma Release_simps:
  assumes "pm_usedPorts pm port = Some a"
  shows "pm_usedPorts (Release now port pm) = (pm_usedPorts pm)(port := None)"
    and "pm_reservedPorts (Release now port pm) = pm_reservedPorts pm"
    and "pm_freePorts (Release now port pm) = insert port (pm_freePorts pm)"
    and "pm_next (Release now port pm) = pm_next pm"
    and "pm_ctxs (Release now port pm) = (pm_ctxs pm)(a := map_option
           (\<lambda>c. c\<lparr>pc_Closed := True, pc_UpdateTime := now\<rparr>) (pm_ctxs pm a))"
  using assms by (simp_all add: Release_def)

lemma Release_used_ok:
  assumes ok: "used_ok pm" and a: "pm_usedPorts pm port = Some a"
  shows "used_ok (Release now port pm)"
  unfolding used_ok_def Release_simps [OF a]
proof (intro allI impI)
  fix p b assume "((pm_usedPorts pm)(port := None)) p = Some b"
  then have b: "pm_usedPorts pm p = Some b" and "p \<noteq> port" by (auto split: if_splits)
  with ok a have "b \<noteq> a" by (blast dest: used_ok_inj)
  with used_okD [OF ok b] show "b < pm_next pm \<and> (\<exists>c. ((pm_ctxs pm)(a := map_option
      (\<lambda>c. c\<lparr>pc_Closed := True, pc_UpdateTime := now\<rparr>) (pm_ctxs pm a))) b = Some c \<and>
      pc_Port c = p \<and> \<not> pc_Closed c)"
    by simp
qed

lemma Release_reserved_ok:
  assumes ok: "reserved_ok S pm" and a: "pm_usedPorts pm port = Some a"
  shows "reserved_ok S (Release now port pm)"
  unfolding reserved_ok_def Release_simps [OF a]
proof (intro allI impI)
  fix n b assume "pm_reservedPorts pm n = Some b"
  with reserved_okD [OF ok] obtain c where "b < pm_next pm" "pm_ctxs pm b = Some c" "pc_Port c \<in> S"
    by blast
  then show "b < pm_next pm \<and> (\<exists>c. ((pm_ctxs pm)(a := map_option
      (\<lambda>c. c\<lparr>pc_Closed := True, pc_UpdateTime := now\<rparr>) (pm_ctxs pm a))) b = Some c \<and> pc_Port c \<in> S)"
    by (cases "b = a") simp_all
qed

lemma Release_inv:
  assumes inv: "pm_inv S pm"
  shows "pm_inv S (Release now port pm)"
proof (cases "pm_usedPorts pm port")
  case (Some a)
  with inv show ?thesis
    unfolding pm_inv_def
    by (auto simp: Release_simps Release_used_ok Release_reserved_ok)
qed (use inv in \<open>simp add: Release_def\<close>)

lemma clean_simps [simp]:
  "pm_usedPorts (cleanReservedPortsOnce t pm) = pm_usedPorts pm"
  "pm_freePorts (cleanReservedPortsOnce t pm) = pm_freePorts pm"
  "pm_ctxs (cleanReservedPortsOnce t pm) = pm_ctxs pm"
  "pm_next (cleanReservedPortsOnce t pm) = pm_next pm"
  by (simp_all add: cleanReservedPortsOnce_def)

lemma clean_reserved:
  "pm_reservedPorts (cleanReservedPortsOnce t pm) n = Some a \<longleftrightarrow>
     pm_reservedPorts pm n = Some a \<and> (\<forall>c. pm_ctxs pm a = Some c \<longrightarrow> \<not> expiredCtx t c)"
  by (auto simp: cleanReservedPortsOnce_def split: option.splits if_splits)

lemma clean_inv: "pm_inv S pm \<Longrightarrow> pm_inv S (cleanReservedPortsOnce t pm)"
  unfolding pm_ok_defs clean_reserved clean_simps by blast

lemmas ports_inv = pm_inv_new Acquire_inv Release_inv clean_inv

section \<open>Runs\<close>

text \<open>
  Every exported operation runs under \<open>pm.mu\<close>, so an execution is a sequence of whole operations in
  some order. The free ports are ranged over in any order.
\<close>

inductive pm_step :: "Manager \<Rightarrow> Manager \<Rightarrow> bool" where
  acquire: "set order = pm_freePorts pm \<Longrightarrow> distinct order \<Longrightarrow>
     pm_step pm (snd (Acquire avail order now name port pm))"
| release: "pm_step pm (Release now port pm)"
| clean: "pm_step pm (cleanReservedPortsOnce now pm)"

inductive pm_reachable :: "PortsRange list \<Rightarrow> Manager \<Rightarrow> bool" for ps where
  init: "pm_reachable ps (newManagerWithClock ps)"
| step: "pm_reachable ps pm \<Longrightarrow> pm_step pm pm' \<Longrightarrow> pm_reachable ps pm'"

lemma pm_step_inv: "pm_step pm pm' \<Longrightarrow> pm_inv S pm \<Longrightarrow> pm_inv S pm'"
  by (induction rule: pm_step.induct) (simp_all add: ports_inv)

lemma pm_reachable_inv: "pm_reachable ps pm \<Longrightarrow> pm_inv (allowedPorts ps) pm"
  by (induction rule: pm_reachable.induct) (auto intro: pm_inv_new pm_step_inv)

section \<open>What the manager promises its clients\<close>

text \<open>
  The abstract view of the manager: which proxy owns which port. The group controllers and the
  proxies rely on nothing else, so the promise is a locale over the two calls they make.
  \<open>env_ok\<close> is what the operating system guarantees: a port somebody has bound cannot be bound again.
\<close>

definition owner :: "Manager \<Rightarrow> int \<rightharpoonup> string" where
  "owner pm p = (case pm_usedPorts pm p of None \<Rightarrow> None | Some a \<Rightarrow> map_option pc_ProxyName (pm_ctxs pm a))"

type_synonym port_env = "(int \<Rightarrow> bool) \<times> int list \<times> go_time"

definition acquire_env :: "port_env \<Rightarrow> string \<Rightarrow> int \<Rightarrow> Manager \<Rightarrow> (port_error, int) result \<times> Manager" where
  "acquire_env e name port pm = (case e of (avail, order, now) \<Rightarrow> Acquire avail order now name port pm)"

definition pm_env_ok :: "port_env \<Rightarrow> Manager \<Rightarrow> bool" where
  "pm_env_ok e pm = (case e of (avail, order, now) \<Rightarrow>
     set order = pm_freePorts pm \<and> (\<forall>p \<in> dom (pm_usedPorts pm). \<not> avail p))"

definition pm_good :: "Manager \<Rightarrow> bool" where
  "pm_good pm \<longleftrightarrow> (\<exists>S. 0 \<notin> S \<and> pm_inv S pm)"

locale port_allocator =
  fixes acquire :: "'env \<Rightarrow> string \<Rightarrow> int \<Rightarrow> 's \<Rightarrow> (port_error, int) result \<times> 's"
    and release :: "go_time \<Rightarrow> int \<Rightarrow> 's \<Rightarrow> 's"
    and owned :: "'s \<Rightarrow> int \<rightharpoonup> string"
    and good :: "'s \<Rightarrow> bool"
    and env_ok :: "'env \<Rightarrow> 's \<Rightarrow> bool"
  assumes acquire_good: "good s \<Longrightarrow> env_ok e s \<Longrightarrow> acquire e n p s = (r, s') \<Longrightarrow> good s'"
    and release_good: "good s \<Longrightarrow> good (release t p s)"
    and acquire_ok: "good s \<Longrightarrow> env_ok e s \<Longrightarrow> acquire e n p s = (Inr q, s') \<Longrightarrow>
       owned s q = None \<and> owned s' = (owned s)(q \<mapsto> n)"
    and acquire_named: "good s \<Longrightarrow> env_ok e s \<Longrightarrow> acquire e n p s = (Inr q, s') \<Longrightarrow> p \<noteq> 0 \<Longrightarrow> q = p"
    and acquire_fail: "good s \<Longrightarrow> env_ok e s \<Longrightarrow> acquire e n p s = (Inl err, s') \<Longrightarrow> owned s' = owned s"
    and release_owned: "good s \<Longrightarrow> owned (release t p s) = (owned s)(p := None)"
begin

lemma acquire_release:
  assumes "good s" "env_ok e s" "acquire e n p s = (Inr q, s')"
  shows "owned (release t q s') = owned s"
proof -
  have "owned s q = None" "owned s' = (owned s)(q \<mapsto> n)"
    using acquire_ok [OF assms] by auto
  then show ?thesis
    using release_owned [OF acquire_good [OF assms]] by (auto simp: fun_eq_iff)
qed

lemma acquire_keeps_others:
  assumes "good s" "env_ok e s" "acquire e n p s = (r, s')" "owned s q = Some m"
  shows "owned s' q = Some m \<and> r \<noteq> Inr q"
  using assms acquire_ok [OF assms(1,2)] acquire_fail [OF assms(1,2)] by (cases r) force+

end

lemma owner_mark:
  assumes "pm_inv S pm" "snd res = pm'"
    and "pm_usedPorts pm' = (pm_usedPorts pm)(p \<mapsto> pm_next pm)"
    and "\<And>a. a < pm_next pm \<Longrightarrow> pm_ctxs pm' a = pm_ctxs pm a"
    and "map_option pc_ProxyName (pm_ctxs pm' (pm_next pm)) = Some n"
  shows "owner pm' = (owner pm)(p \<mapsto> n)"
  using assms by (auto simp: owner_def fun_eq_iff split: option.splits dest!: pm_invD(1) dest: used_okD)

lemma owner_grant:
  assumes "pm_inv S pm"
  shows "owner (snd (grantPort n p (pm_next pm) (newCtx n now pm))) = (owner pm)(p \<mapsto> n)"
  by (rule owner_mark [OF assms refl]) (simp_all add: newCtx_def)

lemma owner_newCtx: "pm_inv S pm \<Longrightarrow> owner (newCtx n now pm) = owner pm"
  by (auto simp: owner_def newCtx_def fun_eq_iff split: option.splits dest!: pm_invD(1) dest: used_okD)

lemma owner_Release: "pm_inv S pm \<Longrightarrow> owner (Release now p pm) = (owner pm)(p := None)"
  by (auto simp: owner_def Release_def fun_eq_iff split: option.splits dest!: pm_invD(1) dest: used_ok_inj)

text \<open>Every successful \<open>Acquire\<close> is a grant of one port of the manager that the probe accepted.\<close>

lemma Acquire_Inr:
  assumes inv: "pm_inv S pm" and ord: "set order = pm_freePorts pm"
    and acq: "Acquire avail order now name port pm = (Inr q, pm')"
  shows "q \<in> S \<and> avail q \<and> (port \<noteq> 0 \<longrightarrow> q = port) \<and>
         pm' = snd (grantPort name q (pm_next pm) (newCtx name now pm))"
proof -
  have sub: "pm_freePorts pm \<subseteq> S" using inv by (auto simp: pm_inv_def)
  consider (res) "port = 0" "reservedPort avail name pm = Some q" "(Inr q, pm') = grantPort name q (pm_next pm) (newCtx name now pm)"
    | (rand) "port = 0" "acquireRandom avail order name (pm_next pm) (newCtx name now pm) = (Inr q, pm')"
    | (spec) "port \<noteq> 0" "acquireSpecified avail name port (pm_next pm) (newCtx name now pm) = (Inr q, pm')"
    using acq by (auto simp: Acquire_def Let_def grantPort_def split: if_splits option.splits)
  then show ?thesis
  proof cases
    case res
    with reservedPort_in [OF inv] show ?thesis by (metis snd_conv)
  next
    case rand
    with sub ord show ?thesis
      by (auto simp: acquireRandom_def grantPort_def split: if_splits option.splits dest!: tryFreePorts_Some)
  next
    case spec
    with sub show ?thesis
      by (auto simp: acquireSpecified_def grantPort_def split: if_splits)
  qed
qed

lemma Acquire_Inl:
  assumes inv: "pm_inv S pm" and ord: "set order = pm_freePorts pm" and zero: "0 \<notin> S"
    and acq: "Acquire avail order now name port pm = (Inl err, pm')"
  shows "pm' = newCtx name now pm"
proof -
  have "0 \<notin> set order" using inv ord zero by (auto simp: pm_inv_def)
  then have "tryFreePorts avail 0 order \<noteq> Some 0"
    by (auto dest: tryFreePorts_Some)
  then show ?thesis
    using acq by (auto simp: Acquire_def Let_def grantPort_def acquireRandom_def acquireSpecified_def
        split: if_splits option.splits)
qed

lemma env_acquireE:
  assumes "pm_good s" "pm_env_ok e s" "acquire_env e n p s = (r, s')"
  obtains S avail order now where "0 \<notin> S" "pm_inv S s" "set order = pm_freePorts s"
    "\<forall>p \<in> dom (pm_usedPorts s). \<not> avail p" "Acquire avail order now n p s = (r, s')"
  using assms that by (cases e) (auto simp: pm_good_def pm_env_ok_def acquire_env_def)

interpretation pa: port_allocator acquire_env Release owner pm_good pm_env_ok
proof (unfold_locales, goal_cases)
  case (1 s e n p r s')
  then obtain S avail order now where S: "0 \<notin> S" "pm_inv S s" "set order = pm_freePorts s"
    "Acquire avail order now n p s = (r, s')" by (rule env_acquireE)
  with Acquire_inv [OF S(2,3), of avail now n p] show ?case by (auto simp: pm_good_def)
next
  case (2 s t p)
  then show ?case unfolding pm_good_def by (blast intro: Release_inv)
next
  case (3 s e n p q s')
  then obtain S avail order now where S: "pm_inv S s" "set order = pm_freePorts s"
    "Acquire avail order now n p s = (Inr q, s')" and used: "\<forall>p \<in> dom (pm_usedPorts s). \<not> avail p"
    by (rule env_acquireE)
  from Acquire_Inr [OF S] used have "pm_usedPorts s q = None"
    and "s' = snd (grantPort n q (pm_next s) (newCtx n now s))" by auto
  with owner_grant [OF S(1)] show ?case by (simp add: owner_def [of s q])
next
  case (4 s e n p q s')
  then obtain S avail order now where S: "pm_inv S s" "set order = pm_freePorts s"
    "Acquire avail order now n p s = (Inr q, s')" by (elim env_acquireE)
  from Acquire_Inr [OF S] 4(4) show ?case by blast
next
  case (5 s e n p err s')
  then obtain S avail order now where S: "pm_inv S s" "set order = pm_freePorts s" "0 \<notin> S"
    "Acquire avail order now n p s = (Inl err, s')" by (elim env_acquireE)
  from Acquire_Inl [OF S] S(1) show ?case by (simp add: owner_newCtx)
next
  case (6 s t p)
  then show ?case by (auto simp: pm_good_def owner_Release)
qed

section \<open>Properties\<close>

text \<open>A small manager the witnesses run: ports 1000 and 1001, nothing bound by anybody else.\<close>

definition demo_ranges :: "PortsRange list" where
  "demo_ranges = [\<lparr>pr_Start = 1000, pr_End = 1001, pr_Single = 0\<rparr>]"

definition demo_pm :: Manager where
  "demo_pm = snd (Acquire (\<lambda>_. True) [1000, 1001] 7 ''web'' 0 (newManagerWithClock demo_ranges))"

lemma demo_allowed: "allowedPorts demo_ranges = {1000, 1001}"
  by (auto simp: demo_ranges_def allowedPorts_def rangePorts_def)

lemmas acquire_defs = Acquire_def acquireRandom_def acquireSpecified_def grantPort_def
  reservedPort_def markPortAcquiredLocked_def setCtxPort_def newCtx_def maxTryTimes_def

lemma demo_new: "newManagerWithClock demo_ranges =
   \<lparr>pm_reservedPorts = Map.empty, pm_usedPorts = Map.empty, pm_freePorts = {1000, 1001},
    pm_ctxs = Map.empty, pm_next = 0\<rparr>"
  by (simp add: newManagerWithClock_def demo_allowed)

lemma demo_pm_eq: "demo_pm =
   \<lparr>pm_reservedPorts = [''web'' \<mapsto> 0], pm_usedPorts = [1000 \<mapsto> 0], pm_freePorts = {1001},
    pm_ctxs = [0 \<mapsto> \<lparr>pc_ProxyName = ''web'', pc_Port = 1000, pc_Closed = False, pc_UpdateTime = 7\<rparr>],
    pm_next = 1\<rparr>"
  by (auto simp: demo_pm_def demo_new acquire_defs Let_def)

lemma demo_new_reachable: "pm_reachable demo_ranges (newManagerWithClock demo_ranges)"
  by (rule pm_reachable.init)

lemma demo_pm_reachable: "pm_reachable demo_ranges demo_pm"
  unfolding demo_pm_def
  by (rule pm_reachable.step [OF demo_new_reachable], rule pm_step.acquire) (simp_all add: demo_new)

text \<open>
  C2: No port is lost or handed out twice by the books: in every reachable state of the port manager
  the free ports and the used ports are disjoint and together are exactly the ports the server was
  configured to allow.
\<close>

theorem ports_conserved:
  assumes "pm_reachable ps pm"
  shows "pm_freePorts pm \<inter> dom (pm_usedPorts pm) = {} \<and>
         pm_freePorts pm \<union> dom (pm_usedPorts pm) = allowedPorts ps"
  using pm_reachable_inv [OF assms] by (simp add: pm_inv_def)

theorem ports_conserved_witness:
  "pm_reachable demo_ranges demo_pm \<and>
   pm_freePorts demo_pm \<inter> dom (pm_usedPorts demo_pm) = {} \<and>
   pm_freePorts demo_pm \<union> dom (pm_usedPorts demo_pm) = {1000, 1001}"
  using ports_conserved [OF demo_pm_reachable] demo_pm_reachable by (simp add: demo_allowed)

text \<open>
  Acquire is exclusive. If the operating system refuses to bind a port that is in use, then a
  port \<open>Acquire\<close> returns was free and unused, it is the requested one when one was requested, and the
  only change to who owns which port is that the caller now owns it.
\<close>

theorem acquire_exclusive:
  assumes "pm_reachable ps pm" and "set order = pm_freePorts pm"
    and "\<forall>p \<in> dom (pm_usedPorts pm). \<not> avail p"
    and "Acquire avail order now name port pm = (Inr q, pm')"
  shows "q \<in> pm_freePorts pm \<and> q \<in> allowedPorts ps \<and> (port \<noteq> 0 \<longrightarrow> q = port) \<and>
         q \<notin> pm_freePorts pm' \<and> owner pm q = None \<and> owner pm' = (owner pm)(q \<mapsto> name)"
proof -
  note inv = pm_reachable_inv [OF assms(1)]
  note q = Acquire_Inr [OF inv assms(2,4)]
  with assms(3) have unused: "q \<notin> dom (pm_usedPorts pm)" by blast
  with q pm_invD(4) [OF inv] have "q \<in> pm_freePorts pm" by blast
  moreover from unused have "owner pm q = None" by (simp add: owner_def domIff)
  ultimately show ?thesis using q owner_grant [OF inv] by auto
qed

theorem acquire_exclusive_witness:
  "Acquire (\<lambda>p. p \<noteq> 1000) [1001] 9 ''ssh'' 1001 demo_pm =
     (Inr 1001, snd (Acquire (\<lambda>p. p \<noteq> 1000) [1001] 9 ''ssh'' 1001 demo_pm)) \<and>
   owner (snd (Acquire (\<lambda>p. p \<noteq> 1000) [1001] 9 ''ssh'' 1001 demo_pm)) =
     (owner demo_pm)(1001 \<mapsto> ''ssh'')"
proof -
  have acq: "Acquire (\<lambda>p. p \<noteq> 1000) [1001] 9 ''ssh'' 1001 demo_pm =
     (Inr 1001, snd (Acquire (\<lambda>p. p \<noteq> 1000) [1001] 9 ''ssh'' 1001 demo_pm))"
    by (simp add: demo_pm_eq acquire_defs Let_def)
  then show ?thesis
    using acquire_exclusive [OF demo_pm_reachable _ _ acq] by (simp add: demo_pm_eq)
qed

text \<open>
  A request for a specific port gets exactly one of four answers, decided by where the port is:
  granted when it is free and can be bound, unavailable when it is free and cannot be bound, already
  used when a proxy holds it, and not allowed exactly when it is outside the configured ranges.
\<close>

theorem acquire_specified_outcomes:
  assumes "pm_reachable ps pm" and "port \<noteq> 0"
  shows "(fst (Acquire avail order now name port pm) = Inl ErrPortNotAllowed \<longleftrightarrow> port \<notin> allowedPorts ps) \<and>
         (fst (Acquire avail order now name port pm) = Inl ErrPortAlreadyUsed \<longleftrightarrow> owner pm port \<noteq> None) \<and>
         (fst (Acquire avail order now name port pm) = Inl ErrPortUnAvailable \<longleftrightarrow>
            port \<in> allowedPorts ps \<and> owner pm port = None \<and> \<not> avail port) \<and>
         (fst (Acquire avail order now name port pm) = Inr port \<longleftrightarrow>
            port \<in> allowedPorts ps \<and> owner pm port = None \<and> avail port)"
proof -
  note inv = pm_reachable_inv [OF assms(1)]
  have owned: "owner pm port = None \<longleftrightarrow> pm_usedPorts pm port = None"
    using used_okD [OF pm_invD(1) [OF inv]] by (auto simp: owner_def split: option.splits)
  show ?thesis
    using assms(2) pm_invD(3,4) [OF inv]
    by (auto simp: Acquire_def acquireSpecified_def Let_def owned)
qed

theorem acquire_specified_outcomes_witness:
  "fst (Acquire (\<lambda>_. True) [] 9 ''ssh'' 1000 demo_pm) = Inl ErrPortAlreadyUsed \<and>
   fst (Acquire (\<lambda>_. True) [] 9 ''ssh'' 80 demo_pm) = Inl ErrPortNotAllowed"
  using acquire_specified_outcomes [OF demo_pm_reachable, of 1000 "\<lambda>_. True" "[]" 9 "''ssh''"]
    acquire_specified_outcomes [OF demo_pm_reachable, of 80 "\<lambda>_. True" "[]" 9 "''ssh''"]
  by (simp add: demo_allowed demo_pm_eq owner_def)

text \<open>
  Reservations are sticky. A proxy that held a port, released it and asks again for any port gets
  the same port back, provided it can be bound, even if the cleanup of reservations ran in between,
  as long as that cleanup ran no later than 24 hours after the release.
\<close>

theorem reservation_sticky:
  assumes reach: "pm_reachable ps pm" and ord: "set order = pm_freePorts pm"
    and acq: "Acquire avail order t0 name port pm = (Inr p, pm1)"
    and day: "t2 - t1 \<le> MaxPortReservedDuration" and free: "avail' p"
  shows "fst (Acquire avail' order' t3 name 0 (cleanReservedPortsOnce t2 (Release t1 p pm1))) = Inr p"
proof -
  let ?a = "pm_next pm" and ?pm2 = "Release t1 p pm1"
  have pm1: "pm1 = snd (grantPort name p ?a (newCtx name t0 pm))"
    using Acquire_Inr [OF pm_reachable_inv [OF reach] ord acq] by blast
  then have used: "pm_usedPorts pm1 p = Some ?a" by simp
  obtain c where c: "pm_ctxs ?pm2 ?a = Some c" "pc_Port c = p" "pc_UpdateTime c = t1"
    unfolding Release_simps [OF used] by (simp add: pm1 newCtx_def)
  moreover from c day have "\<not> expiredCtx t2 c" by (simp add: expiredCtx_def)
  moreover have "pm_reservedPorts ?pm2 name = Some ?a"
    unfolding Release_simps [OF used] by (simp add: pm1)
  ultimately have "reservedPort avail' name (cleanReservedPortsOnce t2 ?pm2) = Some p"
    using free by (auto simp: reservedPort_Some clean_reserved)
  then show ?thesis by (simp add: Acquire_def Let_def)
qed

theorem reservation_sticky_witness:
  "fst (Acquire (\<lambda>_. True) [1001, 1000] 50 ''web'' 0 (cleanReservedPortsOnce 30 (Release 20 1000 demo_pm))) =
     Inr 1000"
proof -
  have "Acquire (\<lambda>_. True) [1000, 1001] 7 ''web'' 0 (newManagerWithClock demo_ranges) = (Inr 1000, demo_pm)"
    unfolding demo_pm_def by (simp add: demo_new acquire_defs Let_def)
  then show ?thesis
    by (intro reservation_sticky [OF demo_new_reachable])
       (simp_all add: demo_new MaxPortReservedDuration_def Hour_def Second_def)
qed

text \<open>
  The number 0 as an allowed port is not harmless. \<open>Acquire\<close> uses 0 for "nothing found", so when
  port 0 is among the allowed ports and is the one picked, the caller is told that no port is
  available while the manager books port 0 as used by the caller, who will never release it.
\<close>

theorem acquire_zero_leak:
  assumes "reservedPort avail name pm = None" and "tryFreePorts avail 0 order = Some 0"
  shows "fst (Acquire avail order now name 0 pm) = Inl ErrNoAvailablePort \<and>
         owner (snd (Acquire avail order now name 0 pm)) 0 = Some name"
  using assms by (simp add: Acquire_def Let_def acquireRandom_def owner_def newCtx_def)

theorem acquire_zero_leak_witness:
  "fst (Acquire (\<lambda>_. True) [0] 7 ''web'' 0 (newManagerWithClock [\<lparr>pr_Start = 0, pr_End = 0, pr_Single = 0\<rparr>])) =
     Inl ErrNoAvailablePort \<and>
   owner (snd (Acquire (\<lambda>_. True) [0] 7 ''web'' 0
     (newManagerWithClock [\<lparr>pr_Start = 0, pr_End = 0, pr_Single = 0\<rparr>]))) 0 = Some ''web''"
  by (rule acquire_zero_leak)
     (simp_all add: newManagerWithClock_def reservedPort_def maxTryTimes_def)

end
