(* ===== verification/Tcp_Group.thy ===== *)
theory Tcp_Group
  imports Listener_Group Ports
begin

text \<open>
  TCP groups (\<open>server/group/tcp.go\<close>): the real listener of a group is a port of the port manager together with
  a socket bound to it. Opening it is \<open>Acquire\<close> followed by \<open>net.Listen\<close>, whose outcome is an argument, with
  the port released again when the socket cannot be bound; closing it releases the port.
\<close>

section \<open>The model\<close>

type_synonym tcp_cfg = "string \<times> int"

datatype tcp_open_error = PortErr port_error | ListenErr

text \<open>The surroundings of one call: those of \<open>Acquire\<close>, the answer of \<open>net.Listen\<close> and the clock.\<close>

type_synonym tcp_env = "port_env \<times> bool \<times> go_time"

definition tcpOpen :: "tcp_env \<Rightarrow> string \<Rightarrow> tcp_cfg \<Rightarrow> Manager \<Rightarrow> (tcp_open_error, int) result \<times> Manager" where
  "tcpOpen e proxyName cfg pm =
     (case e of (penv, listenOk, now) \<Rightarrow>
        case acquire_env penv proxyName (snd cfg) pm of
          (Inl err, pm1) \<Rightarrow> (Inl (PortErr err), pm1)
        | (Inr realPort, pm1) \<Rightarrow>
            if listenOk then (Inr realPort, pm1) else (Inl ListenErr, Release now realPort pm1))"

definition tcpJoinErr :: "tcp_cfg \<Rightarrow> tcp_cfg \<Rightarrow> tcp_open_error group_error option" where
  "tcpJoinErr cur new = (if fst cur \<noteq> fst new then Some ErrGroupParamsInvalid
     else if snd cur \<noteq> snd new then Some ErrGroupDifferentPort else None)"

type_synonym TCPGroupCtl = "(tcp_cfg, int, Manager) GroupCtl"

definition NewTCPGroupCtl :: "Manager \<Rightarrow> TCPGroupCtl" where
  "NewTCPGroupCtl portManager = newGroupCtl portManager"

definition tcpGroupListen ::
  "tcp_env \<Rightarrow> string \<Rightarrow> string \<Rightarrow> string \<Rightarrow> string \<Rightarrow> int \<Rightarrow> gid \<Rightarrow> TCPGroupCtl \<Rightarrow>
     (tcp_open_error group_error, nat) result \<times> TCPGroupCtl" where
  "tcpGroupListen e proxyName grp groupKey addr port = groupListen tcpOpen tcpJoinErr e proxyName grp groupKey (addr, port)"

definition tcpCtlListen ::
  "(TCPGroupCtl \<Rightarrow> TCPGroupCtl) list \<Rightarrow> tcp_env \<Rightarrow> string \<Rightarrow> string \<Rightarrow> string \<Rightarrow> string \<Rightarrow> int \<Rightarrow> TCPGroupCtl \<Rightarrow>
     (tcp_open_error group_error, nat) result \<times> TCPGroupCtl" where
  "tcpCtlListen fs e proxyName grp groupKey addr port = ctlListen tcpOpen tcpJoinErr fs e proxyName grp groupKey (addr, port)"

definition tcpLnClose :: "go_time \<Rightarrow> nat \<Rightarrow> TCPGroupCtl \<Rightarrow> TCPGroupCtl" where
  "tcpLnClose = lnClose Release"

text \<open>The ports in use, and the states of the controller under any interleaving of calls.\<close>

definition portHeld :: "Manager \<Rightarrow> int \<Rightarrow> bool" where
  "portHeld pm p \<longleftrightarrow> owner pm p \<noteq> None"

definition tcp_env_ok :: "tcp_env \<Rightarrow> Manager \<Rightarrow> bool" where
  "tcp_env_ok e pm = pm_env_ok (fst e) pm"

abbreviation tcp_reachable :: "TCPGroupCtl \<Rightarrow> bool" where
  "tcp_reachable \<equiv> grp_reachable tcpOpen Release tcpJoinErr (\<lambda>p. p) portHeld pm_good tcp_env_ok"

abbreviation tcp_step :: "TCPGroupCtl \<Rightarrow> TCPGroupCtl \<Rightarrow> bool" where
  "tcp_step \<equiv> grp_step tcpOpen Release tcpJoinErr (\<lambda>p. p) portHeld pm_good tcp_env_ok"

section \<open>The port manager provides real listeners\<close>

lemma portHeld_upd: "owner pm' = (owner pm)(p \<mapsto> n) \<Longrightarrow> portHeld pm' = (portHeld pm)(p := True)"
  "owner pm' = (owner pm)(p := None) \<Longrightarrow> portHeld pm' = (portHeld pm)(p := False)"
  "owner pm' = owner pm \<Longrightarrow> portHeld pm' = portHeld pm"
  by (auto simp: portHeld_def fun_eq_iff)

lemma tcpOpen_cases:
  assumes "tcpOpen e n c pm = (x, pm')"
  obtains (failed) err where "x = Inl (PortErr err)" "acquire_env (fst e) n (snd c) pm = (Inl err, pm')"
  | (ok) p where "x = Inr p" "acquire_env (fst e) n (snd c) pm = (Inr p, pm')"
  | (undone) p pm1 now where "x = Inl ListenErr" "acquire_env (fst e) n (snd c) pm = (Inr p, pm1)" "pm' = Release now p pm1"
  using assms by (auto simp: tcpOpen_def split: prod.splits sum.splits if_splits)

interpretation tg: listener_resource tcpOpen Release tcpJoinErr "\<lambda>p. p" portHeld pm_good tcp_env_ok
proof unfold_locales
  fix e n c x and r r' :: Manager
  assume *: "pm_good r" "tcp_env_ok e r" "tcpOpen e n c r = (x, r')"
  then have env: "pm_env_ok (fst e) r" by (simp add: tcp_env_ok_def)
  from *(3) show "pm_good r'"
    by (cases rule: tcpOpen_cases) (auto intro: pa.acquire_good [OF *(1) env] pa.release_good)
next
  fix e n c h and r r' :: Manager
  assume *: "pm_good r" "tcp_env_ok e r" "tcpOpen e n c r = (Inr h, r')"
  then have env: "pm_env_ok (fst e) r" by (simp add: tcp_env_ok_def)
  from *(3) have "acquire_env (fst e) n (snd c) r = (Inr h, r')" by (cases rule: tcpOpen_cases) auto
  from pa.acquire_ok [OF *(1) env this] have o: "owner r h = None" "owner r' = (owner r)(h \<mapsto> n)" by auto
  show "\<not> portHeld r h \<and> portHeld r' = (portHeld r)(h := True)"
    unfolding portHeld_upd(1) [OF o(2)] using o(1) by (simp add: portHeld_def)
next
  fix e n c err and r r' :: Manager
  assume *: "pm_good r" "tcp_env_ok e r" "tcpOpen e n c r = (Inl err, r')"
  then have env: "pm_env_ok (fst e) r" by (simp add: tcp_env_ok_def)
  from *(3) show "portHeld r' = portHeld r"
    by (cases rule: tcpOpen_cases)
       (auto intro!: portHeld_upd(3) simp: pa.acquire_fail [OF *(1) env] pa.acquire_release [OF *(1) env])
qed (simp_all add: pa.release_good portHeld_upd(2) [OF pa.release_owned])

section \<open>Properties\<close>

text \<open>Two proxies in one group, on the manager with the two allowed ports.\<close>

definition demo_tcp_env :: tcp_env where
  "demo_tcp_env = (((\<lambda>_. True), [1000, 1001], 7), True, 7)"

definition demo_tcp0 :: TCPGroupCtl where
  "demo_tcp0 = snd (lookupGroup ''web'' (NewTCPGroupCtl (newManagerWithClock demo_ranges)))"

definition demo_tcp1 :: TCPGroupCtl where
  "demo_tcp1 = snd (tcpGroupListen demo_tcp_env ''a'' ''web'' ''k'' ''0.0.0.0'' 0 0 demo_tcp0)"

lemma demo_tcp0_eq: "demo_tcp0 = (NewTCPGroupCtl (newManagerWithClock demo_ranges))
    \<lparr>gc_groups := [''web'' \<mapsto> 0], gc_heap := [0 \<mapsto> newGroup], gc_next := 1\<rparr>"
  by (simp add: demo_tcp0_def lookupGroup_def getOrCreate_def NewTCPGroupCtl_def newGroupCtl_def)

definition demo_pm_a :: Manager where
  "demo_pm_a = snd (Acquire (\<lambda>_. True) [1000, 1001] 7 ''a'' 0 (newManagerWithClock demo_ranges))"

lemma demo_acquire_a: "Acquire (\<lambda>_. True) [1000, 1001] 7 ''a'' 0 (newManagerWithClock demo_ranges) = (Inr 1000, demo_pm_a)"
  by (simp add: demo_pm_a_def demo_new acquire_defs Let_def)

lemma demo_tcp1_eq:
  "gc_heap demo_tcp1 0 = Some \<lparr>gr_group = ''web'', gr_groupKey = ''k'', gr_cfg = Some (''0.0.0.0'', 0), gr_real = Some 1000,
     gr_lns = [0], gr_acceptClosed = False\<rparr>"
  "gc_res demo_tcp1 = demo_pm_a"
  "gc_groups demo_tcp1 ''web'' = Some 0"
proof -
  have "tcpOpen demo_tcp_env ''a'' (''0.0.0.0'', 0) (newManagerWithClock demo_ranges) =
    (Inr 1000, demo_pm_a)"
    by (simp add: tcpOpen_def demo_tcp_env_def acquire_env_def demo_acquire_a)
  then show "gc_heap demo_tcp1 0 = Some \<lparr>gr_group = ''web'', gr_groupKey = ''k'', gr_cfg = Some (''0.0.0.0'', 0), gr_real = Some 1000,
     gr_lns = [0], gr_acceptClosed = False\<rparr>"
    "gc_res demo_tcp1 = demo_pm_a"
    "gc_groups demo_tcp1 ''web'' = Some 0"
    by (simp_all add: demo_tcp1_def demo_tcp0_eq tcpGroupListen_def groupListen_def newGroup_def initBase_def newListener_def
        NewTCPGroupCtl_def newGroupCtl_def Let_def)
qed

lemma demo_pm_good: "pm_good (newManagerWithClock demo_ranges)"
  using pm_reachable_inv [OF demo_new_reachable] demo_allowed by (auto simp: pm_good_def intro!: exI [of _ "{1000, 1001}"])

lemma demo_tcp1_reachable: "tcp_reachable demo_tcp1"
proof -
  have "tcp_reachable demo_tcp0"
    unfolding demo_tcp0_def NewTCPGroupCtl_def
    by (rule grp_reachable.step [OF grp_reachable.init [where good = pm_good, OF demo_pm_good] grp_step.lookup])
  moreover have "tcp_env_ok demo_tcp_env (gc_res demo_tcp0)"
    by (simp add: tcp_env_ok_def demo_tcp_env_def pm_env_ok_def demo_tcp0_eq NewTCPGroupCtl_def newGroupCtl_def demo_new)
  ultimately show ?thesis
    unfolding demo_tcp1_def tcpGroupListen_def by (rule grp_reachable.step [OF _ grp_step.listen])
qed



text \<open>
  The port of a TCP group is released with its last listener. Closing the only listener left frees the
  port, changes the owner of no other port and drops the group from the registry; closing one of several
  changes neither ports nor registry; and closing a listener a second time does nothing.
\<close>

theorem tcp_group_last_close:
  assumes "tcp_reachable s" "gc_heap s gid = Some g" "ln \<in> set (gr_lns g)" "gr_real g = Some p"
    and s'_def: "s' = tcpLnClose now ln s"
  shows "(if gr_lns g = [ln]
      then owner (gc_res s') = (owner (gc_res s))(p := None) \<and> gc_groups s' = (gc_groups s)(gr_group g := None)
      else gc_res s' = gc_res s \<and> gc_groups s' = gc_groups s) \<and>
    tcpLnClose now2 ln s' = s'"
proof -
  note inv = tg.grp_reachable_inv [OF assms(1)]
  note L = listeners_okD [OF grp_invD(3) [OF inv]]
  have ln: "gc_lns s ln = Some (gid, False)" using L(1) assms(2,3) by blast
  have "gc_lns s' ln = Some (gid, True)"
    using ln assms(2) by (simp add: s'_def tcpLnClose_def lnClose_def closeListener_def Let_def)
  then have twice: "tcpLnClose now2 ln s' = s'" by (simp add: tcpLnClose_def lnClose_def)
  show ?thesis
  proof (cases "gr_lns g = [ln]")
    case True
    then have "live s gid g" using assms(2) by (simp add: live_def)
    from grp_invD(1) [OF inv this] have ok: "gc_groups s (gr_group g) = Some gid" "\<not> gr_acceptClosed g"
      by (simp_all add: group_ok_def)
    have "gc_res s' = Release now p (gc_res s)" "gc_groups s' = (gc_groups s)(gr_group g := None)"
      using True ln assms(2,4) ok by (simp_all add: s'_def tcpLnClose_def lnClose_def closeListener_def)
    then show ?thesis using True twice pa.release_owned [OF grp_invD(5) [OF inv]] by simp
  next
    case False
    then have "remove1 ln (gr_lns g) \<noteq> []"
      using assms(3) by (cases "gr_lns g") (auto split: if_splits)
    then show ?thesis using False twice tg.close_not_last [OF ln assms(2)] by (simp add: s'_def tcpLnClose_def)
  qed
qed

theorem tcp_group_last_close_witness:
  "owner (gc_res (tcpLnClose 9 0 demo_tcp1)) 1000 = None \<and> gc_groups (tcpLnClose 9 0 demo_tcp1) ''web'' = None"
  using tcp_group_last_close [OF demo_tcp1_reachable demo_tcp1_eq(1) _ _ refl, of 0 1000 9 9] by simp

text \<open>
  C21: \<open>Listen\<close> always gets an answer. Whatever other goroutines do to the groups between the rounds of the
  retry loop, the loop ends as soon as nothing interferes, and the answer is never the internal
  error of a stale group.
\<close>

theorem tcp_listen_answers:
  assumes "tcp_reachable s" "\<forall>f \<in> set fs. \<forall>s. grp_inv (\<lambda>p. p) portHeld pm_good s \<longrightarrow> grp_inv (\<lambda>p. p) portHeld pm_good (f s)"
  shows "fst (tcpCtlListen fs e name grp groupKey addr port s) \<noteq> Inl errGroupStale"
  unfolding tcpCtlListen_def
  using assms(2) by (intro tg.ctlListen_answers [OF tg.grp_reachable_inv [OF assms(1)]]) (auto simp: tcpJoinErr_def)

theorem tcp_listen_answers_witness:
  "fst (tcpCtlListen [tcpLnClose 8 0] demo_tcp_env ''b'' ''web'' ''k'' ''0.0.0.0'' 0 demo_tcp1) \<noteq> Inl errGroupStale"
  by (rule tcp_listen_answers [OF demo_tcp1_reachable]) (simp add: tcpLnClose_def tg.close_inv)

end
