(* ===== verification/Routers.thy ===== *)
theory Routers
  imports Frp_Prelude
begin

text \<open>
  The virtual-host routing table of frps, \<open>pkg/util/vhost/router.go\<close>: routes are kept per domain and
  per HTTP user in a list sorted by descending location, and a request is resolved by host name,
  path and user, walking from the exact host over the wildcard domains to the catch-all. The
  payload of a route is a parameter of the type, as \<open>any\<close> is in the source.
\<close>

section \<open>Data\<close>

datatype router_error = ErrRouterConfigConflict

record 'p Router =
  rt_domain :: string
  rt_location :: string
  rt_httpUser :: string
  rt_payload :: 'p

type_synonym 'p routerByHTTPUser = "string \<rightharpoonup> 'p Router list"

record 'p Routers =
  indexByDomain :: "string \<rightharpoonup> 'p routerByHTTPUser"

section \<open>Operations\<close>

definition NewRouters :: "'p Routers" where
  "NewRouters = \<lparr>indexByDomain = Map.empty\<rparr>"

definition routesOf :: "'p Routers \<Rightarrow> string \<Rightarrow> string \<Rightarrow> 'p Router list option" where
  "routesOf r host httpUser =
     (case indexByDomain r host of None \<Rightarrow> None | Some byUser \<Rightarrow> byUser httpUser)"

definition exist :: "'p Routers \<Rightarrow> string \<Rightarrow> string \<Rightarrow> string \<Rightarrow> 'p Router option" where
  "exist r host path httpUser =
     (case routesOf r host httpUser of None \<Rightarrow> None
      | Some routers \<Rightarrow> find (\<lambda>route. path = rt_location route) routers)"

text \<open>\<open>slices.SortFunc\<close> with the comparison \<open>-cmp.Compare(a.location, b.location)\<close>.\<close>

fun insertRouter :: "'p Router \<Rightarrow> 'p Router list \<Rightarrow> 'p Router list" where
  "insertRouter v [] = [v]"
| "insertRouter v (x # xs) = (if rt_location x < rt_location v then v # x # xs else x # insertRouter v xs)"

definition sortRouters :: "'p Router list \<Rightarrow> 'p Router list" where
  "sortRouters vrs = foldr insertRouter vrs []"

definition Add :: "string \<Rightarrow> string \<Rightarrow> string \<Rightarrow> 'p \<Rightarrow> 'p Routers \<Rightarrow> (router_error, 'p Routers) result" where
  "Add domain0 location httpUser payload r =
     (let domain = ToLower domain0
      in if exist r domain location httpUser \<noteq> None then Inl ErrRouterConfigConflict
         else
           let routersByHTTPUser = (case indexByDomain r domain of None \<Rightarrow> Map.empty | Some m \<Rightarrow> m);
               vrs = (case routersByHTTPUser httpUser of None \<Rightarrow> [] | Some v \<Rightarrow> v);
               vr = \<lparr>rt_domain = domain, rt_location = location, rt_httpUser = httpUser, rt_payload = payload\<rparr>;
               vrs' = sortRouters (vrs @ [vr])
           in Inr (r\<lparr>indexByDomain := (indexByDomain r)(domain \<mapsto> routersByHTTPUser(httpUser \<mapsto> vrs'))\<rparr>))"

definition Del :: "string \<Rightarrow> string \<Rightarrow> string \<Rightarrow> 'p Routers \<Rightarrow> 'p Routers" where
  "Del domain0 location httpUser r =
     (let domain = ToLower domain0
      in case indexByDomain r domain of None \<Rightarrow> r
         | Some routersByHTTPUser \<Rightarrow>
             (case routersByHTTPUser httpUser of None \<Rightarrow> r
              | Some vrs \<Rightarrow>
                  let newVrs = filter (\<lambda>vr. rt_location vr \<noteq> location) vrs
                  in r\<lparr>indexByDomain := (indexByDomain r)(domain \<mapsto> routersByHTTPUser(httpUser \<mapsto> newVrs))\<rparr>))"

definition getLocked :: "'p Routers \<Rightarrow> string \<Rightarrow> string \<Rightarrow> string \<Rightarrow> 'p Router option" where
  "getLocked r host path httpUser =
     (case routesOf r host httpUser of None \<Rightarrow> None
      | Some vrs \<Rightarrow> find (\<lambda>vr. prefix (rt_location vr) path) vrs)"

definition Get :: "'p Routers \<Rightarrow> string \<Rightarrow> string \<Rightarrow> string \<Rightarrow> 'p Router option" where
  "Get r host path httpUser = getLocked r (ToLower host) path httpUser"

definition getExactOrAllUsersLocked :: "'p Routers \<Rightarrow> string \<Rightarrow> string \<Rightarrow> string \<Rightarrow> 'p Router option" where
  "getExactOrAllUsersLocked r host path httpUser =
     (case getLocked r host path httpUser of Some vr \<Rightarrow> Some vr
      | None \<Rightarrow> getLocked r host path [])"

text \<open>
  The loop of \<open>getByRoute\<close>: while at least three labels are left, the leftmost one is replaced by the
  wildcard marker and looked up, then dropped.
\<close>

fun wildcardWalk :: "(string \<Rightarrow> 'a option) \<Rightarrow> string list \<Rightarrow> 'a option" where
  "wildcardWalk f (a # b # c # rest) =
     (case f (Join CHR ''.'' (''*'' # b # c # rest)) of Some vr \<Rightarrow> Some vr
      | None \<Rightarrow> wildcardWalk f (b # c # rest))"
| "wildcardWalk f hostSplit = None"

definition getByRoute :: "'p Routers \<Rightarrow> string \<Rightarrow> string \<Rightarrow> string \<Rightarrow> 'p Router option" where
  "getByRoute r host0 path httpUser =
     (let host = ToLower host0
      in case getExactOrAllUsersLocked r host path httpUser of Some vr \<Rightarrow> Some vr
         | None \<Rightarrow>
             (case wildcardWalk (\<lambda>h. getExactOrAllUsersLocked r h path httpUser) (Split CHR ''.'' host) of
                Some vr \<Rightarrow> Some vr
              | None \<Rightarrow> getExactOrAllUsersLocked r ''*'' path httpUser))"

section \<open>Invariant\<close>

definition desc_loc :: "'p Router \<Rightarrow> 'p Router \<Rightarrow> bool" where
  "desc_loc a b \<longleftrightarrow> rt_location b < rt_location a"

definition routes_ok :: "string \<Rightarrow> string \<Rightarrow> 'p Router list \<Rightarrow> bool" where
  "routes_ok d u vrs \<longleftrightarrow> sorted_wrt desc_loc vrs \<and> (\<forall>v \<in> set vrs. rt_domain v = d \<and> rt_httpUser v = u)"

definition routers_ok :: "'p Routers \<Rightarrow> bool" where
  "routers_ok r \<longleftrightarrow> (\<forall>d u vrs. routesOf r d u = Some vrs \<longrightarrow> routes_ok d u vrs)"

lemma asymp_desc_loc: "asymp desc_loc"
  by (rule asympI) (auto simp: desc_loc_def)

lemma set_insertRouter [simp]: "set (insertRouter v xs) = insert v (set xs)"
  by (induction v xs rule: insertRouter.induct) auto

lemma set_sortRouters [simp]: "set (sortRouters xs) = set xs"
  unfolding sortRouters_def by (induction xs) auto

lemma sorted_insertRouter:
  "sorted_wrt desc_loc xs \<Longrightarrow> rt_location v \<notin> rt_location ` set xs \<Longrightarrow> sorted_wrt desc_loc (insertRouter v xs)"
  by (induction v xs rule: insertRouter.induct) (fastforce simp: desc_loc_def)+

lemma sorted_sortRouters: "distinct (map rt_location xs) \<Longrightarrow> sorted_wrt desc_loc (sortRouters xs)"
  unfolding sortRouters_def
proof (induction xs)
  case (Cons x xs)
  have "set (foldr insertRouter xs []) = set xs" using set_sortRouters by (simp add: sortRouters_def)
  with Cons show ?case by (simp add: sorted_insertRouter)
qed simp

text \<open>
  Any sorting routine gives the list the model computes: on distinct locations there is only one
  strictly descending arrangement.
\<close>

lemma sortRouters_unique:
  "distinct (map rt_location xs) \<Longrightarrow> sorted_wrt desc_loc ys \<Longrightarrow> set ys = set xs \<Longrightarrow> ys = sortRouters xs"
  by (rule sorted_wrt_unique [OF asymp_desc_loc]) (auto simp: sorted_sortRouters)

lemma sorted_desc_distinct: "sorted_wrt desc_loc xs \<Longrightarrow> distinct (map rt_location xs)"
  by (induction xs) (auto simp: desc_loc_def)

lemma routers_okD: "routers_ok r \<Longrightarrow> routesOf r d u = Some vrs \<Longrightarrow> routes_ok d u vrs"
  by (simp add: routers_ok_def)

lemma exist_Some:
  assumes "routers_ok r"
  shows "exist r d l u = Some v \<longleftrightarrow> (\<exists>vrs. routesOf r d u = Some vrs \<and> v \<in> set vrs \<and> rt_location v = l)"
  using routers_okD [OF assms, of d u]
  by (auto simp: exist_def routes_ok_def find_key_Some sorted_desc_distinct split: option.splits)

definition current :: "'p Routers \<Rightarrow> string \<Rightarrow> string \<Rightarrow> 'p Router list" where
  "current r d u = (case routesOf r d u of None \<Rightarrow> [] | Some v \<Rightarrow> v)"

lemma routes_ok_current: "routers_ok r \<Longrightarrow> routes_ok d u (current r d u)"
  using routers_okD [of r d u] by (auto simp: current_def routes_ok_def split: option.splits)

lemma exist_current:
  "routers_ok r \<Longrightarrow> exist r d l u = Some v \<longleftrightarrow> v \<in> set (current r d u) \<and> rt_location v = l"
  by (cases "routesOf r d u") (auto simp: exist_Some current_def)

lemma routesOf_New [simp]: "routesOf NewRouters d u = None"
  by (simp add: routesOf_def NewRouters_def)

lemma routers_ok_New: "routers_ok NewRouters"
  by (simp add: routers_ok_def)

definition newRoute :: "string \<Rightarrow> string \<Rightarrow> string \<Rightarrow> 'p \<Rightarrow> 'p Router" where
  "newRoute d l u p = \<lparr>rt_domain = ToLower d, rt_location = l, rt_httpUser = u, rt_payload = p\<rparr>"

lemma newRoute_simps [simp]:
  "rt_domain (newRoute d l u p) = ToLower d" "rt_location (newRoute d l u p) = l"
  "rt_httpUser (newRoute d l u p) = u" "rt_payload (newRoute d l u p) = p"
  by (simp_all add: newRoute_def)

lemma Add_Inl: "Add d l u p r = Inl e \<longleftrightarrow> exist r (ToLower d) l u \<noteq> None"
  by (cases e) (auto simp: Add_def Let_def)

lemma Add_routesOf:
  assumes "Add d l u p r = Inr r'"
  shows "routesOf r' d' u' =
    (if d' = ToLower d \<and> u' = u
     then Some (sortRouters (current r (ToLower d) u @ [newRoute d l u p]))
     else routesOf r d' u')"
  using assms
  by (auto simp: Add_def Let_def current_def routesOf_def newRoute_def split: if_splits option.splits)

lemma Del_routesOf:
  "routesOf (Del d l u r) d' u' =
    (if d' = ToLower d \<and> u' = u
     then map_option (filter (\<lambda>v. rt_location v \<noteq> l)) (routesOf r d' u') else routesOf r d' u')"
  by (auto simp: Del_def Let_def routesOf_def split: option.splits)

lemma Add_ok:
  assumes ok: "routers_ok r" and add: "Add d l u p r = Inr r'"
  shows "routers_ok r'"
  unfolding routers_ok_def
proof (intro allI impI)
  fix d' u' vrs assume vrs: "routesOf r' d' u' = Some vrs"
  let ?old = "current r (ToLower d) u" and ?new = "newRoute d l u p"
  note old = routes_ok_current [OF ok, of "ToLower d" u]
  have "exist r (ToLower d) l u = None"
    using add Add_Inl [of d l u p r ErrRouterConfigConflict] by fastforce
  then have "l \<notin> rt_location ` set ?old"
    using exist_current [OF ok, of "ToLower d" l u] by auto
  with old have "distinct (map rt_location (?old @ [?new]))"
    by (auto simp: routes_ok_def sorted_desc_distinct)
  then have "sorted_wrt desc_loc (sortRouters (?old @ [?new]))"
    by (rule sorted_sortRouters)
  with old have "routes_ok (ToLower d) u (sortRouters (?old @ [?new]))"
    by (auto simp: routes_ok_def)
  with vrs show "routes_ok d' u' vrs"
    using routers_okD [OF ok] unfolding Add_routesOf [OF add] by (auto split: if_splits)
qed

lemma Del_ok: "routers_ok r \<Longrightarrow> routers_ok (Del d l u r)"
  unfolding routers_ok_def Del_routesOf
  by (auto simp: routes_ok_def sorted_wrt_filter)

section \<open>What the table promises its clients\<close>

text \<open>
  Abstractly the table is a partial function from domain, location and user to a payload. The HTTP
  groups and the muxers use \<open>Add\<close> and \<open>Del\<close> only through these laws.
\<close>

definition table :: "'p Routers \<Rightarrow> string \<times> string \<times> string \<rightharpoonup> 'p" where
  "table r = (\<lambda>(d, l, u). map_option rt_payload (exist r d l u))"

locale route_table =
  fixes add :: "string \<Rightarrow> string \<Rightarrow> string \<Rightarrow> 'p \<Rightarrow> 's \<Rightarrow> (router_error, 's) result"
    and del :: "string \<Rightarrow> string \<Rightarrow> string \<Rightarrow> 's \<Rightarrow> 's"
    and lookup :: "'s \<Rightarrow> string \<times> string \<times> string \<rightharpoonup> 'p"
    and norm :: "string \<Rightarrow> string"
    and good :: "'s \<Rightarrow> bool"
  assumes add_good: "good s \<Longrightarrow> add d l u p s = Inr s' \<Longrightarrow> good s'"
    and del_good: "good s \<Longrightarrow> good (del d l u s)"
    and add_lookup: "good s \<Longrightarrow> add d l u p s = Inr s' \<Longrightarrow> lookup s' = (lookup s)((norm d, l, u) \<mapsto> p)"
    and add_conflict: "good s \<Longrightarrow> add d l u p s = Inl e \<longleftrightarrow> lookup s (norm d, l, u) \<noteq> None"
    and del_lookup: "good s \<Longrightarrow> lookup (del d l u s) = (lookup s)((norm d, l, u) := None)"
begin

lemma add_Inr_iff: "good s \<Longrightarrow> (\<exists>s'. add d l u p s = Inr s') \<longleftrightarrow> lookup s (norm d, l, u) = None"
  using add_conflict [of s d l u p] by (cases "add d l u p s") auto

lemma add_del:
  assumes "good s" "add d l u p s = Inr s'"
  shows "lookup (del d l u s') = lookup s"
proof -
  have "lookup s (norm d, l, u) = None"
    using assms add_Inr_iff by blast
  then show ?thesis
    using assms add_lookup del_lookup [OF add_good] by (simp add: fun_eq_iff)
qed

lemma add_twice_conflicts:
  "good s \<Longrightarrow> add d l u p s = Inr s' \<Longrightarrow> norm d' = norm d \<Longrightarrow> \<exists>e. add d' l u q s' = Inl e"
  using add_Inr_iff [OF add_good, of s d l u p s' d' l u q] add_lookup [of s d l u p s']
  by (cases "add d' l u q s'") auto

end

lemma table_Some:
  "routers_ok r \<Longrightarrow> table r (d, l, u) = Some p \<longleftrightarrow>
     (\<exists>v \<in> set (current r d u). rt_location v = l \<and> rt_payload v = p)"
  by (auto simp: table_def exist_current)

lemma current_Add:
  "Add d l u p r = Inr r' \<Longrightarrow> set (current r' d' u') =
     (if d' = ToLower d \<and> u' = u then insert (newRoute d l u p) (set (current r d' u')) else set (current r d' u'))"
  by (cases "routesOf r d' u'") (auto simp: current_def [of r'] current_def [of r d' u'] Add_routesOf)

lemma current_Del:
  "set (current (Del d l u r) d' u') =
     (if d' = ToLower d \<and> u' = u then {v \<in> set (current r d' u'). rt_location v \<noteq> l} else set (current r d' u'))"
  by (cases "routesOf r d' u'") (auto simp: current_def Del_routesOf)

lemma map_eqI: "(\<And>k v. m k = Some v \<longleftrightarrow> m' k = Some v) \<Longrightarrow> m = m'"
  by (rule ext) (metis not_Some_eq)

lemma table_Add:
  assumes ok: "routers_ok r" and add: "Add d l u p r = Inr r'"
  shows "table r' = (table r)((ToLower d, l, u) \<mapsto> p)"
proof (rule map_eqI)
  fix k :: "string \<times> string \<times> string" and q
  obtain d' l' u' where k: "k = (d', l', u')" by (cases k)
  have free: "\<not> (\<exists>v \<in> set (current r (ToLower d) u). rt_location v = l)"
    using add Add_Inl [of d l u p r ErrRouterConfigConflict] exist_current [OF ok, of "ToLower d" l u]
    by fastforce
  show "table r' k = Some q \<longleftrightarrow> ((table r)((ToLower d, l, u) \<mapsto> p)) k = Some q"
    unfolding k table_Some [OF Add_ok [OF ok add]] current_Add [OF add] fun_upd_apply
    using free by (auto simp: table_Some [OF ok])
qed

lemma table_Del:
  assumes ok: "routers_ok r"
  shows "table (Del d l u r) = (table r)((ToLower d, l, u) := None)"
proof (rule map_eqI)
  fix k :: "string \<times> string \<times> string" and q
  obtain d' l' u' where k: "k = (d', l', u')" by (cases k)
  show "table (Del d l u r) k = Some q \<longleftrightarrow> ((table r)((ToLower d, l, u) := None)) k = Some q"
    unfolding k table_Some [OF Del_ok [OF ok]] current_Del fun_upd_apply
    by (auto simp: table_Some [OF ok])
qed

interpretation rt: route_table Add Del table ToLower routers_ok
proof (unfold_locales, goal_cases)
  case (4 s d l u p e)
  then show ?case by (auto simp: Add_Inl table_def)
qed (auto simp: Add_ok Del_ok table_Add table_Del)

section \<open>Lookup\<close>

text \<open>In a descending list the first location that is a prefix of the path is the longest one.\<close>

lemma find_longest_prefix:
  assumes "sorted_wrt desc_loc vrs" "find (\<lambda>v. prefix (rt_location v) path) vrs = Some v"
    "w \<in> set vrs" "prefix (rt_location w) path"
  shows "length (rt_location w) \<le> length (rt_location v)"
  using assms
proof (induction vrs)
  case (Cons x xs)
  show ?case
  proof (cases "prefix (rt_location x) path")
    case True
    with Cons.prems have "v = x" by simp
    moreover have "length (rt_location w) \<le> length (rt_location x)" if "w \<in> set xs"
    proof (rule ccontr)
      assume "\<not> ?thesis"
      then have "rt_location x < rt_location w"
        using prefix_less_if_shorter [OF True Cons.prems(4)] by simp
      with Cons.prems(1) that show False by (auto simp: desc_loc_def)
    qed
    ultimately show ?thesis using Cons.prems(3) by auto
  next
    case False
    with Cons show ?thesis by auto
  qed
qed simp

text \<open>The hosts a request is looked up under, most specific first.\<close>

fun wildcardHosts :: "string list \<Rightarrow> string list" where
  "wildcardHosts (a # b # c # rest) = Join CHR ''.'' (''*'' # b # c # rest) # wildcardHosts (b # c # rest)"
| "wildcardHosts hostSplit = []"

definition candidateHosts :: "string \<Rightarrow> string list" where
  "candidateHosts host = ToLower host # wildcardHosts (Split CHR ''.'' (ToLower host)) @ [''*'']"

fun firstSome :: "('a \<Rightarrow> 'b option) \<Rightarrow> 'a list \<Rightarrow> 'b option" where
  "firstSome f [] = None"
| "firstSome f (x # xs) = (case f x of Some y \<Rightarrow> Some y | None \<Rightarrow> firstSome f xs)"

lemma firstSome_append:
  "firstSome f (xs @ ys) = (case firstSome f xs of Some y \<Rightarrow> Some y | None \<Rightarrow> firstSome f ys)"
  by (induction xs) (auto split: option.splits)

lemma wildcardWalk_firstSome: "wildcardWalk f hs = firstSome f (wildcardHosts hs)"
  by (induction f hs rule: wildcardWalk.induct) (auto split: option.splits)

lemma getByRoute_firstSome:
  "getByRoute r host path u = firstSome (\<lambda>h. getExactOrAllUsersLocked r h path u) (candidateHosts host)"
  by (simp add: getByRoute_def candidateHosts_def Let_def wildcardWalk_firstSome firstSome_append
      split: option.splits)

lemma firstSome_Some_split:
  "firstSome f xs = Some y \<longleftrightarrow> (\<exists>as x bs. xs = as @ x # bs \<and> (\<forall>a \<in> set as. f a = None) \<and> f x = Some y)"
proof (induction xs)
  case (Cons x xs)
  show ?case
  proof (cases "f x")
    case None
    with Cons show ?thesis
      by (auto simp: Cons_eq_append_conv) (metis append_Cons set_ConsD)+
  next
    case (Some z)
    then show ?thesis by (fastforce simp: Cons_eq_append_conv intro: exI [of _ "[]"])
  qed
qed simp

lemma firstSome_None: "firstSome f xs = None \<longleftrightarrow> (\<forall>x \<in> set xs. f x = None)"
  by (induction xs) (auto split: option.splits)

text \<open>A request path matches a domain and user when some registered location is a prefix of it.\<close>

definition route_matches :: "'p Routers \<Rightarrow> string \<Rightarrow> string \<Rightarrow> string \<Rightarrow> bool" where
  "route_matches r h path u \<longleftrightarrow> (\<exists>l p. table r (h, l, u) = Some p \<and> prefix l path)"

lemma getLocked_current:
  "getLocked r h path u = find (\<lambda>v. prefix (rt_location v) path) (current r h u)"
  by (simp add: getLocked_def current_def split: option.splits)

lemma getLocked_Some:
  assumes ok: "routers_ok r" and v: "getLocked r h path u = Some v"
  shows "rt_domain v = h \<and> rt_httpUser v = u \<and> table r (h, rt_location v, u) = Some (rt_payload v) \<and>
         prefix (rt_location v) path"
  using v routes_ok_current [OF ok, of h u]
  by (auto simp: getLocked_current table_Some [OF ok] routes_ok_def dest!: find_prop)

lemma getLocked_None:
  "routers_ok r \<Longrightarrow> getLocked r h path u = None \<longleftrightarrow> \<not> route_matches r h path u"
  by (auto simp: getLocked_current find_None_iff route_matches_def table_Some)

lemma getLocked_longest:
  assumes ok: "routers_ok r" and v: "getLocked r h path u = Some v"
    and t: "table r (h, l, u) = Some p" "prefix l path"
  shows "length l \<le> length (rt_location v)"
proof -
  from t obtain w where "w \<in> set (current r h u)" "rt_location w = l"
    by (auto simp: table_Some [OF ok])
  with find_longest_prefix [of "current r h u" path v w] routes_ok_current [OF ok, of h u] v t(2)
  show ?thesis by (auto simp: getLocked_current routes_ok_def)
qed

lemma getExact_Some:
  assumes ok: "routers_ok r" and v: "getExactOrAllUsersLocked r h path u = Some v"
  shows "rt_domain v = h \<and> prefix (rt_location v) path \<and>
         rt_httpUser v = (if route_matches r h path u then u else []) \<and>
         table r (h, rt_location v, rt_httpUser v) = Some (rt_payload v)"
proof (cases "getLocked r h path u")
  case None
  with v have "getLocked r h path [] = Some v" by (simp add: getExactOrAllUsersLocked_def)
  with getLocked_Some [OF ok this] None getLocked_None [OF ok, of h path u] show ?thesis by simp
next
  case (Some w)
  with v have "getLocked r h path u = Some v" by (simp add: getExactOrAllUsersLocked_def)
  with getLocked_Some [OF ok this] Some getLocked_None [OF ok, of h path u] show ?thesis by simp
qed

lemma getExact_None:
  "routers_ok r \<Longrightarrow> getExactOrAllUsersLocked r h path u = None \<longleftrightarrow>
     \<not> route_matches r h path u \<and> \<not> route_matches r h path []"
  using getLocked_None [of r h path u] getLocked_None [of r h path "[]"]
  by (auto simp: getExactOrAllUsersLocked_def split: option.splits)

section \<open>Properties\<close>

text \<open>The tables a server can build: any sequence of \<open>Add\<close> and \<open>Del\<close> calls from the empty one.\<close>

inductive routers_reachable :: "'p Routers \<Rightarrow> bool" where
  init: "routers_reachable NewRouters"
| add: "routers_reachable r \<Longrightarrow> Add d l u p r = Inr r' \<Longrightarrow> routers_reachable r'"
| del: "routers_reachable r \<Longrightarrow> routers_reachable (Del d l u r)"

lemma routers_reachable_ok: "routers_reachable r \<Longrightarrow> routers_ok r"
  by (induction rule: routers_reachable.induct) (auto intro: routers_ok_New rt.add_good rt.del_good)

definition demo_routers1 :: "nat Routers" where
  "demo_routers1 = \<lparr>indexByDomain = [''*.example.com'' \<mapsto> [[] \<mapsto>
      [\<lparr>rt_domain = ''*.example.com'', rt_location = ''/'', rt_httpUser = [], rt_payload = 1\<rparr>]]]\<rparr>"

definition demo_routers :: "nat Routers" where
  "demo_routers = \<lparr>indexByDomain =
   [''*.example.com'' \<mapsto> [[] \<mapsto>
      [\<lparr>rt_domain = ''*.example.com'', rt_location = ''/api'', rt_httpUser = [], rt_payload = 2\<rparr>,
       \<lparr>rt_domain = ''*.example.com'', rt_location = ''/'', rt_httpUser = [], rt_payload = 1\<rparr>]]]\<rparr>"

lemmas lower_defs = ToLower_def char_lower_def char_of_def bit_0

lemmas route_defs = Add_def exist_def routesOf_def sortRouters_def Let_def lower_defs NewRouters_def

lemma demo_add1: "Add ''*.Example.com'' ''/'' [] 1 NewRouters = Inr demo_routers1"
  by (simp add: demo_routers1_def route_defs)

lemma demo_add2: "Add ''*.example.com'' ''/api'' [] 2 demo_routers1 = Inr demo_routers"
  by (simp add: demo_routers1_def demo_routers_def route_defs)

lemma demo_routers_reachable: "routers_reachable demo_routers"
  by (rule routers_reachable.add [OF routers_reachable.add [OF routers_reachable.init demo_add1] demo_add2])

text \<open>
  C17: The routing table refines a partial function. In every table built by \<open>Add\<close> and \<open>Del\<close>, \<open>Add\<close>
  fails with a conflict exactly when the same domain (up to case), location and user are already
  registered, otherwise it adds that one entry and changes no other; \<open>Del\<close> removes exactly that entry.
\<close>

theorem router_refines_map:
  assumes "routers_reachable r"
  shows "(Add d l u p r = Inl ErrRouterConfigConflict \<longleftrightarrow> table r (ToLower d, l, u) \<noteq> None) \<and>
         (\<forall>r'. Add d l u p r = Inr r' \<longrightarrow> table r' = (table r)((ToLower d, l, u) \<mapsto> p)) \<and>
         table (Del d l u r) = (table r)((ToLower d, l, u) := None)"
  using routers_reachable_ok [OF assms] by (auto simp: rt.add_conflict rt.del_lookup dest: rt.add_lookup)

theorem router_refines_map_witness:
  "routers_reachable demo_routers \<and>
   Add ''*.EXAMPLE.com'' ''/api'' [] 9 demo_routers = Inl ErrRouterConfigConflict \<and>
   table (Del ''*.example.com'' ''/api'' [] demo_routers) = (table demo_routers)((''*.example.com'', ''/api'', []) := None)"
proof -
  have "ToLower ''*.EXAMPLE.com'' = ''*.example.com''" "ToLower ''*.example.com'' = ''*.example.com''"
    by (simp_all add: lower_defs)
  moreover have "table demo_routers (''*.example.com'', ''/api'', []) \<noteq> None"
    by (simp add: table_def exist_def routesOf_def demo_routers_def)
  ultimately show ?thesis
    using router_refines_map [OF demo_routers_reachable, of "''*.EXAMPLE.com''" "''/api''" "[]" 9]
      router_refines_map [OF demo_routers_reachable, of "''*.example.com''" "''/api''" "[]" 9]
      demo_routers_reachable by simp
qed

text \<open>
  C8: Location matching is longest-prefix. For a host and user, the lookup finds a route exactly when
  some registered location is a prefix of the path, and the route it returns is registered, matches,
  and has the longest matching location, whatever the order of registration was.
\<close>

theorem longest_location_wins:
  assumes "routers_reachable r"
  shows "(getLocked r h path u = None \<longleftrightarrow> \<not> (\<exists>l p. table r (h, l, u) = Some p \<and> prefix l path)) \<and>
         (\<forall>v. getLocked r h path u = Some v \<longrightarrow>
            table r (h, rt_location v, u) = Some (rt_payload v) \<and> prefix (rt_location v) path \<and>
            (\<forall>l p. table r (h, l, u) = Some p \<and> prefix l path \<longrightarrow> length l \<le> length (rt_location v)))"
  using getLocked_None [OF routers_reachable_ok [OF assms], of h path u]
    getLocked_Some [OF routers_reachable_ok [OF assms], of h path u]
    getLocked_longest [OF routers_reachable_ok [OF assms], of h path u]
  by (auto simp: route_matches_def)

theorem longest_location_wins_witness:
  "map_option rt_payload (getLocked demo_routers ''*.example.com'' ''/api/v1'' []) = Some 2 \<and>
   table demo_routers (''*.example.com'', ''/api'', []) = Some 2 \<and>
   table demo_routers (''*.example.com'', ''/'', []) = Some 1 \<and> prefix ''/'' ''/api/v1'' \<and> prefix ''/api'' ''/api/v1''"
proof -
  have "getLocked demo_routers ''*.example.com'' ''/api/v1'' [] =
      Some \<lparr>rt_domain = ''*.example.com'', rt_location = ''/api'', rt_httpUser = [], rt_payload = 2\<rparr>"
    by (simp add: getLocked_def routesOf_def demo_routers_def)
  moreover have "table demo_routers (''*.example.com'', ''/'', []) = Some 1"
    by (simp add: table_def exist_def routesOf_def demo_routers_def)
  ultimately show ?thesis
    using longest_location_wins [OF demo_routers_reachable, of "''*.example.com''" "''/api/v1''" "[]"]
    by simp
qed

text \<open>
  C18: Request routing has the documented precedence. The route returned for a host, path and user is
  registered under the first host of the candidate list (the host itself, then \<open>*.\<close> followed by ever
  shorter suffixes of at least two labels, then \<open>*\<close>) that has any matching route, either for
  that user or for all users; a route for the user itself is preferred to one for all users. Nothing is
  returned only when no candidate has a match.
\<close>

theorem route_precedence:
  assumes "routers_reachable r"
  shows "(getByRoute r host path u = None \<longleftrightarrow>
            (\<forall>h \<in> set (candidateHosts host). \<not> route_matches r h path u \<and> \<not> route_matches r h path [])) \<and>
         (\<forall>v. getByRoute r host path u = Some v \<longrightarrow>
            (\<exists>as h bs. candidateHosts host = as @ h # bs \<and>
               (\<forall>a \<in> set as. \<not> route_matches r a path u \<and> \<not> route_matches r a path []) \<and>
               rt_domain v = h \<and> prefix (rt_location v) path \<and>
               rt_httpUser v = (if route_matches r h path u then u else []) \<and>
               table r (h, rt_location v, rt_httpUser v) = Some (rt_payload v)))"
proof -
  note ok = routers_reachable_ok [OF assms]
  show ?thesis
    unfolding getByRoute_firstSome firstSome_None firstSome_Some_split getExact_None [OF ok]
    using getExact_Some [OF ok, of _ path u] by blast
qed

theorem route_precedence_witness:
  "map_option rt_payload (getByRoute demo_routers ''A.b.example.com'' ''/x'' ''bob'') = Some 1 \<and>
   candidateHosts ''A.b.example.com'' =
     [''a.b.example.com'', ''*.b.example.com'', ''*.example.com'', ''*''] \<and>
   \<not> route_matches demo_routers ''a.b.example.com'' ''/x'' []"
proof -
  have c: "candidateHosts ''A.b.example.com'' =
     [''a.b.example.com'', ''*.b.example.com'', ''*.example.com'', ''*'']"
    by (simp add: candidateHosts_def lower_defs)
  let ?v = "\<lparr>rt_domain = ''*.example.com'', rt_location = ''/'', rt_httpUser = [], rt_payload = 1\<rparr>"
  have v: "getByRoute demo_routers ''A.b.example.com'' ''/x'' ''bob'' = Some ?v"
    by (simp add: getByRoute_firstSome c getExactOrAllUsersLocked_def getLocked_def routesOf_def demo_routers_def)
  from route_precedence [OF demo_routers_reachable, of "''A.b.example.com''" "''/x''" "''bob''"] v
  obtain as h bs where "candidateHosts ''A.b.example.com'' = as @ h # bs" "h = ''*.example.com''"
    "\<forall>a \<in> set as. \<not> route_matches demo_routers a ''/x'' []" by auto
  then have "\<not> route_matches demo_routers ''a.b.example.com'' ''/x'' []"
    unfolding c by (cases as) auto
  with v c show ?thesis by simp
qed

end
