(* ===== verification/Mux_Group.thy ===== *)
theory Mux_Group
  imports Listener_Group Routers
begin

text \<open>
  Listeners that share one port by host name: the muxer of \<open>pkg/util/vhost/vhost.go\<close>, and the groups built on
  it for HTTPS (\<open>server/group/https.go\<close>) and for tunnels opened by HTTP CONNECT (\<open>server/group/tcpmux.go\<close>).
  The muxer keeps its listeners in a routing table. The functions that parse the first bytes of a
  connection, check credentials and answer the peer are arguments of the model.
\<close>

section \<open>The muxer\<close>

text \<open>The settings of a route; the connection functions of \<open>RouteConfig\<close> do not matter for routing.\<close>

record RouteConfig =
  rc_Domain :: string
  rc_Location :: string
  rc_RewriteHost :: string
  rc_Username :: string
  rc_Password :: string
  rc_RouteByHTTPUser :: string

record MuxListener =
  ml_name :: string
  ml_location :: string
  ml_routeByHTTPUser :: string
  ml_rewriteHost :: string
  ml_username :: string
  ml_password :: string

definition muxListener :: "RouteConfig \<Rightarrow> MuxListener" where
  "muxListener cfg = \<lparr>ml_name = rc_Domain cfg, ml_location = rc_Location cfg, ml_routeByHTTPUser = rc_RouteByHTTPUser cfg,
     ml_rewriteHost = rc_RewriteHost cfg, ml_username = rc_Username cfg, ml_password = rc_Password cfg\<rparr>"

definition muxListen :: "RouteConfig \<Rightarrow> MuxListener Routers \<Rightarrow> (router_error, MuxListener) result \<times> MuxListener Routers" where
  "muxListen cfg r =
     (case Add (rc_Domain cfg) (rc_Location cfg) (rc_RouteByHTTPUser cfg) (muxListener cfg) r of
        Inl e \<Rightarrow> (Inl e, r) | Inr r' \<Rightarrow> (Inr (muxListener cfg), r'))"

definition muxLnClose :: "MuxListener \<Rightarrow> MuxListener Routers \<Rightarrow> MuxListener Routers" where
  "muxLnClose l r = Del (ml_name l) (ml_location l) (ml_routeByHTTPUser l) r"

definition getListener :: "string \<Rightarrow> string \<Rightarrow> string \<Rightarrow> MuxListener Routers \<Rightarrow> MuxListener option" where
  "getListener name path httpUser r = map_option rt_payload (getByRoute r name path httpUser)"

text \<open>What becomes of an accepted connection.\<close>

datatype mux_outcome = NoVhostInfo | NotFound | HookFailed | AuthFailed | Delivered MuxListener

text \<open>
  \<open>info\<close> is what \<open>vhostFunc\<close> read from the connection (host, path, user), \<open>hookOk\<close> the answer of the success hook,
  \<open>checkAuth\<close> the function that checks credentials, if one is set. Failing deadlines only close the connection.
\<close>

definition muxHandle ::
  "(string \<times> string \<times> string) option \<Rightarrow> bool \<Rightarrow> (string \<Rightarrow> string \<Rightarrow> bool) option \<Rightarrow> MuxListener Routers \<Rightarrow> mux_outcome" where
  "muxHandle info hookOk checkAuth r =
     (case info of None \<Rightarrow> NoVhostInfo
      | Some (host, path0, httpUser) \<Rightarrow>
          let name = ToLower host; path = ToLower path0
          in case getListener name path httpUser r of None \<Rightarrow> NotFound
             | Some l \<Rightarrow>
                 if \<not> hookOk then HookFailed
                 else if (case checkAuth of Some check \<Rightarrow> ml_username l \<noteq> [] \<and> \<not> check (ml_username l) (ml_password l)
                          | None \<Rightarrow> False)
                 then AuthFailed else Delivered l)"

section \<open>Groups over a muxer\<close>

text \<open>The real listener of a group is a listener of the muxer.\<close>

definition muxOpen :: "unit \<Rightarrow> string \<Rightarrow> RouteConfig \<Rightarrow> MuxListener Routers \<Rightarrow>
    (router_error, MuxListener) result \<times> MuxListener Routers" where
  "muxOpen e proxyName cfg r = muxListen cfg r"

definition muxClose :: "go_time \<Rightarrow> MuxListener \<Rightarrow> MuxListener Routers \<Rightarrow> MuxListener Routers" where
  "muxClose now l r = muxLnClose l r"

definition httpsJoinErr :: "RouteConfig \<Rightarrow> RouteConfig \<Rightarrow> router_error group_error option" where
  "httpsJoinErr cur new = (if rc_Domain cur \<noteq> rc_Domain new then Some ErrGroupParamsInvalid else None)"

definition tcpMuxJoinErr :: "RouteConfig \<Rightarrow> RouteConfig \<Rightarrow> router_error group_error option" where
  "tcpMuxJoinErr cur new =
     (if rc_Domain cur \<noteq> rc_Domain new \<or> rc_RouteByHTTPUser cur \<noteq> rc_RouteByHTTPUser new \<or>
         rc_Username cur \<noteq> rc_Username new \<or> rc_Password cur \<noteq> rc_Password new
      then Some ErrGroupParamsInvalid else None)"

type_synonym MuxGroupCtl = "(RouteConfig, MuxListener, MuxListener Routers) GroupCtl"

definition httpsGroupListen :: "string \<Rightarrow> string \<Rightarrow> RouteConfig \<Rightarrow> gid \<Rightarrow> MuxGroupCtl \<Rightarrow>
    (router_error group_error, nat) result \<times> MuxGroupCtl" where
  "httpsGroupListen grp groupKey cfg = groupListen muxOpen httpsJoinErr () [] grp groupKey cfg"

definition httpsCtlListen :: "(MuxGroupCtl \<Rightarrow> MuxGroupCtl) list \<Rightarrow> string \<Rightarrow> string \<Rightarrow> RouteConfig \<Rightarrow> MuxGroupCtl \<Rightarrow>
    (router_error group_error, nat) result \<times> MuxGroupCtl" where
  "httpsCtlListen fs grp groupKey cfg = ctlListen muxOpen httpsJoinErr fs () [] grp groupKey cfg"

definition HTTPConnectListen :: "string \<Rightarrow> string \<Rightarrow> RouteConfig \<Rightarrow> gid \<Rightarrow> MuxGroupCtl \<Rightarrow>
    (router_error group_error, nat) result \<times> MuxGroupCtl" where
  "HTTPConnectListen grp groupKey cfg = groupListen muxOpen tcpMuxJoinErr () [] grp groupKey cfg"

text \<open>An unknown multiplexer is refused, after the group has been looked up.\<close>

definition tcpMuxCtlListen :: "(MuxGroupCtl \<Rightarrow> MuxGroupCtl) list \<Rightarrow> string \<Rightarrow> string \<Rightarrow> string \<Rightarrow> RouteConfig \<Rightarrow> MuxGroupCtl \<Rightarrow>
    (router_error group_error, nat) result option \<times> MuxGroupCtl" where
  "tcpMuxCtlListen fs multiplexer grp groupKey cfg s =
     (if multiplexer = ''httpconnect''
      then map_prod Some id (ctlListen muxOpen tcpMuxJoinErr fs () [] grp groupKey cfg s)
      else (None, snd (lookupGroup grp s)))"

definition muxGroupLnClose :: "nat \<Rightarrow> MuxGroupCtl \<Rightarrow> MuxGroupCtl" where
  "muxGroupLnClose ln = lnClose muxClose 0 ln"

section \<open>The muxer provides real listeners\<close>

definition muxKey :: "MuxListener \<Rightarrow> string \<times> string \<times> string" where
  "muxKey l = (ToLower (ml_name l), ml_location l, ml_routeByHTTPUser l)"

definition routeHeld :: "MuxListener Routers \<Rightarrow> string \<times> string \<times> string \<Rightarrow> bool" where
  "routeHeld r k \<longleftrightarrow> table r k \<noteq> None"

lemma muxKey_muxListener: "muxKey (muxListener cfg) = (ToLower (rc_Domain cfg), rc_Location cfg, rc_RouteByHTTPUser cfg)"
  by (simp add: muxKey_def muxListener_def)

lemma muxListen_ok:
  assumes "routers_ok r" "muxListen cfg r = (Inr l, r')"
  shows "l = muxListener cfg" "table r (muxKey l) = None" "table r' = (table r)(muxKey l \<mapsto> l)" "routers_ok r'"
proof -
  have add: "Add (rc_Domain cfg) (rc_Location cfg) (rc_RouteByHTTPUser cfg) (muxListener cfg) r = Inr r'"
    and l: "l = muxListener cfg"
    using assms(2) by (auto simp: muxListen_def split: sum.splits)
  show "l = muxListener cfg" by (rule l)
  show "routers_ok r'" by (rule rt.add_good [OF assms(1) add])
  show "table r (muxKey l) = None"
    using rt.add_Inr_iff [OF assms(1), of "rc_Domain cfg" "rc_Location cfg" "rc_RouteByHTTPUser cfg" "muxListener cfg"] add
    by (simp add: l muxKey_muxListener)
  show "table r' = (table r)(muxKey l \<mapsto> l)"
    using rt.add_lookup [OF assms(1) add] by (simp add: l muxKey_muxListener)
qed

lemma muxListen_fail: "muxListen cfg r = (Inl e, r') \<Longrightarrow> r' = r"
  by (auto simp: muxListen_def split: sum.splits)

lemma table_muxLnClose: "routers_ok r \<Longrightarrow> table (muxLnClose l r) = (table r)(muxKey l := None)"
  by (simp add: muxLnClose_def rt.del_lookup muxKey_def)

lemma mux_resource: "listener_resource muxOpen muxClose muxKey routeHeld routers_ok (\<lambda>_ _. True)"
proof
  fix e n c x and r r' :: "MuxListener Routers"
  assume *: "routers_ok r" "muxOpen e n c r = (x, r')"
  then show "routers_ok r'"
    using muxListen_ok(4) muxListen_fail by (cases x) (fastforce simp: muxOpen_def)+
next
  fix e n c h and r r' :: "MuxListener Routers"
  assume *: "routers_ok r" "muxOpen e n c r = (Inr h, r')"
  then have "muxListen c r = (Inr h, r')" by (simp add: muxOpen_def)
  from muxListen_ok [OF *(1) this] show "\<not> routeHeld r (muxKey h) \<and> routeHeld r' = (routeHeld r)(muxKey h := True)"
    by (auto simp: routeHeld_def fun_eq_iff)
next
  fix e n c err and r r' :: "MuxListener Routers"
  assume "muxOpen e n c r = (Inl err, r')"
  then show "routeHeld r' = routeHeld r" by (auto simp: muxOpen_def dest: muxListen_fail)
next
  fix t h and r :: "MuxListener Routers" assume r: "routers_ok r"
  show "routers_ok (muxClose t h r)" using r by (simp add: muxClose_def muxLnClose_def rt.del_good)
  show "routeHeld (muxClose t h r) = (routeHeld r)(muxKey h := False)"
    using table_muxLnClose [OF r, of h] by (auto simp: routeHeld_def muxClose_def fun_eq_iff)
qed

interpretation hg: listener_resource muxOpen muxClose httpsJoinErr muxKey routeHeld routers_ok "\<lambda>_ _. True"
  by (rule mux_resource)

interpretation mg: listener_resource muxOpen muxClose tcpMuxJoinErr muxKey routeHeld routers_ok "\<lambda>_ _. True"
  by (rule mux_resource)

section \<open>Properties\<close>

inductive mux_reachable :: "MuxListener Routers \<Rightarrow> bool" where
  init: "mux_reachable NewRouters"
| listen: "mux_reachable r \<Longrightarrow> mux_reachable (snd (muxListen cfg r))"
| close: "mux_reachable r \<Longrightarrow> mux_reachable (muxLnClose l r)"

lemma muxListen_cases:
  obtains e where "muxListen cfg r = (Inl e, r)" | r' where "muxListen cfg r = (Inr (muxListener cfg), r')"
  by (cases "Add (rc_Domain cfg) (rc_Location cfg) (rc_RouteByHTTPUser cfg) (muxListener cfg) r") (auto simp: muxListen_def)

lemma mux_reachable_inv: "mux_reachable r \<Longrightarrow> routers_ok r \<and> (\<forall>k l. table r k = Some l \<longrightarrow> muxKey l = k)"
proof (induction rule: mux_reachable.induct)
  case init
  then show ?case using routers_ok_New by (auto simp: table_def exist_def routesOf_def NewRouters_def)
next
  case (listen r cfg)
  then show ?case
    using muxListen_ok(3,4) by (cases rule: muxListen_cases [of cfg r]) (fastforce split: if_splits)+
next
  case (close r l)
  then show ?case using table_muxLnClose [of r l] rt.del_good by (auto simp: muxLnClose_def split: if_splits)
qed

lemma getListener_Some:
  assumes ok: "routers_ok r" and l: "getListener name path httpUser r = Some l"
  obtains h loc u where "table r (h, loc, u) = Some l" "h \<in> set (candidateHosts name)" "prefix loc path" "u = httpUser \<or> u = []"
proof -
  obtain v where v: "getByRoute r name path httpUser = Some v" "l = rt_payload v" using l by (auto simp: getListener_def)
  obtain as h bs where h: "candidateHosts name = as @ h # bs" "getExactOrAllUsersLocked r h path httpUser = Some v"
    using v(1) unfolding getByRoute_firstSome firstSome_Some_split by blast
  show thesis
    using getExact_Some [OF ok h(2)] v(2) h(1) by (intro that [of h "rt_location v" "rt_httpUser v"]) auto
qed

definition demo_route :: RouteConfig where
  "demo_route = \<lparr>rc_Domain = ''a.Example.com'', rc_Location = [], rc_RewriteHost = [], rc_Username = ''bob'',
     rc_Password = ''pw'', rc_RouteByHTTPUser = []\<rparr>"

definition demo_mux :: "MuxListener Routers" where
  "demo_mux = snd (muxListen demo_route NewRouters)"

lemma demo_mux_reachable: "mux_reachable demo_mux"
  unfolding demo_mux_def by (intro mux_reachable.intros)

lemma demo_mux_handle:
  "muxHandle (Some (''A.example.com'', ''/x'', ''bob'')) True (Some (\<lambda>u p. u = ''bob'' \<and> p = ''pw'')) demo_mux =
     Delivered (muxListener demo_route)"
  by (simp add: demo_mux_def muxListen_def demo_route_def route_defs muxListener_def muxHandle_def getListener_def
      getByRoute_def getExactOrAllUsersLocked_def getLocked_def)

text \<open>
  C22: The muxer delivers a connection only to a listener that is registered for it and that accepts its
  credentials. If a connection is delivered, the listener is in the table under its own lower-cased
  domain, which is one of the candidates for the requested host; its location is a prefix of the lower-cased
  path; it is registered for the user of the connection or for all users; and if the listener has a user name
  and a check is installed, the check has accepted its user name and password.
\<close>

theorem mux_delivery:
  assumes "mux_reachable r" "muxHandle (Some (host, path, httpUser)) hookOk checkAuth r = Delivered l"
  shows "table r (ToLower (ml_name l), ml_location l, ml_routeByHTTPUser l) = Some l \<and>
    ToLower (ml_name l) \<in> set (candidateHosts (ToLower host)) \<and> prefix (ml_location l) (ToLower path) \<and>
    ml_routeByHTTPUser l \<in> {httpUser, []} \<and>
    (\<forall>check. checkAuth = Some check \<and> ml_username l \<noteq> [] \<longrightarrow> check (ml_username l) (ml_password l))"
proof -
  note inv = mux_reachable_inv [OF assms(1)]
  have "getListener (ToLower host) (ToLower path) httpUser r = Some l"
    and auth: "\<forall>check. checkAuth = Some check \<and> ml_username l \<noteq> [] \<longrightarrow> check (ml_username l) (ml_password l)"
    using assms(2) by (auto simp: muxHandle_def Let_def split: option.splits if_splits)
  then obtain h loc u where t: "table r (h, loc, u) = Some l" and
    *: "h \<in> set (candidateHosts (ToLower host))" "prefix loc (ToLower path)" "u = httpUser \<or> u = []"
    using getListener_Some inv by metis
  have "(h, loc, u) = (ToLower (ml_name l), ml_location l, ml_routeByHTTPUser l)"
    using inv t by (auto simp: muxKey_def)
  with t * auth show ?thesis by auto
qed

theorem mux_delivery_witness:
  "table demo_mux (''a.example.com'', [], []) = Some (muxListener demo_route) \<and> prefix [] ''/x''"
  using mux_delivery [OF demo_mux_reachable demo_mux_handle] by (simp add: muxListener_def demo_route_def lower_defs)

text \<open>The states of the HTTPS and the HTTP CONNECT groups under any interleaving of calls.\<close>

abbreviation https_reachable :: "MuxGroupCtl \<Rightarrow> bool" where
  "https_reachable \<equiv> grp_reachable muxOpen muxClose httpsJoinErr muxKey routeHeld routers_ok (\<lambda>_ _. True)"

abbreviation tcpmux_reachable :: "MuxGroupCtl \<Rightarrow> bool" where
  "tcpmux_reachable \<equiv> grp_reachable muxOpen muxClose tcpMuxJoinErr muxKey routeHeld routers_ok (\<lambda>_ _. True)"

definition demo_https :: MuxGroupCtl where
  "demo_https = snd (httpsGroupListen ''g'' ''k'' demo_route 0 (snd (lookupGroup ''g'' (newGroupCtl NewRouters))))"

lemma demo_https_reachable: "https_reachable demo_https"
proof -
  have "https_reachable (snd (lookupGroup ''g'' (newGroupCtl NewRouters)))"
    by (rule grp_reachable.step [OF grp_reachable.init [where good = routers_ok, OF routers_ok_New] grp_step.lookup])
  then show ?thesis
    unfolding demo_https_def httpsGroupListen_def by (rule grp_reachable.step [OF _ grp_step.listen]) simp
qed

lemma demo_https_eq:
  "gc_heap demo_https 0 = Some \<lparr>gr_group = ''g'', gr_groupKey = ''k'', gr_cfg = Some demo_route,
     gr_real = Some (muxListener demo_route), gr_lns = [0], gr_acceptClosed = False\<rparr>"
  by (simp add: demo_https_def httpsGroupListen_def groupListen_def lookupGroup_def getOrCreate_def newGroupCtl_def newGroup_def
      muxOpen_def muxListen_def initBase_def newListener_def demo_route_def muxListener_def route_defs)

text \<open>
  An HTTPS or HTTP CONNECT group holds its route as long as it has listeners. In every reachable state the
  route of such a group is in the muxer's table, no other group with listeners has the same route, and
  closing the last listener takes exactly this route out of the table.
\<close>

theorem mux_group_holds_route:
  assumes "https_reachable s \<or> tcpmux_reachable s" "gc_heap s gid = Some g" "gr_lns g \<noteq> []"
  shows "\<exists>l. gr_real g = Some l \<and> table (gc_res s) (muxKey l) \<noteq> None \<and>
    (\<forall>b g' l'. gc_heap s b = Some g' \<and> gr_lns g' \<noteq> [] \<and> gr_real g' = Some l' \<and> muxKey l' = muxKey l \<longrightarrow> b = gid) \<and>
    (\<forall>ln. gr_lns g = [ln] \<longrightarrow> (\<forall>k. table (gc_res (muxGroupLnClose ln s)) k \<noteq> None \<longleftrightarrow> k \<noteq> muxKey l \<and> table (gc_res s) k \<noteq> None))"
proof -
  have inv: "grp_inv muxKey routeHeld routers_ok s"
    using assms(1) hg.grp_reachable_inv mg.grp_reachable_inv by blast
  obtain l where l: "gr_real g = Some l" "routeHeld (gc_res s) (muxKey l)"
      "\<And>b g' l'. gc_heap s b = Some g' \<Longrightarrow> gr_lns g' \<noteq> [] \<Longrightarrow> gr_real g' = Some l' \<Longrightarrow> muxKey l' = muxKey l \<Longrightarrow> b = gid"
    using hg.live_group [OF inv assms(2,3)] by metis
  have "table (gc_res (muxGroupLnClose ln s)) k \<noteq> None \<longleftrightarrow> k \<noteq> muxKey l \<and> table (gc_res s) k \<noteq> None"
    if ln: "gr_lns g = [ln]" for ln k
  proof -
    have "routeHeld (gc_res (muxGroupLnClose ln s)) = (routeHeld (gc_res s))(muxKey l := False)"
      using hg.close_last [OF inv assms(2) ln, of 0] l(1) unfolding muxGroupLnClose_def by (metis option.inject)
    from fun_cong [OF this, of k] show ?thesis by (simp add: routeHeld_def split: if_splits)
  qed
  with l show ?thesis by (auto simp: routeHeld_def)
qed

theorem mux_group_holds_route_witness: "table (gc_res demo_https) (''a.example.com'', [], []) \<noteq> None"
  using mux_group_holds_route [OF disjI1 [OF demo_https_reachable] demo_https_eq]
  by (simp add: muxKey_muxListener) (simp add: demo_route_def lower_defs)

end
