(* ===== verification/Http_Group.thy ===== *)
theory Http_Group
  imports Listener_Group Routers "HOL-Library.Word"
begin

text \<open>
  HTTP groups (\<open>server/group/http.go\<close>): proxies that name the same group share one route of the HTTP routing
  table, whose requests go to them in turn. As for the listener groups, callers keep pointers to groups, so
  the groups live in a heap. A connection function is a value of the parameter type; the table is
  shared with routes that do not belong to groups.
\<close>

section \<open>Groups\<close>

text \<open>Where a route of the table leads: to the functions of a group, or to something else.\<close>

datatype route_target = ToGroup gid | ToOther nat

record 'f HTTPGroup =
  hg_group :: string
  hg_groupKey :: string
  hg_domain :: string
  hg_location :: string
  hg_routeByHTTPUser :: string
  hg_createFuncs :: "string \<rightharpoonup> 'f"
  hg_pxyNames :: "string list"
  hg_index :: "64 word"

record 'f HTTPGroupController =
  hc_groups :: "string \<rightharpoonup> gid"
  hc_heap :: "gid \<rightharpoonup> 'f HTTPGroup"
  hc_next :: gid
  hc_router :: "route_target Routers"

definition NewHTTPGroup :: "'f HTTPGroup" where
  "NewHTTPGroup = \<lparr>hg_group = [], hg_groupKey = [], hg_domain = [], hg_location = [], hg_routeByHTTPUser = [],
     hg_createFuncs = Map.empty, hg_pxyNames = [], hg_index = 0\<rparr>"

definition NewHTTPGroupController :: "route_target Routers \<Rightarrow> 'f HTTPGroupController" where
  "NewHTTPGroupController r = \<lparr>hc_groups = Map.empty, hc_heap = Map.empty, hc_next = 0, hc_router = r\<rparr>"

datatype http_group_error = HgStale | HgRoute router_error | HgParamsInvalid | HgAuthFailed | HgRepeated

text \<open>The part of the route configuration a group compares, with the proxy's connection function.\<close>

record 'f group_route =
  gr_domain :: string
  gr_location :: string
  gr_user :: string
  gr_createConn :: 'f

definition hcLookup :: "string \<Rightarrow> 'f HTTPGroupController \<Rightarrow> gid \<times> 'f HTTPGroupController" where
  "hcLookup grp s =
     (case getOrCreate grp (hc_next s) (hc_groups s) of
        (gid, groups) \<Rightarrow>
          if hc_groups s grp = None
          then (gid, s\<lparr>hc_groups := groups, hc_heap := (hc_heap s)(gid \<mapsto> NewHTTPGroup), hc_next := hc_next s + 1\<rparr>)
          else (gid, s))"

text \<open>The end of \<open>Register\<close>: the proxy is entered unless its name is taken.\<close>

definition hgEnter :: "string \<Rightarrow> 'f \<Rightarrow> gid \<Rightarrow> 'f HTTPGroup \<Rightarrow> 'f HTTPGroupController \<Rightarrow>
    (http_group_error, unit) result \<times> 'f HTTPGroupController" where
  "hgEnter proxyName fn gid g s =
     (if hg_createFuncs g proxyName \<noteq> None then (Inl HgRepeated, s\<lparr>hc_heap := (hc_heap s)(gid \<mapsto> g)\<rparr>)
      else (Inr (), s\<lparr>hc_heap := (hc_heap s)(gid \<mapsto> g\<lparr>hg_createFuncs := (hg_createFuncs g)(proxyName \<mapsto> fn),
             hg_pxyNames := hg_pxyNames g @ [proxyName]\<rparr>)\<rparr>))"

definition hgRegister :: "string \<Rightarrow> string \<Rightarrow> string \<Rightarrow> 'f group_route \<Rightarrow> gid \<Rightarrow> 'f HTTPGroupController \<Rightarrow>
    (http_group_error, unit) result \<times> 'f HTTPGroupController" where
  "hgRegister proxyName grp groupKey cfg gid s =
     (case hc_heap s gid of None \<Rightarrow> (Inl HgStale, s)
      | Some g \<Rightarrow>
          if \<not> isCurrent grp (\<lambda>cur. cur = gid) (hc_groups s) then (Inl HgStale, s)
          else if hg_createFuncs g = Map.empty then
            (case Add (gr_domain cfg) (gr_location cfg) (gr_user cfg) (ToGroup gid) (hc_router s) of
               Inl e \<Rightarrow> (Inl (HgRoute e), s)
             | Inr r \<Rightarrow>
                 hgEnter proxyName (gr_createConn cfg) gid
                   (g\<lparr>hg_group := grp, hg_groupKey := groupKey, hg_domain := gr_domain cfg, hg_location := gr_location cfg,
                      hg_routeByHTTPUser := gr_user cfg\<rparr>) (s\<lparr>hc_router := r\<rparr>))
          else if hg_group g \<noteq> grp \<or> hg_domain g \<noteq> gr_domain cfg \<or> hg_location g \<noteq> gr_location cfg \<or>
                  hg_routeByHTTPUser g \<noteq> gr_user cfg then (Inl HgParamsInvalid, s)
          else if hg_groupKey g \<noteq> groupKey then (Inl HgAuthFailed, s)
          else hgEnter proxyName (gr_createConn cfg) gid g s)"

definition hgUnRegister :: "string \<Rightarrow> gid \<Rightarrow> 'f HTTPGroupController \<Rightarrow> 'f HTTPGroupController" where
  "hgUnRegister proxyName gid s =
     (case hc_heap s gid of None \<Rightarrow> s
      | Some g \<Rightarrow>
          let g1 = g\<lparr>hg_createFuncs := (hg_createFuncs g)(proxyName := None), hg_pxyNames := remove1 proxyName (hg_pxyNames g)\<rparr>;
              s1 = s\<lparr>hc_heap := (hc_heap s)(gid \<mapsto> g1)\<rparr>
          in if hg_createFuncs g1 = Map.empty
             then s1\<lparr>hc_router := Del (hg_domain g1) (hg_location g1) (hg_routeByHTTPUser g1) (hc_router s1),
                     hc_groups := removeIf (hg_group g1) (\<lambda>cur. cur = gid) (hc_groups s1)\<rparr>
             else s1)"

text \<open>The calls of the controller; the list plays the part it has in \<open>ctlListen\<close>.\<close>

fun hcRegister :: "('f HTTPGroupController \<Rightarrow> 'f HTTPGroupController) list \<Rightarrow> string \<Rightarrow> string \<Rightarrow> string \<Rightarrow> 'f group_route \<Rightarrow>
    'f HTTPGroupController \<Rightarrow> (http_group_error, unit) result \<times> 'f HTTPGroupController" where
  "hcRegister [] proxyName grp groupKey cfg s =
     (case hcLookup grp s of (gid, s1) \<Rightarrow> hgRegister proxyName grp groupKey cfg gid s1)"
| "hcRegister (f # fs) proxyName grp groupKey cfg s =
     (case hcLookup grp s of (gid, s1) \<Rightarrow>
        case hgRegister proxyName grp groupKey cfg gid (f s1) of
          (Inl HgStale, s2) \<Rightarrow> hcRegister fs proxyName grp groupKey cfg s2
        | res \<Rightarrow> res)"

definition hcUnRegister :: "string \<Rightarrow> string \<Rightarrow> 'f HTTPGroupController \<Rightarrow> 'f HTTPGroupController" where
  "hcUnRegister proxyName grp s = (case hc_groups s grp of None \<Rightarrow> s | Some gid \<Rightarrow> hgUnRegister proxyName gid s)"

section \<open>Choosing a proxy\<close>

text \<open>\<open>chooseEndpoint\<close>: the counter is advanced, then taken modulo the number of proxies.\<close>

definition chooseEndpoint :: "'f HTTPGroup \<Rightarrow> string option \<times> 'f HTTPGroup" where
  "chooseEndpoint g =
     (let newIndex = hg_index g + 1;
          name = (if hg_pxyNames g \<noteq> [] then hg_pxyNames g ! (unat newIndex mod length (hg_pxyNames g)) else [])
      in (if name = [] then None else Some name, g\<lparr>hg_index := newIndex\<rparr>))"

definition createConn :: "'f HTTPGroup \<Rightarrow> 'f option \<times> 'f HTTPGroup" where
  "createConn g =
     (let newIndex = hg_index g + 1;
          f = (if hg_pxyNames g \<noteq> []
               then hg_createFuncs g (hg_pxyNames g ! (unat newIndex mod length (hg_pxyNames g))) else None)
      in (f, g\<lparr>hg_index := newIndex\<rparr>))"

definition createConnByEndpoint :: "string \<Rightarrow> 'f HTTPGroup \<Rightarrow> 'f option" where
  "createConnByEndpoint endpoint g = hg_createFuncs g endpoint"

text \<open>The choices made by \<open>n\<close> requests in a row.\<close>

fun choices :: "nat \<Rightarrow> 'f HTTPGroup \<Rightarrow> string option list" where
  "choices 0 g = []"
| "choices (Suc n) g = (case chooseEndpoint g of (c, g1) \<Rightarrow> c # choices n g1)"

section \<open>Invariant\<close>

definition hg_route :: "'f HTTPGroup \<Rightarrow> string \<times> string \<times> string" where
  "hg_route g = (ToLower (hg_domain g), hg_location g, hg_routeByHTTPUser g)"

text \<open>The steps of the system: the calls of the controller, the requests that a group serves through the functions it has given to
  its route, and changes of the table by others that respect the routes that lead to groups.\<close>

inductive hg_step :: "'f HTTPGroupController \<Rightarrow> 'f HTTPGroupController \<Rightarrow> bool" where
  lookup: "hg_step s (snd (hcLookup grp s))"
| register: "hg_step s (snd (hgRegister proxyName grp groupKey cfg gid s))"
| unregister: "hc_heap s gid = Some g \<Longrightarrow> hg_createFuncs g \<noteq> Map.empty \<Longrightarrow> hg_step s (hgUnRegister proxyName gid s)"
| request: "hc_heap s gid = Some g \<Longrightarrow> hg_step s (s\<lparr>hc_heap := (hc_heap s)(gid \<mapsto> snd (chooseEndpoint g))\<rparr>)"
| connect: "hc_heap s gid = Some g \<Longrightarrow> hg_step s (s\<lparr>hc_heap := (hc_heap s)(gid \<mapsto> snd (createConn g))\<rparr>)"
| other: "routers_ok r \<Longrightarrow>
    (\<And>k gid. table (hc_router s) k = Some (ToGroup gid) \<Longrightarrow> table r k = Some (ToGroup gid)) \<Longrightarrow>
    (\<And>k gid. table r k = Some (ToGroup gid) \<Longrightarrow> table (hc_router s) k = Some (ToGroup gid)) \<Longrightarrow>
    hg_step s (s\<lparr>hc_router := r\<rparr>)"

inductive hg_reachable :: "'f HTTPGroupController \<Rightarrow> bool" where
  init: "hg_reachable (NewHTTPGroupController NewRouters)"
| step: "hg_reachable s \<Longrightarrow> hg_step s s' \<Longrightarrow> hg_reachable s'"

definition hgroup_ok :: "'f HTTPGroup \<Rightarrow> bool" where
  "hgroup_ok g \<longleftrightarrow> distinct (hg_pxyNames g) \<and> dom (hg_createFuncs g) = set (hg_pxyNames g)"

definition hg_inv :: "'f HTTPGroupController \<Rightarrow> bool" where
  "hg_inv s \<longleftrightarrow> routers_ok (hc_router s) \<and>
     (\<forall>gid g. hc_heap s gid = Some g \<longrightarrow> gid < hc_next s \<and> hgroup_ok g \<and>
        (hg_createFuncs g \<noteq> Map.empty \<longrightarrow> hc_groups s (hg_group g) = Some gid \<and>
           table (hc_router s) (hg_route g) = Some (ToGroup gid))) \<and>
     (\<forall>k gid. hc_groups s k = Some gid \<longrightarrow> hc_heap s gid \<noteq> None) \<and>
     (\<forall>k k' gid. hc_groups s k = Some gid \<and> hc_groups s k' = Some gid \<longrightarrow> k = k') \<and>
     (\<forall>k gid. table (hc_router s) k = Some (ToGroup gid) \<longrightarrow>
        (\<exists>g. hc_heap s gid = Some g \<and> hg_createFuncs g \<noteq> Map.empty \<and> hg_route g = k))"

lemma hg_invD:
  assumes "hg_inv s"
  shows "routers_ok (hc_router s)"
    and "hc_heap s gid = Some g \<Longrightarrow> gid < hc_next s" "hc_heap s gid = Some g \<Longrightarrow> hgroup_ok g"
    and "hc_heap s gid = Some g \<Longrightarrow> hg_createFuncs g \<noteq> Map.empty \<Longrightarrow> hc_groups s (hg_group g) = Some gid"
    and "hc_heap s gid = Some g \<Longrightarrow> hg_createFuncs g \<noteq> Map.empty \<Longrightarrow> table (hc_router s) (hg_route g) = Some (ToGroup gid)"
    and "hc_groups s k = Some gid \<Longrightarrow> hc_heap s gid \<noteq> None"
    and "hc_groups s k = Some gid \<Longrightarrow> hc_groups s k' = Some gid \<Longrightarrow> k = k'"
    and "table (hc_router s) q = Some (ToGroup gid) \<Longrightarrow>
        \<exists>g. hc_heap s gid = Some g \<and> hg_createFuncs g \<noteq> Map.empty \<and> hg_route g = q"
  using assms unfolding hg_inv_def by blast+

lemma hg_invI:
  assumes "routers_ok (hc_router s)"
    and "\<And>gid g. hc_heap s gid = Some g \<Longrightarrow> gid < hc_next s \<and> hgroup_ok g"
    and "\<And>gid g. hc_heap s gid = Some g \<Longrightarrow> hg_createFuncs g \<noteq> Map.empty \<Longrightarrow>
       hc_groups s (hg_group g) = Some gid \<and> table (hc_router s) (hg_route g) = Some (ToGroup gid)"
    and "\<And>k gid. hc_groups s k = Some gid \<Longrightarrow> hc_heap s gid \<noteq> None"
    and "\<And>k k' gid. hc_groups s k = Some gid \<Longrightarrow> hc_groups s k' = Some gid \<Longrightarrow> k = k'"
    and "\<And>q gid. table (hc_router s) q = Some (ToGroup gid) \<Longrightarrow>
        \<exists>g. hc_heap s gid = Some g \<and> hg_createFuncs g \<noteq> Map.empty \<and> hg_route g = q"
  shows "hg_inv s"
  unfolding hg_inv_def using assms by blast

lemma hcLookup_eqs:
  "hc_groups s grp = Some gid \<Longrightarrow> hcLookup grp s = (gid, s)"
  "hc_groups s grp = None \<Longrightarrow> hcLookup grp s = (hc_next s, s\<lparr>hc_groups := (hc_groups s)(grp \<mapsto> hc_next s),
     hc_heap := (hc_heap s)(hc_next s \<mapsto> NewHTTPGroup), hc_next := hc_next s + 1\<rparr>)"
  by (simp_all add: hcLookup_def getOrCreate_def)

lemma lookup_hg_inv:
  assumes inv: "hg_inv s"
  shows "hg_inv (snd (hcLookup grp s))"
proof (cases "hc_groups s grp")
  case (Some gid)
  then show ?thesis using inv by (simp add: hcLookup_eqs)
next
  case None
  note D = hg_invD [OF inv]
  let ?s = "snd (hcLookup grp s)"
  have fresh: "hc_heap s (hc_next s) = None" using D(2) by (cases "hc_heap s (hc_next s)") auto
  then have nogrp: "hc_groups s k \<noteq> Some (hc_next s)" for k using D(6) by blast
  have eqs: "hc_groups ?s = (hc_groups s)(grp \<mapsto> hc_next s)" "hc_heap ?s = (hc_heap s)(hc_next s \<mapsto> NewHTTPGroup)"
    "hc_next ?s = Suc (hc_next s)" "hc_router ?s = hc_router s"
    by (simp_all add: hcLookup_eqs None)
  have new: "hgroup_ok NewHTTPGroup" "hg_createFuncs NewHTTPGroup = Map.empty"
    by (simp_all add: hgroup_ok_def NewHTTPGroup_def)
  show ?thesis
  proof (rule hg_invI)
    fix gid g assume g: "hc_heap ?s gid = Some g"
    show "gid < hc_next ?s \<and> hgroup_ok g"
      using g D(2,3) new by (auto simp: eqs split: if_splits intro: less_SucI)
    assume "hg_createFuncs g \<noteq> Map.empty"
    then show "hc_groups ?s (hg_group g) = Some gid \<and> table (hc_router ?s) (hg_route g) = Some (ToGroup gid)"
      using g D(4,5) new None by (auto simp: eqs split: if_splits)
  next
    fix q gid assume "table (hc_router ?s) q = Some (ToGroup gid)"
    then obtain g where "hc_heap s gid = Some g" "hg_createFuncs g \<noteq> Map.empty" "hg_route g = q"
      using D(8) [of q gid] by (auto simp: eqs)
    then show "\<exists>g. hc_heap ?s gid = Some g \<and> hg_createFuncs g \<noteq> Map.empty \<and> hg_route g = q"
      using fresh by (auto simp: eqs)
  qed (use D(1,6,7) nogrp in \<open>auto simp: eqs split: if_splits\<close>)
qed

text \<open>A group at \<open>gid\<close> is replaced by one with members and its route.\<close>

lemma hg_inv_enter:
  assumes inv: "hg_inv s" and gid: "hc_heap s gid = Some g0" "hc_groups s (hg_group g) = Some gid"
    and g: "hgroup_ok g" "hg_createFuncs g \<noteq> Map.empty"
    and r: "routers_ok r" "table r = (table (hc_router s))(hg_route g \<mapsto> ToGroup gid)"
    and free: "table (hc_router s) (hg_route g) = None \<and> hg_createFuncs g0 = Map.empty \<or>
      hg_createFuncs g0 \<noteq> Map.empty \<and> hg_route g0 = hg_route g"
  shows "hg_inv (s\<lparr>hc_heap := (hc_heap s)(gid \<mapsto> g), hc_router := r\<rparr>)" (is "hg_inv ?s")
proof (rule hg_invI)
  note D = hg_invD [OF inv]
  show "routers_ok (hc_router ?s)" using r by simp
  have at: "hg_route k \<noteq> hg_route g" if "hc_heap s b = Some k" "hg_createFuncs k \<noteq> Map.empty" "b \<noteq> gid" for b k
    using D(5) [OF that(1,2)] D(5) [OF gid(1)] free that(3) by auto
  fix b k assume k: "hc_heap ?s b = Some k"
  show "b < hc_next ?s \<and> hgroup_ok k" using k D(2,3) gid g by (auto split: if_splits)
  assume "hg_createFuncs k \<noteq> Map.empty"
  then show "hc_groups ?s (hg_group k) = Some b \<and> table (hc_router ?s) (hg_route k) = Some (ToGroup b)"
    using k D(4,5) gid at r by (auto split: if_splits)
next
  note D = hg_invD [OF inv]
  fix q b assume t: "table (hc_router ?s) q = Some (ToGroup b)"
  show "\<exists>k. hc_heap ?s b = Some k \<and> hg_createFuncs k \<noteq> Map.empty \<and> hg_route k = q"
  proof (cases "q = hg_route g")
    case True
    then show ?thesis using t r g by auto
  next
    case False
    then have "table (hc_router s) q = Some (ToGroup b)" using t r by simp
    then obtain k where k: "hc_heap s b = Some k" "hg_createFuncs k \<noteq> Map.empty" "hg_route k = q" using D(8) by blast
    then have "b \<noteq> gid" using False gid free by auto
    then show ?thesis using k by auto
  qed
qed (use hg_invD(6,7) [OF inv] in \<open>auto split: if_splits\<close>)

lemma hgRegister_join:
  assumes g: "hc_heap s gid = Some g" and cur: "hc_groups s grp = Some gid" "hg_createFuncs g \<noteq> Map.empty"
  shows "snd (hgRegister proxyName grp groupKey cfg gid s) = s \<or> hg_createFuncs g proxyName = None \<and> hg_group g = grp \<and>
     snd (hgRegister proxyName grp groupKey cfg gid s) = s\<lparr>hc_heap := (hc_heap s)(gid \<mapsto>
       g\<lparr>hg_createFuncs := (hg_createFuncs g)(proxyName \<mapsto> gr_createConn cfg), hg_pxyNames := hg_pxyNames g @ [proxyName]\<rparr>)\<rparr>"
proof (cases "hg_group g \<noteq> grp \<or> hg_domain g \<noteq> gr_domain cfg \<or> hg_location g \<noteq> gr_location cfg \<or>
    hg_routeByHTTPUser g \<noteq> gr_user cfg \<or> hg_groupKey g \<noteq> groupKey")
  case True
  then show ?thesis using g cur by (auto simp: hgRegister_def)
next
  case False
  then have "hgRegister proxyName grp groupKey cfg gid s = hgEnter proxyName (gr_createConn cfg) gid g s"
    using g cur by (simp add: hgRegister_def)
  moreover have "(hc_heap s)(gid \<mapsto> g) = hc_heap s" using g by auto
  ultimately show ?thesis using False by (cases "hg_createFuncs g proxyName") (simp_all add: hgEnter_def)
qed

lemma register_hg_inv:
  assumes inv: "hg_inv s"
  shows "hg_inv (snd (hgRegister proxyName grp groupKey cfg gid s))"
proof (cases "hc_heap s gid")
  case None
  then show ?thesis using inv by (simp add: hgRegister_def)
next
  case (Some g)
  note D = hg_invD [OF inv]
  note ok = D(3) [OF Some]
  consider "hc_groups s grp \<noteq> Some gid" | "hc_groups s grp = Some gid" "hg_createFuncs g = Map.empty"
    | "hc_groups s grp = Some gid" "hg_createFuncs g \<noteq> Map.empty" by blast
  then show ?thesis
  proof cases
    case 1
    then show ?thesis using inv Some by (simp add: hgRegister_def)
  next
    case 2
    let ?g = "g\<lparr>hg_group := grp, hg_groupKey := groupKey, hg_domain := gr_domain cfg, hg_location := gr_location cfg,
                      hg_routeByHTTPUser := gr_user cfg, hg_createFuncs := [proxyName \<mapsto> gr_createConn cfg], hg_pxyNames := [proxyName]\<rparr>"
    show ?thesis
    proof (cases "Add (gr_domain cfg) (gr_location cfg) (gr_user cfg) (ToGroup gid) (hc_router s)")
      case (Inl e)
      then show ?thesis using inv Some 2 by (simp add: hgRegister_def)
    next
      case (Inr r)
      have route: "hg_route ?g = (ToLower (gr_domain cfg), gr_location cfg, gr_user cfg)" by (simp add: hg_route_def)
      have names: "hg_pxyNames g = []" using ok 2 by (simp add: hgroup_ok_def)
      have "hg_inv (s\<lparr>hc_heap := (hc_heap s)(gid \<mapsto> ?g), hc_router := r\<rparr>)"
      proof (rule hg_inv_enter [OF inv Some])
        show "table r = (table (hc_router s))(hg_route ?g \<mapsto> ToGroup gid)"
          unfolding route by (rule rt.add_lookup [OF D(1) Inr])
        show "table (hc_router s) (hg_route ?g) = None \<and> hg_createFuncs g = Map.empty \<or>
            hg_createFuncs g \<noteq> Map.empty \<and> hg_route g = hg_route ?g"
          unfolding route using rt.add_Inr_iff [OF D(1), of "gr_domain cfg" "gr_location cfg" "gr_user cfg" "ToGroup gid"] Inr 2 by simp
      qed (use 2 rt.add_good [OF D(1) Inr] in \<open>auto simp: hgroup_ok_def\<close>)
      moreover have "snd (hgRegister proxyName grp groupKey cfg gid s) = s\<lparr>hc_heap := (hc_heap s)(gid \<mapsto> ?g), hc_router := r\<rparr>"
        using Some 2 Inr names by (simp add: hgRegister_def hgEnter_def)
      ultimately show ?thesis by simp
    qed
  next
    case 3
    let ?g = "g\<lparr>hg_createFuncs := (hg_createFuncs g)(proxyName \<mapsto> gr_createConn cfg), hg_pxyNames := hg_pxyNames g @ [proxyName]\<rparr>"
    from hgRegister_join [OF Some 3, of proxyName groupKey cfg]
    consider "snd (hgRegister proxyName grp groupKey cfg gid s) = s"
      | "hg_createFuncs g proxyName = None" "hg_group g = grp"
        "snd (hgRegister proxyName grp groupKey cfg gid s) = s\<lparr>hc_heap := (hc_heap s)(gid \<mapsto> ?g)\<rparr>"
      by (elim disjE conjE)
    then show ?thesis
    proof cases
      case 2
      have "hg_inv (s\<lparr>hc_heap := (hc_heap s)(gid \<mapsto> ?g), hc_router := hc_router s\<rparr>)"
        using ok 2 3 D(1) D(5) [OF Some]
        by (intro hg_inv_enter [OF inv Some]) (auto simp: hgroup_ok_def hg_route_def)
      then show ?thesis using 2 by simp
    qed (use inv in simp)
  qed
qed

lemma unregister_hg_inv:
  assumes inv: "hg_inv s" and g: "hc_heap s gid = Some g" "hg_createFuncs g \<noteq> Map.empty"
  shows "hg_inv (hgUnRegister proxyName gid s)"
proof -
  note D = hg_invD [OF inv]
  let ?g = "g\<lparr>hg_createFuncs := (hg_createFuncs g)(proxyName := None), hg_pxyNames := remove1 proxyName (hg_pxyNames g)\<rparr>"
  have ok: "hgroup_ok ?g" using D(3) [OF g(1)] by (auto simp: hgroup_ok_def)
  show ?thesis
  proof (cases "(hg_createFuncs g)(proxyName := None) = Map.empty")
    case False
    have "hg_inv (s\<lparr>hc_heap := (hc_heap s)(gid \<mapsto> ?g), hc_router := hc_router s\<rparr>)"
      using ok False D(1,4) D(5) [OF g] g by (intro hg_inv_enter [OF inv g(1)]) (auto simp: hg_route_def)
    then show ?thesis using False g by (simp add: hgUnRegister_def)
  next
    case True
    let ?s = "hgUnRegister proxyName gid s"
    have t: "table (hc_router ?s) = (table (hc_router s))(hg_route g := None)"
      using True g rt.del_lookup [OF D(1)] by (simp add: hgUnRegister_def hg_route_def Let_def)
    have eqs: "hc_heap ?s = (hc_heap s)(gid \<mapsto> ?g)" "hc_groups ?s = (hc_groups s)(hg_group g := None)" "hc_next ?s = hc_next s"
      using True g D(4) [OF g] by (simp_all add: hgUnRegister_def Let_def)
    have other: "hg_route k \<noteq> hg_route g \<and> hg_group k \<noteq> hg_group g"
      if "hc_heap s b = Some k" "hg_createFuncs k \<noteq> Map.empty" "b \<noteq> gid" for b k
      using D(4,5) [OF that(1,2)] D(4,5) [OF g] that(3) by auto
    show ?thesis
    proof (rule hg_invI)
      show "routers_ok (hc_router ?s)" using True g rt.del_good [OF D(1)] by (simp add: hgUnRegister_def Let_def)
      fix b k assume k: "hc_heap ?s b = Some k"
      show "b < hc_next ?s \<and> hgroup_ok k" using k D(2,3) g ok by (auto simp: eqs split: if_splits)
      assume "hg_createFuncs k \<noteq> Map.empty"
      then show "hc_groups ?s (hg_group k) = Some b \<and> table (hc_router ?s) (hg_route k) = Some (ToGroup b)"
        using k D(4,5) other True by (auto simp: eqs t split: if_splits)
    next
      fix q b assume "table (hc_router ?s) q = Some (ToGroup b)"
      then have q: "table (hc_router s) q = Some (ToGroup b)" "q \<noteq> hg_route g" by (auto simp: t split: if_splits)
      then obtain k where "hc_heap s b = Some k" "hg_createFuncs k \<noteq> Map.empty" "hg_route k = q" using D(8) by blast
      then show "\<exists>k. hc_heap ?s b = Some k \<and> hg_createFuncs k \<noteq> Map.empty \<and> hg_route k = q"
        using q g by (auto simp: eqs)
    qed (use D(6,7) g in \<open>auto simp: eqs split: if_splits\<close>)
  qed
qed

lemma index_hg_inv:
  assumes inv: "hg_inv s" and g: "hc_heap s gid = Some g"
  shows "hg_inv (s\<lparr>hc_heap := (hc_heap s)(gid \<mapsto> g\<lparr>hg_index := i\<rparr>)\<rparr>)" (is "hg_inv ?s")
proof (rule hg_invI)
  note D = hg_invD [OF inv]
  have same: "hg_route (g\<lparr>hg_index := i\<rparr>) = hg_route g" "hgroup_ok (g\<lparr>hg_index := i\<rparr>) = hgroup_ok g"
    by (simp_all add: hg_route_def hgroup_ok_def)
  have old: "\<exists>k0. hc_heap s b = Some k0 \<and> hg_createFuncs k0 = hg_createFuncs k \<and> hg_group k0 = hg_group k \<and>
      hg_route k0 = hg_route k \<and> hgroup_ok k0 = hgroup_ok k" if "hc_heap ?s b = Some k" for b k
    using that g by (cases "b = gid") (auto simp: same)
  fix b k assume k: "hc_heap ?s b = Some k"
  obtain k0 where k0: "hc_heap s b = Some k0" "hg_createFuncs k0 = hg_createFuncs k" "hg_group k0 = hg_group k"
    "hg_route k0 = hg_route k" "hgroup_ok k0 = hgroup_ok k" using old [OF k] by blast
  show "b < hc_next ?s \<and> hgroup_ok k" using k0(5) D(2,3) [OF k0(1)] by simp
  assume "hg_createFuncs k \<noteq> Map.empty"
  then show "hc_groups ?s (hg_group k) = Some b \<and> table (hc_router ?s) (hg_route k) = Some (ToGroup b)"
    using k0(2-4) D(4,5) [OF k0(1)] by simp
next
  fix q b assume q: "table (hc_router ?s) q = Some (ToGroup b)"
  obtain k where "hc_heap s b = Some k" "hg_createFuncs k \<noteq> Map.empty" "hg_route k = q" using hg_invD(8) [OF inv, of q b] q by auto
  then show "\<exists>k. hc_heap ?s b = Some k \<and> hg_createFuncs k \<noteq> Map.empty \<and> hg_route k = q"
    using g by (cases "b = gid") (auto simp: hg_route_def)
qed (use hg_invD(1,6,7) [OF inv] in auto)

lemma hg_step_inv: "hg_step s s' \<Longrightarrow> hg_inv s \<Longrightarrow> hg_inv s'"
proof (induction rule: hg_step.induct)
  case (other r s)
  note D = hg_invD [OF other(4)]
  show ?case
  proof (rule hg_invI)
    fix gid g assume g: "hc_heap (s\<lparr>hc_router := r\<rparr>) gid = Some g"
    show "gid < hc_next (s\<lparr>hc_router := r\<rparr>) \<and> hgroup_ok g" using g D(2,3) by simp
    assume "hg_createFuncs g \<noteq> Map.empty"
    then show "hc_groups (s\<lparr>hc_router := r\<rparr>) (hg_group g) = Some gid \<and>
        table (hc_router (s\<lparr>hc_router := r\<rparr>)) (hg_route g) = Some (ToGroup gid)"
      using g D(4,5) other(2) by simp
  next
    fix q gid assume "table (hc_router (s\<lparr>hc_router := r\<rparr>)) q = Some (ToGroup gid)"
    then show "\<exists>g. hc_heap (s\<lparr>hc_router := r\<rparr>) gid = Some g \<and> hg_createFuncs g \<noteq> Map.empty \<and> hg_route g = q"
      using other(3) D(8) [of q gid] by simp
  qed (use other(1) D(6,7) in simp_all)
qed (simp_all add: lookup_hg_inv register_hg_inv unregister_hg_inv index_hg_inv chooseEndpoint_def createConn_def Let_def)

lemma hg_reachable_inv: "hg_reachable s \<Longrightarrow> hg_inv s"
proof (induction rule: hg_reachable.induct)
  case init
  have "table (NewRouters :: route_target Routers) (d, l, u) = None" for d l u
    by (simp add: table_def exist_def routesOf_def NewRouters_def)
  then show ?case
    by (intro hg_invI) (auto simp: NewHTTPGroupController_def routers_ok_New simp del: split_paired_All)
qed (blast intro: hg_step_inv)

section \<open>Round robin\<close>

lemma unat_Suc64: "Suc (unat x) < 2 ^ 64 \<Longrightarrow> unat (x + 1) = Suc (unat x)" for x :: "64 word"
  by (simp add: unat_word_ariths(1))

lemma choices_eq:
  assumes "hg_pxyNames g \<noteq> []" "[] \<notin> set (hg_pxyNames g)" "unat (hg_index g) + n < 2 ^ 64"
  shows "choices n g = map (\<lambda>i. Some (hg_pxyNames g ! ((Suc (unat (hg_index g)) + i) mod length (hg_pxyNames g)))) [0..<n]"
  using assms
proof (induction n arbitrary: g)
  case (Suc n)
  let ?g = "g\<lparr>hg_index := hg_index g + 1\<rparr>" and ?names = "hg_pxyNames g"
  have idx: "unat (hg_index g + 1) = Suc (unat (hg_index g))" using Suc.prems(3) by (intro unat_Suc64) simp
  have "?names ! (Suc (unat (hg_index g)) mod length ?names) \<noteq> []"
    using Suc.prems(1,2) nth_mem [of "Suc (unat (hg_index g)) mod length ?names" ?names] by force
  then have "chooseEndpoint g = (Some (?names ! (Suc (unat (hg_index g)) mod length ?names)), ?g)"
    using Suc.prems(1) by (simp add: chooseEndpoint_def idx)
  moreover have "choices n ?g = map (\<lambda>i. Some (?names ! ((Suc (Suc (unat (hg_index g))) + i) mod length ?names))) [0..<n]"
    using Suc.IH [of ?g] Suc.prems idx by simp
  ultimately show ?case
    by (simp add: upt_conv_Cons map_Suc_upt [symmetric] del: upt_Suc map_Suc_upt)
qed simp

lemma choices_rotate:
  assumes "hg_pxyNames g \<noteq> []" "[] \<notin> set (hg_pxyNames g)" "unat (hg_index g) + length (hg_pxyNames g) < 2 ^ 64"
  shows "choices (length (hg_pxyNames g)) g = map Some (rotate (Suc (unat (hg_index g))) (hg_pxyNames g))"
  unfolding choices_eq [OF assms] by (rule nth_equalityI) (simp_all add: nth_rotate del: rotate_Suc)

section \<open>Properties\<close>

definition demo_http0 :: "nat HTTPGroupController" where
  "demo_http0 = snd (hcLookup ''g'' (NewHTTPGroupController NewRouters))"

definition demo_http1 :: "nat HTTPGroupController" where
  "demo_http1 = snd (hgRegister ''a'' ''g'' ''k'' \<lparr>gr_domain = ''Ex.com'', gr_location = ''/'', gr_user = [], gr_createConn = 1\<rparr> 0 demo_http0)"

definition demo_http2 :: "nat HTTPGroupController" where
  "demo_http2 = snd (hgRegister ''b'' ''g'' ''k'' \<lparr>gr_domain = ''Ex.com'', gr_location = ''/'', gr_user = [], gr_createConn = 2\<rparr> 0 demo_http1)"

lemma demo_http2_reachable: "hg_reachable demo_http2"
  unfolding demo_http2_def demo_http1_def demo_http0_def
  by (intro hg_reachable.step [OF _ hg_step.register] hg_reachable.step [OF _ hg_step.lookup] hg_reachable.init)

lemma demo_http2_eq: "hc_heap demo_http2 0 = Some \<lparr>hg_group = ''g'', hg_groupKey = ''k'', hg_domain = ''Ex.com'', hg_location = ''/'',
     hg_routeByHTTPUser = [], hg_createFuncs = [''a'' \<mapsto> 1, ''b'' \<mapsto> 2], hg_pxyNames = [''a'', ''b''], hg_index = 0\<rparr>"
  by (simp add: demo_http2_def demo_http1_def demo_http0_def hcLookup_def getOrCreate_def NewHTTPGroupController_def
      NewHTTPGroup_def hgRegister_def hgEnter_def route_defs)

text \<open>One request later.\<close>

definition demo_http3 :: "nat HTTPGroupController" where
  "demo_http3 = demo_http2\<lparr>hc_heap := (hc_heap demo_http2)(0 \<mapsto> snd (chooseEndpoint (the (hc_heap demo_http2 0))))\<rparr>"

lemma demo_http3_reachable: "hg_reachable demo_http3"
  unfolding demo_http3_def
  by (rule hg_reachable.step [OF demo_http2_reachable hg_step.request]) (simp add: demo_http2_eq)

lemma demo_http3_eq: "hc_heap demo_http3 0 = Some \<lparr>hg_group = ''g'', hg_groupKey = ''k'', hg_domain = ''Ex.com'', hg_location = ''/'',
     hg_routeByHTTPUser = [], hg_createFuncs = [''a'' \<mapsto> 1, ''b'' \<mapsto> 2], hg_pxyNames = [''a'', ''b''], hg_index = 1\<rparr>"
  by (simp add: demo_http3_def demo_http2_eq chooseEndpoint_def Let_def)

text \<open>
  An HTTP group owns its route exactly as long as it has proxies. In every reachable state a group with
  proxies is registered under its name and its route leads to it; a route that leads to a group belongs to
  a group with proxies; the names it chooses from are distinct and each has its connection function.
\<close>

theorem http_group_route:
  assumes "hg_reachable s"
  shows "(hc_heap s gid = Some g \<longrightarrow> distinct (hg_pxyNames g) \<and> dom (hg_createFuncs g) = set (hg_pxyNames g) \<and>
      (hg_pxyNames g \<noteq> [] \<longrightarrow> hc_groups s (hg_group g) = Some gid \<and>
         table (hc_router s) (ToLower (hg_domain g), hg_location g, hg_routeByHTTPUser g) = Some (ToGroup gid))) \<and>
    (table (hc_router s) k = Some (ToGroup gid) \<longrightarrow>
      (\<exists>g. hc_heap s gid = Some g \<and> hg_pxyNames g \<noteq> [] \<and> (ToLower (hg_domain g), hg_location g, hg_routeByHTTPUser g) = k))"
proof (intro conjI impI)
  note D = hg_invD [OF hg_reachable_inv [OF assms]]
  have names: "hg_createFuncs g = Map.empty \<longleftrightarrow> hg_pxyNames g = []" if "hc_heap s gid = Some g" for g
    using D(3) [OF that] by (auto simp: hgroup_ok_def)
  {
    assume g: "hc_heap s gid = Some g"
    show "distinct (hg_pxyNames g)" "dom (hg_createFuncs g) = set (hg_pxyNames g)"
      using D(3) [OF g] by (auto simp: hgroup_ok_def)
    assume "hg_pxyNames g \<noteq> []"
    then have ne: "hg_createFuncs g \<noteq> Map.empty" using names [OF g] by simp
    show "hc_groups s (hg_group g) = Some gid" by (rule D(4) [OF g ne])
    show "table (hc_router s) (ToLower (hg_domain g), hg_location g, hg_routeByHTTPUser g) = Some (ToGroup gid)"
      using D(5) [OF g ne] by (simp add: hg_route_def)
  }
  assume "table (hc_router s) k = Some (ToGroup gid)"
  then obtain g where "hc_heap s gid = Some g" "hg_createFuncs g \<noteq> Map.empty" "hg_route g = k" using D(8) by blast
  then show "\<exists>g. hc_heap s gid = Some g \<and> hg_pxyNames g \<noteq> [] \<and> (ToLower (hg_domain g), hg_location g, hg_routeByHTTPUser g) = k"
    using names by (auto simp: hg_route_def)
qed

theorem http_group_route_witness:
  "table (hc_router demo_http2) (''ex.com'', ''/'', []) = Some (ToGroup 0) \<and> hc_groups demo_http2 ''g'' = Some 0"
  using http_group_route [OF demo_http2_reachable, of 0 "the (hc_heap demo_http2 0)"] by (simp add: demo_http2_eq lower_defs)

text \<open>
  C23: Requests go round the proxies of a group, at any time in the life of the group and however many requests it has served.
  As many requests in a row as the group has proxies, with the group unchanged in between, are sent to each of them exactly
  once, in the order of registration starting after the place its counter has reached; every endpoint chosen has a connection
  function, and \<open>createConn\<close>, which chooses by itself, uses the function of the endpoint whose turn it is. The 64-bit counter
  must not wrap around in between.
\<close>

theorem round_robin:
  assumes "hg_reachable s" "hc_heap s gid = Some g" "hg_pxyNames g \<noteq> []" "[] \<notin> set (hg_pxyNames g)"
    "unat (hg_index g) + length (hg_pxyNames g) < 2 ^ 64"
  shows "choices (length (hg_pxyNames g)) g = map Some (rotate (Suc (unat (hg_index g))) (hg_pxyNames g)) \<and>
    distinct (choices (length (hg_pxyNames g)) g) \<and> set (choices (length (hg_pxyNames g)) g) = Some ` set (hg_pxyNames g) \<and>
    (\<forall>name. Some name \<in> set (choices (length (hg_pxyNames g)) g) \<longrightarrow> createConnByEndpoint name g \<noteq> None) \<and>
    (\<exists>name fn. fst (chooseEndpoint g) = Some name \<and> createConnByEndpoint name g = Some fn \<and>
       createConn g = (Some fn, snd (chooseEndpoint g)))"
proof -
  have ok: "hgroup_ok g" using hg_invD(3) [OF hg_reachable_inv [OF assms(1)] assms(2)] .
  let ?name = "hg_pxyNames g ! (unat (hg_index g + 1) mod length (hg_pxyNames g))"
  have mem: "?name \<in> set (hg_pxyNames g)" using assms(3) by simp
  then have "?name \<noteq> []" using assms(4) by metis
  then have "chooseEndpoint g = (Some ?name, g\<lparr>hg_index := hg_index g + 1\<rparr>)" using assms(3) by (simp add: chooseEndpoint_def Let_def)
  moreover obtain fn where "hg_createFuncs g ?name = Some fn" using ok mem by (auto simp: hgroup_ok_def)
  ultimately have "\<exists>name fn. fst (chooseEndpoint g) = Some name \<and> createConnByEndpoint name g = Some fn \<and>
       createConn g = (Some fn, snd (chooseEndpoint g))"
    using assms(3) by (simp add: createConnByEndpoint_def createConn_def Let_def)
  then show ?thesis
    using ok unfolding choices_rotate [OF assms(3-5)]
    by (auto simp: hgroup_ok_def distinct_map createConnByEndpoint_def)
qed

theorem round_robin_witness:
  "choices (Suc (Suc 0)) (the (hc_heap demo_http2 0)) = [Some ''b'', Some ''a''] \<and>
   choices (Suc (Suc 0)) (the (hc_heap demo_http3 0)) = [Some ''a'', Some ''b''] \<and>
   createConnByEndpoint ''b'' (the (hc_heap demo_http2 0)) = Some 2"
  using round_robin [OF demo_http2_reachable demo_http2_eq] round_robin [OF demo_http3_reachable demo_http3_eq]
  by (simp add: demo_http2_eq demo_http3_eq createConnByEndpoint_def del: choices.simps)

end
