(* ===== verification/Go_Std.thy ===== *)
theory Go_Std
  imports Frp_Prelude
begin

text \<open>
  The functions of Go's standard library that the modelled code calls on strings and slices: decimal numbers
  (\<open>strconv.Atoi\<close>, \<open>ParseInt\<close>, \<open>Itoa\<close>), host and port (\<open>net.SplitHostPort\<close>, \<open>JoinHostPort\<close>), trimming of blanks
  (\<open>strings.TrimSpace\<close>) and \<open>slices.Compact\<close>.
\<close>

section \<open>Decimal numbers\<close>

definition isDigit :: "char \<Rightarrow> bool" where
  "isDigit c \<longleftrightarrow> 48 \<le> (of_char c :: nat) \<and> (of_char c :: nat) \<le> 57"

definition digitVal :: "char \<Rightarrow> nat" where
  "digitVal c = of_char c - 48"

definition digitChar :: "nat \<Rightarrow> char" where
  "digitChar d = char_of (48 + d)"

fun decDigits :: "nat \<Rightarrow> string \<Rightarrow> nat option" where
  "decDigits acc [] = Some acc"
| "decDigits acc (c # cs) = (if isDigit c then decDigits (10 * acc + digitVal c) cs else None)"

definition int64 :: "int \<Rightarrow> bool" where
  "int64 i \<longleftrightarrow> - (2 ^ 63) \<le> i \<and> i < 2 ^ 63"

text \<open>Go's \<open>int\<close> is 64 bits wide and its arithmetic wraps around.\<close>

definition wrap64 :: "int \<Rightarrow> int" where
  "wrap64 i = (i + 2 ^ 63) mod 2 ^ 64 - 2 ^ 63"

lemma wrap64_id: "int64 i \<Longrightarrow> wrap64 i = i"
  by (simp add: wrap64_def int64_def)

lemma wrap64_range: "int64 (wrap64 i)"
  by (simp add: wrap64_def int64_def)

definition inRange :: "int \<Rightarrow> int option" where
  "inRange i = (if int64 i then Some i else None)"

text \<open>An optional sign, at least one digit, and a value that fits 64 bits; \<open>Atoi\<close> is the same on 64-bit platforms.\<close>

definition ParseInt :: "string \<Rightarrow> int option" where
  "ParseInt s =
     (case s of [] \<Rightarrow> None
      | c # cs \<Rightarrow>
          if c = CHR ''-'' \<or> c = CHR ''+'' then
            if cs = [] then None
            else Option.bind (decDigits 0 cs) (\<lambda>n. inRange (if c = CHR ''-'' then - int n else int n))
          else Option.bind (decDigits 0 s) (\<lambda>n. inRange (int n)))"

abbreviation Atoi :: "string \<Rightarrow> int option" where
  "Atoi \<equiv> ParseInt"

fun natDigits :: "nat \<Rightarrow> string" where
  "natDigits n = (if n < 10 then [digitChar n] else natDigits (n div 10) @ [digitChar (n mod 10)])"

declare natDigits.simps [simp del]

definition Itoa :: "int \<Rightarrow> string" where
  "Itoa i = (if i < 0 then CHR ''-'' # natDigits (nat (- i)) else natDigits (nat i))"

lemma of_digitChar: "d < 10 \<Longrightarrow> (of_char (digitChar d) :: nat) = 48 + d"
  by (simp add: digitChar_def)

lemma digitChar_props: "d < 10 \<Longrightarrow> isDigit (digitChar d)" "d < 10 \<Longrightarrow> digitVal (digitChar d) = d"
  by (simp_all add: isDigit_def digitVal_def of_digitChar)

lemma decDigits_append: "decDigits acc (xs @ ys) = Option.bind (decDigits acc xs) (\<lambda>a. decDigits a ys)"
  by (induction acc xs rule: decDigits.induct) auto

lemma decDigits_natDigits: "decDigits 0 (natDigits n) = Some n"
proof (induction n rule: natDigits.induct)
  case (1 n)
  show ?case
    by (subst natDigits.simps) (use 1 in \<open>simp add: decDigits_append digitChar_props\<close>)
qed

lemma natDigits_ne [simp]: "natDigits n \<noteq> []"
  by (subst natDigits.simps) simp

lemma natDigits_digit: "set (natDigits n) \<subseteq> {c. isDigit c}"
proof (induction n rule: natDigits.induct)
  case (1 n)
  show ?case by (subst natDigits.simps) (use 1 in \<open>auto simp: digitChar_props\<close>)
qed

lemma digit_not_sign: "isDigit c \<Longrightarrow> c \<noteq> CHR ''-'' \<and> c \<noteq> CHR ''+'' \<and> c \<noteq> CHR '':'' \<and> c \<noteq> CHR ''['' \<and> c \<noteq> CHR '']'' \<and> c \<noteq> CHR '','' \<and> c \<noteq> CHR '' ''"
  by (auto simp: isDigit_def)

lemma ParseInt_natDigits: "int64 (int n) \<Longrightarrow> ParseInt (natDigits n) = Some (int n)"
proof -
  assume n: "int64 (int n)"
  obtain c cs where c: "natDigits n = c # cs" by (cases "natDigits n") auto
  then have "c \<noteq> CHR ''-''" "c \<noteq> CHR ''+''" using natDigits_digit [of n] digit_not_sign [of c] by auto
  then show ?thesis using n decDigits_natDigits [of n] by (simp add: ParseInt_def c inRange_def)
qed

lemma ParseInt_Itoa: "int64 i \<Longrightarrow> ParseInt (Itoa i) = Some i"
proof (cases "i < 0")
  case True
  then show "int64 i \<Longrightarrow> ?thesis" by (simp add: Itoa_def ParseInt_def decDigits_natDigits inRange_def)
next
  case False
  then show "int64 i \<Longrightarrow> ?thesis" using ParseInt_natDigits [of "nat i"] by (simp add: Itoa_def)
qed

section \<open>Host and port\<close>

datatype addr_error = MissingPort | MissingBracket | TooManyColons | UnexpectedBracket

text \<open>The part after the last colon and the part before it.\<close>

definition splitLastColon :: "string \<Rightarrow> (string \<times> string) option" where
  "splitLastColon s = (if CHR '':'' \<in> set s
     then Some (rev (tl (dropWhile (\<lambda>c. c \<noteq> CHR '':'') (rev s))), rev (takeWhile (\<lambda>c. c \<noteq> CHR '':'') (rev s))) else None)"

definition SplitHostPort :: "string \<Rightarrow> (addr_error, string \<times> string) result" where
  "SplitHostPort s =
     (case splitLastColon s of None \<Rightarrow> Inl MissingPort
      | Some (before, port) \<Rightarrow>
          (case s of
             c # cs \<Rightarrow>
               if c = CHR ''['' then
                 if CHR '']'' \<notin> set s then Inl MissingBracket
                 else
                   let host = takeWhile (\<lambda>c. c \<noteq> CHR '']'') cs; rest = tl (dropWhile (\<lambda>c. c \<noteq> CHR '']'') cs)
                   in if rest = [] then Inl MissingPort
                      else if before \<noteq> CHR ''['' # host @ '']'' then
                        (if hd rest = CHR '':'' then Inl TooManyColons else Inl MissingPort)
                      else if CHR ''['' \<in> set cs \<or> CHR '']'' \<in> set rest then Inl UnexpectedBracket
                      else Inr (host, port)
               else if CHR '':'' \<in> set before then Inl TooManyColons
               else if CHR ''['' \<in> set s \<or> CHR '']'' \<in> set s then Inl UnexpectedBracket
               else Inr (before, port)
           | [] \<Rightarrow> Inl MissingPort))"

definition JoinHostPort :: "string \<Rightarrow> string \<Rightarrow> string" where
  "JoinHostPort host port = (if CHR '':'' \<in> set host then ''['' @ host @ '']:'' @ port else host @ '':'' @ port)"

lemma splitLastColon_append: "CHR '':'' \<notin> set port \<Longrightarrow> splitLastColon (host @ CHR '':'' # port) = Some (host, port)"
  by (simp add: splitLastColon_def dropWhile_append takeWhile_append)

text \<open>\<open>SplitHostPort\<close> undoes \<open>JoinHostPort\<close> for hosts without brackets, IPv6 addresses included.\<close>

lemma SplitHostPort_JoinHostPort:
  assumes "CHR ''['' \<notin> set host" "CHR '']'' \<notin> set host" "CHR '':'' \<notin> set port" "CHR ''['' \<notin> set port" "CHR '']'' \<notin> set port"
  shows "SplitHostPort (JoinHostPort host port) = Inr (host, port)"
proof (cases "CHR '':'' \<in> set host")
  case True
  have "splitLastColon ((''['' @ host @ '']'') @ CHR '':'' # port) = Some (''['' @ host @ '']'', port)"
    by (rule splitLastColon_append [OF assms(3)])
  moreover have "takeWhile (\<lambda>c. c \<noteq> CHR '']'') (host @ CHR '']'' # CHR '':'' # port) = host"
    "dropWhile (\<lambda>c. c \<noteq> CHR '']'') (host @ CHR '']'' # CHR '':'' # port) = CHR '']'' # CHR '':'' # port"
    using assms(2) by (auto simp: takeWhile_append dropWhile_append)
  ultimately show ?thesis
    using True assms by (simp add: SplitHostPort_def JoinHostPort_def Let_def)
next
  case False
  then show ?thesis
    using assms splitLastColon_append [OF assms(3), of host]
    by (cases host) (auto simp: SplitHostPort_def JoinHostPort_def)
qed

section \<open>Slices\<close>

text \<open>Runs of equal elements are replaced by one; since Go 1.22 the rest of the underlying array is cleared, which the
  caller sees through the slice it passed.\<close>

definition Compact :: "'a list \<Rightarrow> 'a list" where
  "Compact xs = remdups_adj xs"

definition afterCompact :: "'a \<Rightarrow> 'a list \<Rightarrow> 'a list" where
  "afterCompact zero xs = Compact xs @ replicate (length xs - length (Compact xs)) zero"

lemma length_afterCompact [simp]: "length (afterCompact z xs) = length xs"
  by (simp add: afterCompact_def Compact_def remdups_adj_length)

lemma set_afterCompact: "set (afterCompact z xs) \<subseteq> insert z (set xs)"
  by (auto simp: afterCompact_def Compact_def)

text \<open>Blanks as \<open>strings.TrimSpace\<close> sees them in ASCII.\<close>

definition isSpace :: "char \<Rightarrow> bool" where
  "isSpace c \<longleftrightarrow> (of_char c :: nat) \<in> {9, 10, 11, 12, 13, 32}"

definition ToUpper :: "string \<Rightarrow> string" where
  "ToUpper s = map (\<lambda>c. let n = of_char c :: nat in if 97 \<le> n \<and> n \<le> 122 then char_of (n - 32) else c) s"

definition TrimSpace :: "string \<Rightarrow> string" where
  "TrimSpace s = rev (dropWhile isSpace (rev (dropWhile isSpace s)))"

lemma set_TrimSpace: "set (TrimSpace s) \<subseteq> set s"
  unfolding TrimSpace_def by (auto dest!: set_dropWhileD)

lemma length_TrimSpace: "length (TrimSpace s) \<le> length s"
  unfolding TrimSpace_def by (metis length_dropWhile_le length_rev order_trans)

lemma TrimSpace_id: "(\<And>c. c \<in> set s \<Longrightarrow> \<not> isSpace c) \<Longrightarrow> TrimSpace s = s"
proof -
  assume *: "\<And>c. c \<in> set s \<Longrightarrow> \<not> isSpace c"
  have "dropWhile isSpace t = t" if "set t \<subseteq> set s" for t using * that by (cases t) auto
  then show ?thesis by (simp add: TrimSpace_def)
qed

end
