(* ===== verification/Nathole_Analysis.thy ===== *)
theory Nathole_Analysis
  imports Go_Std
begin

text \<open>
  How the server decides the way two peers punch a hole (\<open>pkg/nathole/classify.go\<close>, \<open>analysis.go\<close>): the
  classification of a peer's NAT from the addresses STUN servers saw, the tables of behaviours per mode,
  the scores a pair of peers accumulates, and the analyzer that keeps those scores per pair.
\<close>

section \<open>Classification\<close>

datatype nat_type = EasyNAT | HardNAT

datatype nat_behavior = BehaviorNoChange | BehaviorIPChanged | BehaviorPortChanged | BehaviorBothChanged

record NatFeature =
  NatType :: nat_type
  Behavior :: nat_behavior
  PortsDifference :: int
  RegularPortsChange :: bool
  PublicNetwork :: bool

datatype classify_error = NotEnoughAddresses | BadAddress addr_error | BadPort string

text \<open>The variables of the loop of \<open>ClassifyNATFeature\<close>.\<close>

record classify_vars =
  ipChanged :: bool
  portChanged :: bool
  baseIP :: string
  basePort :: string
  portMax :: int
  portMin :: int
  public :: bool

definition classifyAddr :: "string list \<Rightarrow> string \<Rightarrow> string \<Rightarrow> int \<Rightarrow> classify_vars \<Rightarrow> classify_vars" where
  "classifyAddr localIPs ip port portNum v =
     (let v = (if ip \<in> set localIPs then v\<lparr>public := True\<rparr> else v) in
      if baseIP v = '''' then v\<lparr>baseIP := ip, basePort := port, portMax := portNum, portMin := portNum\<rparr>
      else v\<lparr>portMax := max (portMax v) portNum, portMin := min (portMin v) portNum,
             ipChanged := ipChanged v \<or> baseIP v \<noteq> ip, portChanged := portChanged v \<or> basePort v \<noteq> port\<rparr>)"

fun classifyLoop :: "string list \<Rightarrow> string list \<Rightarrow> classify_vars \<Rightarrow> (classify_error, classify_vars) result" where
  "classifyLoop localIPs [] v = Inr v"
| "classifyLoop localIPs (addr # addrs) v =
     (case SplitHostPort addr of Inl e \<Rightarrow> Inl (BadAddress e)
      | Inr (ip, port) \<Rightarrow>
          (case Atoi port of None \<Rightarrow> Inl (BadPort port)
           | Some portNum \<Rightarrow> classifyLoop localIPs addrs (classifyAddr localIPs ip port portNum v)))"

definition classifyResult :: "classify_vars \<Rightarrow> NatFeature" where
  "classifyResult v =
     (let b = (if ipChanged v \<and> portChanged v then BehaviorBothChanged
               else if ipChanged v then BehaviorIPChanged
               else if portChanged v then BehaviorPortChanged else BehaviorNoChange);
          d = (if b = BehaviorPortChanged then wrap64 (portMax v - portMin v) else 0)
      in \<lparr>NatType = (if b = BehaviorNoChange then EasyNAT else HardNAT), Behavior = b, PortsDifference = d,
          RegularPortsChange = (b = BehaviorPortChanged \<and> d \<le> 5 \<and> d \<ge> 1), PublicNetwork = public v\<rparr>)"

definition ClassifyNATFeature :: "string list \<Rightarrow> string list \<Rightarrow> (classify_error, NatFeature) result" where
  "ClassifyNATFeature addresses localIPs =
     (if length addresses \<le> 1 then Inl NotEnoughAddresses
      else case classifyLoop localIPs addresses
                  \<lparr>ipChanged = False, portChanged = False, baseIP = '''', basePort = '''', portMax = 0, portMin = 0, public = False\<rparr>
           of Inl e \<Rightarrow> Inl e | Inr v \<Rightarrow> Inr (classifyResult v))"

text \<open>Counts of easy and hard NATs, and of the hard ones whose ports change regularly.\<close>

fun ClassifyFeatureCount :: "NatFeature list \<Rightarrow> nat \<times> nat \<times> nat" where
  "ClassifyFeatureCount [] = (0, 0, 0)"
| "ClassifyFeatureCount (f # fs) =
     (let (easy, hard, regular) = ClassifyFeatureCount fs in
      if NatType f = EasyNAT then (easy + 1, hard, regular)
      else (easy, hard + 1, if RegularPortsChange f then regular + 1 else regular))"

section \<open>Behaviours\<close>

datatype detect_role = NoRole | DetectRoleSender | DetectRoleReceiver

record RecommandBehavior =
  Role :: detect_role
  TTL :: int
  SendDelayMs :: int
  PortsRangeNumber :: int
  PortsRandomNumber :: int
  ListenRandomPorts :: int

definition noBehavior :: RecommandBehavior where
  "noBehavior = \<lparr>Role = NoRole, TTL = 0, SendDelayMs = 0, PortsRangeNumber = 0, PortsRandomNumber = 0, ListenRandomPorts = 0\<rparr>"

abbreviation sender :: RecommandBehavior where
  "sender \<equiv> noBehavior\<lparr>Role := DetectRoleSender\<rparr>"

abbreviation receiver :: RecommandBehavior where
  "receiver \<equiv> noBehavior\<lparr>Role := DetectRoleReceiver\<rparr>"

type_synonym behaviors = "(RecommandBehavior \<times> RecommandBehavior) list"

definition mode0Behaviors :: behaviors where
  "mode0Behaviors =
     [(sender, receiver\<lparr>TTL := 7\<rparr>),
      (receiver\<lparr>TTL := 7\<rparr>, sender),
      (sender, receiver\<lparr>TTL := 4\<rparr>),
      (receiver\<lparr>TTL := 4\<rparr>, sender),
      (sender, receiver),
      (receiver, sender),
      (sender\<lparr>SendDelayMs := 5000\<rparr>, receiver),
      (sender\<lparr>SendDelayMs := 10000\<rparr>, receiver),
      (receiver, sender\<lparr>SendDelayMs := 5000\<rparr>),
      (receiver, sender\<lparr>SendDelayMs := 10000\<rparr>)]"

definition mode1Behaviors :: behaviors where
  "mode1Behaviors =
     [(sender, receiver\<lparr>TTL := 7, PortsRangeNumber := 10\<rparr>),
      (sender\<lparr>SendDelayMs := 2000\<rparr>, receiver\<lparr>TTL := 7, PortsRangeNumber := 10\<rparr>),
      (sender, receiver\<lparr>TTL := 4, PortsRangeNumber := 10\<rparr>),
      (sender\<lparr>SendDelayMs := 2000\<rparr>, receiver\<lparr>TTL := 4, PortsRangeNumber := 10\<rparr>),
      (sender, receiver\<lparr>PortsRangeNumber := 10\<rparr>),
      (sender\<lparr>SendDelayMs := 2000\<rparr>, receiver\<lparr>PortsRangeNumber := 10\<rparr>)]"

definition mode2Behaviors :: behaviors where
  "mode2Behaviors =
     [(sender\<lparr>PortsRandomNumber := 1000, SendDelayMs := 3000\<rparr>, receiver\<lparr>ListenRandomPorts := 256, TTL := 7\<rparr>),
      (sender\<lparr>PortsRandomNumber := 1000, SendDelayMs := 3000\<rparr>, receiver\<lparr>ListenRandomPorts := 256, TTL := 4\<rparr>),
      (sender\<lparr>PortsRandomNumber := 1000, SendDelayMs := 3000\<rparr>, receiver\<lparr>ListenRandomPorts := 256\<rparr>)]"

definition mode3Behaviors :: behaviors where
  "mode3Behaviors =
     [(sender\<lparr>PortsRangeNumber := 10\<rparr>, receiver\<lparr>TTL := 7, PortsRangeNumber := 10\<rparr>),
      (sender\<lparr>PortsRangeNumber := 10\<rparr>, receiver\<lparr>TTL := 4, PortsRangeNumber := 10\<rparr>),
      (sender\<lparr>PortsRangeNumber := 10\<rparr>, receiver\<lparr>PortsRangeNumber := 10\<rparr>),
      (receiver\<lparr>TTL := 7, PortsRangeNumber := 10\<rparr>, sender\<lparr>PortsRangeNumber := 10\<rparr>),
      (receiver\<lparr>TTL := 4, PortsRangeNumber := 10\<rparr>, sender\<lparr>PortsRangeNumber := 10\<rparr>),
      (receiver\<lparr>PortsRangeNumber := 10\<rparr>, sender\<lparr>PortsRangeNumber := 10\<rparr>)]"

definition mode4Behaviors :: behaviors where
  "mode4Behaviors =
     [(sender\<lparr>PortsRandomNumber := 1000, SendDelayMs := 3000\<rparr>,
       receiver\<lparr>ListenRandomPorts := 256, TTL := 7, PortsRangeNumber := 2\<rparr>),
      (sender\<lparr>PortsRandomNumber := 1000, SendDelayMs := 3000\<rparr>,
       receiver\<lparr>ListenRandomPorts := 256, TTL := 4, PortsRangeNumber := 2\<rparr>),
      (sender\<lparr>PortsRandomNumber := 1000, SendDelayMs := 3000\<rparr>,
       receiver\<lparr>ListenRandomPorts := 256, PortsRangeNumber := 2\<rparr>)]"

definition getBehaviorByMode :: "nat \<Rightarrow> behaviors" where
  "getBehaviorByMode mode =
     (if mode = 0 then mode0Behaviors else if mode = 1 then mode1Behaviors else if mode = 2 then mode2Behaviors
      else if mode = 3 then mode3Behaviors else if mode = 4 then mode4Behaviors else mode0Behaviors)"

definition getBehaviorByModeAndIndex :: "nat \<Rightarrow> nat \<Rightarrow> RecommandBehavior \<times> RecommandBehavior" where
  "getBehaviorByModeAndIndex mode index =
     (let bs = getBehaviorByMode mode in if index \<ge> length bs then (noBehavior, noBehavior) else bs ! index)"

section \<open>Scores\<close>

record behaviorScore =
  Mode :: nat
  Index :: nat
  Score :: int

record makeHoleRecords =
  scores :: "behaviorScore list"
  lastUpdateTime :: go_time

definition getBehaviorScoresByMode2 :: "nat \<Rightarrow> int \<Rightarrow> int \<Rightarrow> behaviorScore list" where
  "getBehaviorScoresByMode2 mode senderScore receiverScore =
     map (\<lambda>(i, b). \<lparr>Mode = mode, Index = i,
                    Score = (if Role (fst b) = DetectRoleSender then senderScore else receiverScore)\<rparr>)
       (enumerate 0 (getBehaviorByMode mode))"

definition getBehaviorScoresByMode :: "nat \<Rightarrow> int \<Rightarrow> behaviorScore list" where
  "getBehaviorScoresByMode mode defaultScore = getBehaviorScoresByMode2 mode defaultScore defaultScore"

definition appendMode0 :: "NatFeature \<Rightarrow> NatFeature \<Rightarrow> behaviorScore list" where
  "appendMode0 c v =
     (if PublicNetwork c then getBehaviorScoresByMode2 0 0 1
      else if PublicNetwork v then getBehaviorScoresByMode2 0 1 0
      else getBehaviorScoresByMode 0 0)"

definition newMakeHoleRecords :: "NatFeature \<Rightarrow> NatFeature \<Rightarrow> go_time \<Rightarrow> makeHoleRecords" where
  "newMakeHoleRecords c v now =
     (let (easyCount, hardCount, portsChangedRegularCount) = ClassifyFeatureCount [c, v] in
      \<lparr>scores =
         (if easyCount = 2 then appendMode0 c v
          else if hardCount = 1 \<and> portsChangedRegularCount = 1 then
            getBehaviorScoresByMode 1 0 @ getBehaviorScoresByMode 2 0 @ appendMode0 c v
          else if hardCount = 1 \<and> portsChangedRegularCount = 0 then
            getBehaviorScoresByMode 2 0 @ getBehaviorScoresByMode 1 0 @ appendMode0 c v
          else if hardCount = 2 \<and> portsChangedRegularCount = 2 then
            getBehaviorScoresByMode 3 0 @ getBehaviorScoresByMode 4 0
          else if hardCount = 2 \<and> portsChangedRegularCount = 1 then getBehaviorScoresByMode 4 0
          else getBehaviorScoresByMode 0 1 @ getBehaviorScoresByMode 1 1 @ getBehaviorScoresByMode 3 1),
       lastUpdateTime = now\<rparr>)"

fun bumpScore :: "nat \<Rightarrow> nat \<Rightarrow> behaviorScore list \<Rightarrow> behaviorScore list" where
  "bumpScore mode index [] = []"
| "bumpScore mode index (s # ss) =
     (if Mode s \<noteq> mode \<or> Index s \<noteq> index then s # bumpScore mode index ss
      else s\<lparr>Score := min (Score s + 2) 10\<rparr> # ss)"

definition reportSuccess :: "nat \<Rightarrow> nat \<Rightarrow> go_time \<Rightarrow> makeHoleRecords \<Rightarrow> makeHoleRecords" where
  "reportSuccess mode index now r = r\<lparr>lastUpdateTime := now, scores := bumpScore mode index (scores r)\<rparr>"

text \<open>\<open>slices.MaxFunc\<close>: the position of the first of the greatest scores.\<close>

fun MaxFunc :: "nat \<Rightarrow> int \<Rightarrow> nat \<Rightarrow> behaviorScore list \<Rightarrow> nat" where
  "MaxFunc best m i [] = best"
| "MaxFunc best m i (s # ss) = (if Score s > m then MaxFunc i (Score s) (i + 1) ss else MaxFunc best m (i + 1) ss)"

definition recommand :: "go_time \<Rightarrow> makeHoleRecords \<Rightarrow> (nat \<times> nat) \<times> makeHoleRecords" where
  "recommand now r =
     (case scores r of [] \<Rightarrow> ((0, 0), r)
      | s # ss \<Rightarrow>
          let i = MaxFunc 0 (Score s) 1 ss; m = scores r ! i
          in ((Mode m, Index m), r\<lparr>scores := (scores r)[i := m\<lparr>Score := Score m - 1\<rparr>], lastUpdateTime := now\<rparr>))"

section \<open>The analyzer\<close>

record Analyzer =
  records :: "string \<rightharpoonup> makeHoleRecords"
  dataReserveDuration :: duration

definition NewAnalyzer :: "duration \<Rightarrow> Analyzer" where
  "NewAnalyzer d = \<lparr>records = Map.empty, dataReserveDuration = d\<rparr>"

text \<open>Which of the two behaviours the client takes: modes 1, 2 and 4 fix the side of the hard or regular NAT.\<close>

definition orient :: "nat \<Rightarrow> NatFeature \<Rightarrow> RecommandBehavior \<times> RecommandBehavior \<Rightarrow> RecommandBehavior \<times> RecommandBehavior" where
  "orient mode c cv =
     (if mode = 1 then (if NatType c = EasyNAT then prod.swap cv else cv)
      else if mode = 2 then (if NatType c = HardNAT then prod.swap cv else cv)
      else if mode = 4 then (if \<not> RegularPortsChange c then prod.swap cv else cv)
      else cv)"

definition GetRecommandBehaviors ::
    "string \<Rightarrow> NatFeature \<Rightarrow> NatFeature \<Rightarrow> go_time \<Rightarrow> Analyzer
     \<Rightarrow> (nat \<times> nat \<times> RecommandBehavior \<times> RecommandBehavior) \<times> Analyzer" where
  "GetRecommandBehaviors key c v now a =
     (let r = (case records a key of Some r \<Rightarrow> r | None \<Rightarrow> newMakeHoleRecords c v now);
          ((mode, index), r') = recommand now r;
          (cB, vB) = orient mode c (getBehaviorByModeAndIndex mode index)
      in ((mode, index, cB, vB), a\<lparr>records := (records a)(key \<mapsto> r')\<rparr>))"

definition ReportSuccess :: "string \<Rightarrow> nat \<Rightarrow> nat \<Rightarrow> go_time \<Rightarrow> Analyzer \<Rightarrow> Analyzer" where
  "ReportSuccess key mode index now a =
     (case records a key of None \<Rightarrow> a
      | Some r \<Rightarrow> a\<lparr>records := (records a)(key \<mapsto> reportSuccess mode index now r)\<rparr>)"

definition expired :: "go_time \<Rightarrow> Analyzer \<Rightarrow> string \<Rightarrow> bool" where
  "expired now a key \<longleftrightarrow> (case records a key of None \<Rightarrow> False
     | Some r \<Rightarrow> now - lastUpdateTime r > dataReserveDuration a)"

definition Clean :: "go_time \<Rightarrow> Analyzer \<Rightarrow> (nat \<times> nat) \<times> Analyzer" where
  "Clean now a =
     ((card {k \<in> dom (records a). expired now a k}, card (dom (records a))),
      a\<lparr>records := (\<lambda>k. if expired now a k then None else records a k)\<rparr>)"

section \<open>What the classification computes\<close>

type_synonym endpoint = "string \<times> string \<times> int"

definition parsed :: "string \<Rightarrow> endpoint \<Rightarrow> bool" where
  "parsed addr e \<longleftrightarrow> SplitHostPort addr = Inr (fst e, fst (snd e)) \<and> Atoi (fst (snd e)) = Some (snd (snd e))"

lemma classifyLoop_step: "parsed addr e \<Longrightarrow>
   classifyLoop l (addr # addrs) v = classifyLoop l addrs (classifyAddr l (fst e) (fst (snd e)) (snd (snd e)) v)"
  by (simp add: parsed_def)

lemma classifyAddr_based:
  assumes "baseIP v \<noteq> ''''"
  shows "classifyAddr l ip port n v =
    v\<lparr>public := public v \<or> ip \<in> set l, portMax := max (portMax v) n, portMin := min (portMin v) n,
      ipChanged := ipChanged v \<or> baseIP v \<noteq> ip, portChanged := portChanged v \<or> basePort v \<noteq> port\<rparr>"
  using assms by (simp add: classifyAddr_def)

lemma classifyLoop_based:
  assumes "list_all2 parsed addrs es" "baseIP v \<noteq> ''''"
  shows "classifyLoop l addrs v = Inr (v\<lparr>
      public := public v \<or> (\<exists>e \<in> set es. fst e \<in> set l),
      portMax := Max (insert (portMax v) ((\<lambda>e. snd (snd e)) ` set es)),
      portMin := Min (insert (portMin v) ((\<lambda>e. snd (snd e)) ` set es)),
      ipChanged := ipChanged v \<or> (\<exists>e \<in> set es. fst e \<noteq> baseIP v),
      portChanged := portChanged v \<or> (\<exists>e \<in> set es. fst (snd e) \<noteq> basePort v)\<rparr>)"
  using assms
proof (induction addrs es arbitrary: v rule: list_all2_induct)
  case Nil
  then show ?case by simp
next
  case (Cons a addrs e es)
  have m: "Max (insert (max x y) A) = Max (insert x (insert y A))"
    "Min (insert (min x y) A) = Min (insert x (insert y A))" if "finite A" for x y :: int and A
    using that by (cases "A = {}"; simp add: max.assoc min.assoc)+
  show ?case
    unfolding classifyLoop_step [OF Cons.hyps(1)] classifyAddr_based [OF Cons.prems]
    by (subst Cons.IH, simp add: Cons.prems, intro sum.inject(2) [THEN iffD2] classify_vars.equality)
      (use Cons.prems in \<open>fastforce simp: m\<close>)+
qed

definition initVars :: classify_vars where
  "initVars = \<lparr>ipChanged = False, portChanged = False, baseIP = '''', basePort = '''', portMax = 0, portMin = 0, public = False\<rparr>"

lemma ClassifyNATFeature_eq: "ClassifyNATFeature addresses localIPs =
     (if length addresses \<le> 1 then Inl NotEnoughAddresses
      else case classifyLoop localIPs addresses initVars of Inl e \<Rightarrow> Inl e | Inr v \<Rightarrow> Inr (classifyResult v))"
  by (simp add: ClassifyNATFeature_def initVars_def)

text \<open>The addresses are compared with the first one: what changed, and by how much the ports differ.\<close>

definition classifySpec :: "endpoint list \<Rightarrow> string list \<Rightarrow> NatFeature" where
  "classifySpec es localIPs =
     (let ips = fst ` set es; ports = (\<lambda>e. fst (snd e)) ` set es; nums = (\<lambda>e. snd (snd e)) ` set es;
          b = (if \<not> is_singleton ips \<and> \<not> is_singleton ports then BehaviorBothChanged
               else if \<not> is_singleton ips then BehaviorIPChanged
               else if \<not> is_singleton ports then BehaviorPortChanged else BehaviorNoChange)
      in \<lparr>NatType = (if b = BehaviorNoChange then EasyNAT else HardNAT), Behavior = b,
          PortsDifference = (if b = BehaviorPortChanged then wrap64 (Max nums - Min nums) else 0),
          RegularPortsChange = (b = BehaviorPortChanged \<and> wrap64 (Max nums - Min nums) \<in> {1..5}),
          PublicNetwork = (ips \<inter> set localIPs \<noteq> {})\<rparr>)"

lemma is_singleton_image_Cons: "is_singleton (f ` set (x # xs)) \<longleftrightarrow> (\<forall>y \<in> set xs. f y = f x)"
proof
  assume "is_singleton (f ` set (x # xs))"
  then obtain a where "f ` set (x # xs) = {a}" by (auto simp: is_singleton_def)
  then have "f y = a" if "y \<in> set (x # xs)" for y using that by blast
  then show "\<forall>y \<in> set xs. f y = f x" by simp
next
  assume "\<forall>y \<in> set xs. f y = f x"
  then have "f ` set (x # xs) = {f x}" by auto
  then show "is_singleton (f ` set (x # xs))" by (simp add: is_singleton_def)
qed

text \<open>C26: Classification. For at least two well-formed addresses with a non-empty host, \<open>ClassifyNATFeature\<close> returns the
  feature of the specification: hard exactly when the hosts or the ports are not all the same, with the
  spread of the port numbers as the difference and a spread of 1 to 5 called regular, and public exactly when one of
  the hosts is a local address.\<close>

theorem classify_correct:
  assumes "list_all2 parsed addresses es" "length addresses > 1" "fst (hd es) \<noteq> ''''"
  shows "ClassifyNATFeature addresses localIPs = Inr (classifySpec es localIPs)"
proof -
  obtain e es' a addrs where E: "es = e # es'" "addresses = a # addrs" "parsed a e" "list_all2 parsed addrs es'"
    using assms(1,2) by (cases es; cases addresses) auto
  let ?v = "classifyAddr localIPs (fst e) (fst (snd e)) (snd (snd e)) initVars"
  have v: "?v = initVars\<lparr>public := fst e \<in> set localIPs, baseIP := fst e, basePort := fst (snd e),
      portMax := snd (snd e), portMin := snd (snd e)\<rparr>"
    by (simp add: classifyAddr_def initVars_def)
  have "baseIP ?v \<noteq> ''''" using assms(3) E(1) unfolding v by simp
  note L = classifyLoop_based [OF E(4) this, of localIPs, folded classifyLoop_step [OF E(3)]]
  have len: "\<not> length addresses \<le> 1" using assms(2) by simp
  show ?thesis
    unfolding ClassifyNATFeature_eq if_not_P [OF len] unfolding E(2) L v E(1) classifySpec_def Let_def is_singleton_image_Cons
    by (auto simp: classifyResult_def initVars_def Let_def)
qed

theorem classify_correct_witness:
  "ClassifyNATFeature [''1.2.3.4:1000'', ''1.2.3.4:1003''] [''10.0.0.1''] =
     Inr (classifySpec [(''1.2.3.4'', ''1000'', 1000), (''1.2.3.4'', ''1003'', 1003)] [''10.0.0.1''])"
proof (rule classify_correct)
  show "list_all2 parsed [''1.2.3.4:1000'', ''1.2.3.4:1003''] [(''1.2.3.4'', ''1000'', 1000), (''1.2.3.4'', ''1003'', 1003)]"
    by code_simp
qed simp_all

section \<open>Roles\<close>

definition complementary :: "RecommandBehavior \<times> RecommandBehavior \<Rightarrow> bool" where
  "complementary cv \<longleftrightarrow>
     Role (fst cv) = DetectRoleSender \<and> Role (snd cv) = DetectRoleReceiver \<or>
     Role (fst cv) = DetectRoleReceiver \<and> Role (snd cv) = DetectRoleSender"

lemmas mode_tables = mode0Behaviors_def mode1Behaviors_def mode2Behaviors_def mode3Behaviors_def mode4Behaviors_def

lemma table_ne: "getBehaviorByMode mode \<noteq> []"
  by (simp add: getBehaviorByMode_def mode_tables)

lemma table_complementary: "b \<in> set (getBehaviorByMode mode) \<Longrightarrow> complementary b"
  by (auto simp: getBehaviorByMode_def mode_tables complementary_def split: if_splits)

lemma table_sender_first: "b \<in> set (getBehaviorByMode mode) \<Longrightarrow> mode \<in> {1, 2, 4} \<Longrightarrow>
   Role (fst b) = DetectRoleSender \<and> Role (snd b) = DetectRoleReceiver"
  by (auto simp: getBehaviorByMode_def mode_tables split: if_splits)

lemma complementary_swap [simp]: "complementary (prod.swap cv) = complementary cv"
  by (auto simp: complementary_def)

lemma orient_complementary [simp]: "complementary (orient mode c cv) = complementary cv"
  by (simp add: orient_def)

text \<open>A score refers to a row of its mode's table and never exceeds ten.\<close>

definition score_ok :: "behaviorScore \<Rightarrow> bool" where
  "score_ok s \<longleftrightarrow> Mode s \<le> 4 \<and> Index s < length (getBehaviorByMode (Mode s)) \<and> Score s \<le> 10"

definition records_ok :: "makeHoleRecords \<Rightarrow> bool" where
  "records_ok r \<longleftrightarrow> scores r \<noteq> [] \<and> (\<forall>s \<in> set (scores r). score_ok s)"

definition analyzer_ok :: "Analyzer \<Rightarrow> bool" where
  "analyzer_ok a \<longleftrightarrow> (\<forall>r \<in> ran (records a). records_ok r)"

lemma scoresByMode2_ok:
  assumes "s \<in> set (getBehaviorScoresByMode2 mode x y)" "mode \<le> 4" "x \<le> 10" "y \<le> 10"
  shows "score_ok s"
  using assms by (auto simp: getBehaviorScoresByMode2_def score_ok_def in_set_enumerate_eq)

lemma scoresByMode2_ne [simp]: "getBehaviorScoresByMode2 mode x y \<noteq> []"
  using table_ne [of mode] by (simp add: getBehaviorScoresByMode2_def enumerate_eq_zip)

lemma newMakeHoleRecords_ok: "records_ok (newMakeHoleRecords c v now)"
proof -
  have *: "s \<in> set (getBehaviorScoresByMode m x) \<Longrightarrow> m \<le> 4 \<Longrightarrow> x \<le> 10 \<Longrightarrow> score_ok s" for s m x
    unfolding getBehaviorScoresByMode_def by (rule scoresByMode2_ok)
  have 0: "s \<in> set (appendMode0 c v) \<Longrightarrow> score_ok s" for s
    by (auto simp: appendMode0_def split: if_splits intro: scoresByMode2_ok *)
  have ne: "getBehaviorScoresByMode m x \<noteq> []" "appendMode0 c v \<noteq> []" for m x
    by (simp_all add: getBehaviorScoresByMode_def appendMode0_def)
  show ?thesis
    unfolding records_ok_def newMakeHoleRecords_def Let_def
    by (auto simp: ne split: prod.splits intro: * 0)
qed

lemma bumpScore_ok: "\<forall>s \<in> set ss. score_ok s \<Longrightarrow> s' \<in> set (bumpScore m i ss) \<Longrightarrow> score_ok s'"
  by (induction ss) (auto simp: score_ok_def split: if_splits)

lemma bumpScore_Nil [simp]: "bumpScore m i ss = [] \<longleftrightarrow> ss = []"
  by (cases ss) auto

lemma reportSuccess_ok: "records_ok r \<Longrightarrow> records_ok (reportSuccess m i now r)"
  by (auto simp: records_ok_def reportSuccess_def intro: bumpScore_ok)

text \<open>\<open>MaxFunc\<close> finds the first greatest score.\<close>

definition firstMax :: "behaviorScore list \<Rightarrow> nat \<Rightarrow> bool" where
  "firstMax ss i \<longleftrightarrow> i < length ss \<and> (\<forall>j < length ss. Score (ss ! j) \<le> Score (ss ! i)) \<and> (\<forall>j < i. Score (ss ! j) < Score (ss ! i))"

lemma firstMax_unique: "firstMax ss i \<Longrightarrow> firstMax ss j \<Longrightarrow> i = j"
  unfolding firstMax_def by (metis linorder_neqE_nat not_less)

lemma MaxFunc_firstMax:
  "firstMax pre best \<Longrightarrow> firstMax (pre @ ss) (MaxFunc best (Score (pre ! best)) (length pre) ss)"
proof (induction ss arbitrary: pre best)
  case Nil
  then show ?case by simp
next
  case (Cons s ss)
  show ?case
  proof (cases "Score s > Score (pre ! best)")
    case True
    then have "firstMax (pre @ [s]) (length pre)"
      using Cons.prems by (auto simp: firstMax_def nth_append less_Suc_eq intro: le_less_trans less_imp_le)
    from Cons.IH [OF this] show ?thesis using True by simp
  next
    case False
    then have "firstMax (pre @ [s]) best" using Cons.prems by (auto simp: firstMax_def nth_append less_Suc_eq)
    moreover have "best < length pre" using Cons.prems by (simp add: firstMax_def)
    ultimately show ?thesis using False Cons.IH [of "pre @ [s]" best] by (simp add: nth_append)
  qed
qed

lemma recommand_eq:
  assumes "firstMax (scores r) i"
  shows "recommand now r = ((Mode (scores r ! i), Index (scores r ! i)),
    r\<lparr>scores := (scores r)[i := (scores r ! i)\<lparr>Score := Score (scores r ! i) - 1\<rparr>], lastUpdateTime := now\<rparr>)"
proof -
  obtain s ss where s: "scores r = s # ss" using assms by (cases "scores r") (auto simp: firstMax_def)
  have "firstMax [s] 0" by (simp add: firstMax_def)
  from MaxFunc_firstMax [OF this, of ss] have "firstMax (scores r) (MaxFunc 0 (Score s) 1 ss)" by (simp add: s)
  then have "MaxFunc 0 (Score s) 1 ss = i" using assms by (rule firstMax_unique)
  then show ?thesis by (simp add: recommand_def s Let_def del: list_update.simps)
qed

lemma firstMax_exists: "ss \<noteq> [] \<Longrightarrow> \<exists>i. firstMax ss i"
  using MaxFunc_firstMax [of "[hd ss]" 0 "tl ss"] by (cases ss) (auto simp: firstMax_def)

lemma recommand_ok:
  assumes "records_ok r" "recommand now r = ((mode, index), r')"
  shows "records_ok r'" "mode \<le> 4" "index < length (getBehaviorByMode mode)"
proof -
  obtain i where i: "firstMax (scores r) i" using assms(1) firstMax_exists by (auto simp: records_ok_def)
  then have m: "score_ok (scores r ! i)" using assms(1) by (auto simp: records_ok_def firstMax_def)
  then have "score_ok ((scores r ! i)\<lparr>Score := Score (scores r ! i) - 1\<rparr>)" by (simp add: score_ok_def)
  moreover have E: "mode = Mode (scores r ! i)" "index = Index (scores r ! i)"
    "r' = r\<lparr>scores := (scores r)[i := (scores r ! i)\<lparr>Score := Score (scores r ! i) - 1\<rparr>], lastUpdateTime := now\<rparr>"
    using assms(2) unfolding recommand_eq [OF i] by simp_all
  ultimately show "records_ok r'" using assms(1) set_update_subset_insert [of "scores r" i]
    by (auto simp: records_ok_def)
  show "mode \<le> 4" "index < length (getBehaviorByMode mode)" using m by (simp_all add: score_ok_def E)
qed

section \<open>Runs of the analyzer\<close>

text \<open>Everything the controller does with the analyzer, at any times and for any keys and features.\<close>

inductive analyzer_reach :: "Analyzer \<Rightarrow> bool" where
  new: "analyzer_reach (NewAnalyzer d)"
| get: "analyzer_reach a \<Longrightarrow> analyzer_reach (snd (GetRecommandBehaviors key c v now a))"
| report: "analyzer_reach a \<Longrightarrow> analyzer_reach (ReportSuccess key mode index now a)"
| clean: "analyzer_reach a \<Longrightarrow> analyzer_reach (snd (Clean now a))"

definition recordsFor :: "string \<Rightarrow> NatFeature \<Rightarrow> NatFeature \<Rightarrow> go_time \<Rightarrow> Analyzer \<Rightarrow> makeHoleRecords" where
  "recordsFor key c v now a = (case records a key of Some r \<Rightarrow> r | None \<Rightarrow> newMakeHoleRecords c v now)"

lemma recordsFor_ok: "analyzer_ok a \<Longrightarrow> records_ok (recordsFor key c v now a)"
  by (auto simp: recordsFor_def analyzer_ok_def newMakeHoleRecords_ok intro: ranI split: option.splits)

lemma GetRecommandBehaviors_eq:
  assumes "recommand now (recordsFor key c v now a) = ((mode, index), r')"
  shows "GetRecommandBehaviors key c v now a =
    ((mode, index, orient mode c (getBehaviorByModeAndIndex mode index)), a\<lparr>records := (records a)(key \<mapsto> r')\<rparr>)"
  using assms by (simp add: GetRecommandBehaviors_def recordsFor_def Let_def split: prod.splits)

lemma ran_upd_subset: "ran (m(k \<mapsto> x)) \<subseteq> insert x (ran m)"
  by (auto simp: ran_def)

lemma GetRecommandBehaviors_ok: "analyzer_ok a \<Longrightarrow> analyzer_ok (snd (GetRecommandBehaviors key c v now a))"
proof -
  assume a: "analyzer_ok a"
  obtain mode index r' where r: "recommand now (recordsFor key c v now a) = ((mode, index), r')" by (metis surj_pair)
  show ?thesis
    using recommand_ok(1) [OF recordsFor_ok [OF a] r] a ran_upd_subset [of "records a" key r']
    unfolding GetRecommandBehaviors_eq [OF r] analyzer_ok_def by auto
qed

lemma ReportSuccess_ok: "analyzer_ok a \<Longrightarrow> analyzer_ok (ReportSuccess key mode index now a)"
  unfolding analyzer_ok_def ReportSuccess_def
  using ran_upd_subset [of "records a" key] by (fastforce split: option.splits intro: reportSuccess_ok ranI)

lemma Clean_ok: "analyzer_ok a \<Longrightarrow> analyzer_ok (snd (Clean now a))"
  by (auto simp: analyzer_ok_def Clean_def ran_def split: if_splits)

lemma analyzer_reach_ok: "analyzer_reach a \<Longrightarrow> analyzer_ok a"
proof (induction rule: analyzer_reach.induct)
  case (new d)
  then show ?case by (simp add: analyzer_ok_def NewAnalyzer_def)
qed (simp_all add: GetRecommandBehaviors_ok ReportSuccess_ok Clean_ok)

text \<open>C25: Roles. Whatever was asked of and reported to the analyzer before, the two behaviours it recommends are
  one sender and one receiver. In mode 1 the hard NAT of a mixed pair sends, in mode 2 it receives, and in mode 4 the only
  peer whose ports change regularly sends.\<close>

theorem hole_roles:
  assumes "analyzer_reach a" "GetRecommandBehaviors key c v now a = ((mode, index, cB, vB), a')"
  shows "complementary (cB, vB) \<and>
    (NatType c \<noteq> NatType v \<longrightarrow>
       (mode = 1 \<longrightarrow> Role (if NatType c = HardNAT then cB else vB) = DetectRoleSender) \<and>
       (mode = 2 \<longrightarrow> Role (if NatType c = HardNAT then cB else vB) = DetectRoleReceiver)) \<and>
    (mode = 4 \<and> RegularPortsChange c \<noteq> RegularPortsChange v \<longrightarrow>
       Role (if RegularPortsChange c then cB else vB) = DetectRoleSender)"
proof -
  obtain m i r' where r: "recommand now (recordsFor key c v now a) = ((m, i), r')" by (metis surj_pair)
  note ok = recommand_ok [OF recordsFor_ok [OF analyzer_reach_ok [OF assms(1)]] r]
  have E: "m = mode" "i = index" "(cB, vB) = orient mode c (getBehaviorByMode mode ! index)"
    using assms(2) ok(3) unfolding GetRecommandBehaviors_eq [OF r] by (auto simp: getBehaviorByModeAndIndex_def Let_def)
  let ?b = "getBehaviorByMode mode ! index"
  have b: "?b \<in> set (getBehaviorByMode mode)" using ok(3) by (simp add: E)
  have s: "Role (fst ?b) = DetectRoleSender \<and> Role (snd ?b) = DetectRoleReceiver" if "mode \<in> {1, 2, 4}"
    by (rule table_sender_first [OF b that])
  have cv: "cB = fst (orient mode c ?b)" "vB = snd (orient mode c ?b)" unfolding E(3) [symmetric] by simp_all
  have "complementary (cB, vB)" unfolding E(3) using table_complementary [OF b] by simp
  moreover have "mode = 1 \<longrightarrow> Role (if NatType c = HardNAT then cB else vB) = DetectRoleSender" if "NatType c \<noteq> NatType v"
    using s that by (cases "NatType c"; auto simp: cv orient_def)
  moreover have "mode = 2 \<longrightarrow> Role (if NatType c = HardNAT then cB else vB) = DetectRoleReceiver" if "NatType c \<noteq> NatType v"
    using s that by (cases "NatType c"; auto simp: cv orient_def)
  moreover have "Role (if RegularPortsChange c then cB else vB) = DetectRoleSender"
    if "mode = 4 \<and> RegularPortsChange c \<noteq> RegularPortsChange v"
    using s that by (auto simp: cv orient_def)
  ultimately show ?thesis by blast
qed

definition easyPeer :: NatFeature where
  "easyPeer = \<lparr>NatType = EasyNAT, Behavior = BehaviorNoChange, PortsDifference = 0, RegularPortsChange = False, PublicNetwork = False\<rparr>"

definition hardPeer :: NatFeature where
  "hardPeer = \<lparr>NatType = HardNAT, Behavior = BehaviorPortChanged, PortsDifference = 3, RegularPortsChange = True, PublicNetwork = False\<rparr>"

theorem hole_roles_witness:
  "complementary (receiver\<lparr>TTL := 7, PortsRangeNumber := 10\<rparr>, sender) \<and> Role sender = DetectRoleSender"
proof -
  have g: "\<exists>a'. GetRecommandBehaviors ''k'' easyPeer hardPeer 5 (NewAnalyzer 9)
    = ((1, 0, receiver\<lparr>TTL := 7, PortsRangeNumber := 10\<rparr>, sender), a')"
    by (simp add: GetRecommandBehaviors_def NewAnalyzer_def newMakeHoleRecords_def easyPeer_def hardPeer_def
        getBehaviorScoresByMode_def getBehaviorScoresByMode2_def appendMode0_def getBehaviorByMode_def mode_tables
        recommand_def getBehaviorByModeAndIndex_def orient_def Let_def)
  then obtain a' where g: "GetRecommandBehaviors ''k'' easyPeer hardPeer 5 (NewAnalyzer 9)
    = ((1, 0, receiver\<lparr>TTL := 7, PortsRangeNumber := 10\<rparr>, sender), a')" by blast
  have "NatType easyPeer \<noteq> NatType hardPeer" by (simp add: easyPeer_def hardPeer_def)
  then show ?thesis
    using hole_roles [OF analyzer_reach.new g] by (simp add: easyPeer_def)
qed

section \<open>Every behaviour gets its turn\<close>

text \<open>A sequence of recommendations for one pair, at the given times, with no success reported in between.\<close>

fun recommandAll :: "go_time list \<Rightarrow> makeHoleRecords \<Rightarrow> (nat \<times> nat) list \<times> makeHoleRecords" where
  "recommandAll [] r = ([], r)"
| "recommandAll (t # ts) r =
     (let (choice, r') = recommand t r; (choices, r'') = recommandAll ts r' in (choice # choices, r''))"

text \<open>The scores after \<open>k\<close> recommendations from a common score \<open>z\<close>.\<close>

definition levelled :: "behaviorScore list \<Rightarrow> int \<Rightarrow> nat \<Rightarrow> behaviorScore list" where
  "levelled ss z k = map (\<lambda>i. (ss ! i)\<lparr>Score := z - int (k div length ss) - (if i < k mod length ss then 1 else 0)\<rparr>) [0..<length ss]"

definition turn :: "behaviorScore list \<Rightarrow> nat \<Rightarrow> nat \<times> nat" where
  "turn ss k = (let s = ss ! (k mod length ss) in (Mode s, Index s))"

lemma length_levelled [simp]: "length (levelled ss z k) = length ss"
  by (simp add: levelled_def)

lemma nth_levelled: "i < length ss \<Longrightarrow>
   levelled ss z k ! i = (ss ! i)\<lparr>Score := z - int (k div length ss) - (if i < k mod length ss then 1 else 0)\<rparr>"
  by (simp add: levelled_def)

lemma levelled_0: "\<forall>s \<in> set ss. Score s = z \<Longrightarrow> levelled ss z 0 = ss"
  by (rule nth_equalityI) (simp_all add: nth_levelled)

lemma levelled_firstMax: "ss \<noteq> [] \<Longrightarrow> firstMax (levelled ss z k) (k mod length ss)"
proof -
  assume "ss \<noteq> []"
  then have m: "k mod length ss < length ss" by simp
  have "Score (levelled ss z k ! j) < Score (levelled ss z k ! (k mod length ss))" if "j < k mod length ss" for j
    using that less_trans [OF that m] m by (simp add: nth_levelled)
  then show ?thesis using m by (simp add: firstMax_def nth_levelled)
qed

lemma levelled_Suc:
  assumes "ss \<noteq> []"
  shows "(levelled ss z k)[k mod length ss := (levelled ss z k ! (k mod length ss))\<lparr>
      Score := Score (levelled ss z k ! (k mod length ss)) - 1\<rparr>] = levelled ss z (Suc k)"
proof (rule nth_equalityI)
  have m: "k mod length ss < length ss" using assms by simp
  fix i assume "i < length ((levelled ss z k)[k mod length ss := (levelled ss z k ! (k mod length ss))\<lparr>
      Score := Score (levelled ss z k ! (k mod length ss)) - 1\<rparr>])"
  then have i: "i < length ss" by simp
  show "(levelled ss z k)[k mod length ss := (levelled ss z k ! (k mod length ss))\<lparr>
      Score := Score (levelled ss z k ! (k mod length ss)) - 1\<rparr>] ! i = levelled ss z (Suc k) ! i"
    using i m by (auto simp: nth_levelled nth_list_update mod_Suc div_Suc)
qed simp

lemma recommand_levelled:
  assumes "ss \<noteq> []" "scores r = levelled ss z k"
  shows "recommand t r = (turn ss k, r\<lparr>scores := levelled ss z (Suc k), lastUpdateTime := t\<rparr>)"
  using recommand_eq [of r "k mod length ss" t] levelled_firstMax [OF assms(1), of z k] levelled_Suc [OF assms(1), of z k] assms(1)
  by (simp add: assms(2) turn_def Let_def nth_levelled)

lemma recommandAll_levelled:
  assumes "ss \<noteq> []" "scores r = levelled ss z k"
  shows "fst (recommandAll ts r) = map (turn ss) [k..<k + length ts] \<and>
    scores (snd (recommandAll ts r)) = levelled ss z (k + length ts)"
  using assms(2)
proof (induction ts arbitrary: r k)
  case Nil
  then show ?case by simp
next
  case (Cons t ts)
  let ?r = "r\<lparr>scores := levelled ss z (Suc k), lastUpdateTime := t\<rparr>"
  have *: "recommandAll (t # ts) r = (turn ss k # fst (recommandAll ts ?r), snd (recommandAll ts ?r))"
    by (simp add: recommand_levelled [OF assms(1) Cons.prems] Let_def split: prod.splits)
  show ?case
    unfolding * using Cons.IH [of ?r "Suc k"] by (simp add: upt_conv_Cons del: upt_Suc)
qed

lemma scoresByMode_const: "s \<in> set (getBehaviorScoresByMode m z) \<Longrightarrow> Score s = z"
  by (auto simp: getBehaviorScoresByMode_def getBehaviorScoresByMode2_def)

lemma newMakeHoleRecords_level:
  assumes "\<not> PublicNetwork c" "\<not> PublicNetwork v"
  shows "\<exists>z \<in> {0, 1}. \<forall>s \<in> set (scores (newMakeHoleRecords c v now)). Score s = z"
  using assms unfolding newMakeHoleRecords_def appendMode0_def Let_def
  by (auto split: prod.splits dest: scoresByMode_const)

text \<open>Every behaviour gets its turn. For a new pair of peers behind NAT, \<open>recommand\<close> goes through the rows of the
  pair's table in order and starts over after the last one: the \<open>k\<close>-th attempt without a success is row \<open>k mod n\<close>. All
  rows are thus tried before any is repeated.\<close>

theorem recommand_round_robin:
  assumes "\<not> PublicNetwork c" "\<not> PublicNetwork v"
  shows "fst (recommandAll ts (newMakeHoleRecords c v now)) =
    map (turn (scores (newMakeHoleRecords c v now))) [0..<length ts]"
proof -
  let ?r = "newMakeHoleRecords c v now"
  obtain z where z: "\<forall>s \<in> set (scores ?r). Score s = z" using newMakeHoleRecords_level [OF assms] by blast
  have "scores ?r \<noteq> []" using newMakeHoleRecords_ok [of c v now] by (simp add: records_ok_def)
  from recommandAll_levelled [OF this, of ?r z 0 ts] show ?thesis by (simp add: levelled_0 [OF z])
qed

theorem recommand_round_robin_witness:
  "fst (recommandAll [5, 6, 7] (newMakeHoleRecords easyPeer hardPeer 0)) = [(1, 0), (1, 1), (1, 2)]"
  by (subst recommand_round_robin)
    (simp_all add: easyPeer_def hardPeer_def turn_def newMakeHoleRecords_def getBehaviorScoresByMode_def upt_rec
      getBehaviorScoresByMode2_def appendMode0_def getBehaviorByMode_def mode_tables)

text \<open>The lower bound of the scores. The comment on \<open>behaviorScore.Score\<close> says it lies between -10 and 10. The upper
  bound holds (\<open>reportSuccess\<close> caps it), but nothing stops the decrement: after 110 attempts without a success between two
  peers with easy NATs all ten scores are -11.\<close>

theorem score_below_range:
  "\<exists>ts. \<forall>s \<in> set (scores (snd (recommandAll ts (newMakeHoleRecords easyPeer easyPeer 0)))). Score s = -11"
proof -
  let ?r = "newMakeHoleRecords easyPeer easyPeer 0"
  have r: "scores ?r = getBehaviorScoresByMode 0 0"
    by (simp add: newMakeHoleRecords_def easyPeer_def appendMode0_def)
  have n: "length (scores ?r) = 10"
    by (simp add: r getBehaviorScoresByMode_def getBehaviorScoresByMode2_def getBehaviorByMode_def mode_tables)
  have l: "scores ?r = levelled (scores ?r) 0 0" by (rule levelled_0 [symmetric]) (auto simp: r dest: scoresByMode_const)
  have ne: "scores ?r \<noteq> []" using n by auto
  obtain ts :: "go_time list" where ts: "length ts = 110" using Ex_list_of_length by blast
  have "scores (snd (recommandAll ts ?r)) = levelled (scores ?r) 0 110"
    using conjunct2 [OF recommandAll_levelled [OF ne l, of ts]] by (simp only: ts add_0)
  moreover have "Score s = -11" if "s \<in> set (levelled (scores ?r) 0 110)" for s
    using that unfolding levelled_def n by auto
  ultimately show ?thesis by (intro exI [of _ ts]) simp
qed

end
