(* ===== verification/Nathole_Controller.thy ===== *)
theory Nathole_Controller
  imports Nathole_Analysis
begin

text \<open>
  The server side of a hole punch (\<open>pkg/nathole/controller.go\<close>, with the receiving loop of
  \<open>server/proxy/xtcp.go\<close>): the clients that listen for visitors, the sessions between a visitor and a client, the
  decision and the two answers, and the life of the goroutine that handles a visitor. A \<open>HandleVisitor\<close> call waits
  twice (for the proxy to take the session id, for the client's message); each part between two waits is one operation.
  The hash \<open>md5\<close> is a parameter.
\<close>

section \<open>Messages\<close>

record NatHoleVisitor =
  vTransactionID :: string
  ProxyName :: string
  PreCheck :: bool
  Protocol :: string
  SignKey :: string
  Timestamp :: int
  vMappedAddrs :: "string list"
  vAssistedAddrs :: "string list"

record NatHoleClient =
  cTransactionID :: string
  cSid :: string
  cMappedAddrs :: "string list"
  cAssistedAddrs :: "string list"

record NatHoleReport =
  rSid :: string
  Success :: bool

record PortsRange =
  From :: int
  To :: int

record NatHoleDetectBehavior =
  dRole :: detect_role
  dMode :: nat
  dTTL :: int
  dSendDelayMs :: int
  ReadTimeoutMs :: int
  CandidatePorts :: "PortsRange list"
  SendRandomPorts :: int
  dListenRandomPorts :: int

datatype nathole_error =
    ServerNotExist string
  | UserNotAllowed string string
  | AuthFailed string
  | ClientNatError classify_error
  | VisitorNatError classify_error

record NatHoleResp =
  TransactionID :: string
  Sid :: string
  respProtocol :: string
  CandidateAddrs :: "string list"
  AssistedAddrs :: "string list"
  DetectBehavior :: NatHoleDetectBehavior
  Error :: "nathole_error option"

section \<open>Ports and addresses\<close>

definition parseIPs :: "string list \<Rightarrow> string list" where
  "parseIPs addrs = List.map_filter (\<lambda>a. case SplitHostPort a of Inr (ip, _) \<Rightarrow> Some ip | Inl _ \<Rightarrow> None) addrs"

definition getRangePorts :: "string list \<Rightarrow> int \<Rightarrow> int \<Rightarrow> PortsRange list" where
  "getRangePorts addrs difference maxNumber =
     (if maxNumber \<le> 0 then []
      else if addrs = [] then []
      else case SplitHostPort (last addrs) of Inl _ \<Rightarrow> []
      | Inr (_, portStr) \<Rightarrow>
          (case Atoi portStr of None \<Rightarrow> []
           | Some port \<Rightarrow>
               [\<lparr>From = max (max (wrap64 (wrap64 (port - difference) - 5)) (wrap64 (port - maxNumber))) 1,
                 To = min (min (wrap64 (wrap64 (port + difference) + 5)) (wrap64 (port + maxNumber))) 65535\<rparr>]))"

definition noDetect :: NatHoleDetectBehavior where
  "noDetect = \<lparr>dRole = NoRole, dMode = 0, dTTL = 0, dSendDelayMs = 0, ReadTimeoutMs = 0, CandidatePorts = [],
     SendRandomPorts = 0, dListenRandomPorts = 0\<rparr>"

definition GenNatHoleResponse :: "string \<Rightarrow> string \<Rightarrow> nathole_error option \<Rightarrow> NatHoleResp" where
  "GenNatHoleResponse transactionID sid errInfo =
     \<lparr>TransactionID = transactionID, Sid = sid, respProtocol = '''', CandidateAddrs = [], AssistedAddrs = [],
      DetectBehavior = noDetect, Error = errInfo\<rparr>"

text \<open>The response; \<open>getRangePorts\<close> reads the addresses after \<open>slices.Compact\<close> has cleared their tail.\<close>

definition newNatHoleResponse ::
    "string \<Rightarrow> string \<Rightarrow> string \<Rightarrow> nat \<Rightarrow> string list \<Rightarrow> string list \<Rightarrow> RecommandBehavior \<Rightarrow> int \<Rightarrow> int \<Rightarrow> NatHoleResp" where
  "newNatHoleResponse transactionID sid protocol mode candidateAddrs assistedAddrs behavior readTimeoutMs portsDifference =
     \<lparr>TransactionID = transactionID, Sid = sid, respProtocol = protocol,
      CandidateAddrs = Compact candidateAddrs, AssistedAddrs = Compact assistedAddrs,
      DetectBehavior =
        \<lparr>dRole = Role behavior, dMode = mode, dTTL = TTL behavior, dSendDelayMs = SendDelayMs behavior,
         ReadTimeoutMs = readTimeoutMs,
         CandidatePorts = getRangePorts (afterCompact '''' candidateAddrs) portsDifference (PortsRangeNumber behavior),
         SendRandomPorts = PortsRandomNumber behavior, dListenRandomPorts = ListenRandomPorts behavior\<rparr>,
      Error = None\<rparr>"

section \<open>State\<close>

type_synonym ptr = nat
type_synonym transporter = nat

record ClientCfg =
  cfgName :: string
  sk :: string
  allowUsers :: "string list"

record Session =
  sid :: string
  analysisKey :: string
  recommandMode :: nat
  recommandIndex :: nat
  visitorMsg :: NatHoleVisitor
  visitorTransporter :: transporter
  clientMsg :: "NatHoleClient option"
  clientTransporter :: transporter
  notifyCh :: bool

text \<open>Where the goroutine of a visitor is: sending the session id to the proxy's channel, waiting for the client's
  message, waiting after the answers were sent, or returned.\<close>

datatype phase = SendingSid ptr | WaitingClient | Lingering | Returned

record Controller =
  clientCfgs :: "string \<rightharpoonup> ptr"
  cfgs :: "ptr \<rightharpoonup> ClientCfg"
  sessions :: "string \<rightharpoonup> ptr"
  sess :: "ptr \<rightharpoonup> Session"
  phases :: "ptr \<rightharpoonup> phase"
  analyzer :: Analyzer
  loops :: "ptr set"
  taken :: "(ptr \<times> string) list"
  sent :: "(transporter \<times> NatHoleResp) list"

definition NewController :: "duration \<Rightarrow> Controller" where
  "NewController d = \<lparr>clientCfgs = Map.empty, cfgs = Map.empty, sessions = Map.empty, sess = Map.empty, phases = Map.empty,
     analyzer = NewAnalyzer d, loops = {}, taken = [], sent = []\<rparr>"

definition send :: "transporter \<Rightarrow> NatHoleResp \<Rightarrow> Controller \<Rightarrow> Controller" where
  "send t r c = c\<lparr>sent := sent c @ [(t, r)]\<rparr>"

section \<open>Clients\<close>

definition ListenClient :: "ptr \<Rightarrow> string \<Rightarrow> string \<Rightarrow> string list \<Rightarrow> Controller \<Rightarrow> (string, ptr) result \<times> Controller" where
  "ListenClient p name key users c =
     (if clientCfgs c name \<noteq> None then (Inl name, c)
      else (Inr p, c\<lparr>clientCfgs := (clientCfgs c)(name \<mapsto> p),
                     cfgs := (cfgs c)(p \<mapsto> \<lparr>cfgName = name, sk = key, allowUsers = users\<rparr>)\<rparr>))"

definition CloseClient :: "string \<Rightarrow> Controller \<Rightarrow> Controller" where
  "CloseClient name c = c\<lparr>clientCfgs := (clientCfgs c)(name := None)\<rparr>"

text \<open>\<open>XTCPProxy.Run\<close> starts the loop that takes session ids from the channel, \<open>Close\<close> ends it.\<close>

definition xtcpRun :: "ptr \<Rightarrow> string \<Rightarrow> string \<Rightarrow> string list \<Rightarrow> string \<Rightarrow> Controller \<Rightarrow> (string, ptr) result \<times> Controller" where
  "xtcpRun p name key users user c =
     (case ListenClient p name key (if users = [] then [user] else users) c of
        (Inl e, c') \<Rightarrow> (Inl e, c')
      | (Inr p', c') \<Rightarrow> (Inr p', c'\<lparr>loops := insert p' (loops c')\<rparr>))"

definition xtcpClose :: "ptr \<Rightarrow> string \<Rightarrow> Controller \<Rightarrow> Controller" where
  "xtcpClose p name c = (let c' = CloseClient name c in c'\<lparr>loops := loops c' - {p}\<rparr>)"

section \<open>Visitors\<close>

definition GetAuthKey :: "(string \<Rightarrow> string) \<Rightarrow> string \<Rightarrow> int \<Rightarrow> string" where
  "GetAuthKey md5 token timestamp = md5 (token @ Itoa timestamp)"

definition preCheck :: "NatHoleVisitor \<Rightarrow> transporter \<Rightarrow> string \<Rightarrow> Controller \<Rightarrow> Controller" where
  "preCheck m t visitorUser c =
     (case Option.bind (clientCfgs c (ProxyName m)) (cfgs c) of
        None \<Rightarrow> send t (GenNatHoleResponse (vTransactionID m) '''' (Some (ServerNotExist (ProxyName m)))) c
      | Some cfg \<Rightarrow>
          if visitorUser \<notin> set (allowUsers cfg) \<and> ''*'' \<notin> set (allowUsers cfg)
          then send t (GenNatHoleResponse (vTransactionID m) '''' (Some (UserNotAllowed visitorUser (ProxyName m)))) c
          else send t (GenNatHoleResponse (vTransactionID m) '''' None) c)"

text \<open>\<open>HandleVisitor\<close> up to the send of the session id: \<open>p\<close> is the new session, \<open>newSid\<close> what \<open>GenSid\<close> returned.\<close>

definition HandleVisitor ::
    "(string \<Rightarrow> string) \<Rightarrow> NatHoleVisitor \<Rightarrow> transporter \<Rightarrow> string \<Rightarrow> ptr \<Rightarrow> string \<Rightarrow> Controller \<Rightarrow> Controller" where
  "HandleVisitor md5 m t visitorUser p newSid c =
     (if PreCheck m then preCheck m t visitorUser c
      else case clientCfgs c (ProxyName m) of
        None \<Rightarrow> send t (GenNatHoleResponse (vTransactionID m) '''' (Some (ServerNotExist (ProxyName m)))) c
      | Some q \<Rightarrow>
          (case cfgs c q of
             None \<Rightarrow> c
           | Some cfg \<Rightarrow>
               if SignKey m \<noteq> GetAuthKey md5 (sk cfg) (Timestamp m)
               then send t (GenNatHoleResponse (vTransactionID m) '''' (Some (AuthFailed (ProxyName m)))) c
               else c\<lparr>sessions := (sessions c)(newSid \<mapsto> p),
                      sess := (sess c)(p \<mapsto>
                        \<lparr>sid = newSid, analysisKey = '''', recommandMode = 0, recommandIndex = 0, visitorMsg = m,
                         visitorTransporter = t, clientMsg = None, clientTransporter = 0, notifyCh = False\<rparr>),
                      phases := (phases c)(p \<mapsto> SendingSid q)\<rparr>))"

text \<open>The rendezvous on the proxy's channel.\<close>

definition takeSid :: "ptr \<Rightarrow> ptr \<Rightarrow> Controller \<Rightarrow> Controller" where
  "takeSid p q c = (case sess c p of None \<Rightarrow> c
     | Some s \<Rightarrow> c\<lparr>phases := (phases c)(p \<mapsto> WaitingClient), taken := taken c @ [(q, sid s)]\<rparr>)"

definition HandleClient :: "NatHoleClient \<Rightarrow> transporter \<Rightarrow> Controller \<Rightarrow> Controller" where
  "HandleClient m t c =
     (case Option.bind (sessions c (cSid m)) (\<lambda>p. map_option (Pair p) (sess c p)) of None \<Rightarrow> c
      | Some (p, s) \<Rightarrow> c\<lparr>sess := (sess c)(p \<mapsto> s\<lparr>clientMsg := Some m, clientTransporter := t, notifyCh := True\<rparr>)\<rparr>)"

definition HandleReport :: "NatHoleReport \<Rightarrow> go_time \<Rightarrow> Controller \<Rightarrow> Controller" where
  "HandleReport m now c =
     (case Option.bind (sessions c (rSid m)) (sess c) of None \<Rightarrow> c
      | Some s \<Rightarrow>
          if Success m then c\<lparr>analyzer := ReportSuccess (analysisKey s) (recommandMode s) (recommandIndex s) now (analyzer c)\<rparr>
          else c)"

section \<open>The decision\<close>

definition natTypeStr :: "nat_type \<Rightarrow> string" where
  "natTypeStr t = (case t of EasyNAT \<Rightarrow> ''EasyNAT'' | HardNAT \<Rightarrow> ''HardNAT'')"

definition behaviorStr :: "nat_behavior \<Rightarrow> string" where
  "behaviorStr b = (case b of BehaviorNoChange \<Rightarrow> ''BehaviorNoChange'' | BehaviorIPChanged \<Rightarrow> ''BehaviorIPChanged''
     | BehaviorPortChanged \<Rightarrow> ''BehaviorPortChanged'' | BehaviorBothChanged \<Rightarrow> ''BehaviorBothChanged'')"

definition keyPart :: "string list \<Rightarrow> NatFeature \<Rightarrow> string" where
  "keyPart addrs f =
     (case Compact (parseIPs addrs) of ip # _ \<Rightarrow> ip | [] \<Rightarrow> '''') @ natTypeStr (NatType f) @ behaviorStr (Behavior f) @
     (if RegularPortsChange f then ''true'' else ''false'')"

definition genAnalysisKey ::
    "(string \<Rightarrow> string) \<Rightarrow> NatHoleVisitor \<Rightarrow> NatFeature \<Rightarrow> NatHoleClient \<Rightarrow> NatFeature \<Rightarrow> string" where
  "genAnalysisKey md5 vm vf cm cf = md5 (keyPart (vMappedAddrs vm) vf @ keyPart (cMappedAddrs cm) cf)"

definition timeoutMs :: "RecommandBehavior \<Rightarrow> RecommandBehavior \<Rightarrow> int" where
  "timeoutMs cB vB = max (SendDelayMs cB) (SendDelayMs vB) + 5000 +
     (if ListenRandomPorts cB > 0 \<or> ListenRandomPorts vB > 0 then 30000 else 0)"

text \<open>\<open>analysis\<close> on a session with the client's message \<open>cm\<close>: the two answers (visitor's first), the session with its
  key, mode and index and with the address slices as \<open>Compact\<close> leaves them, and the analyzer.\<close>

definition analysis ::
    "(string \<Rightarrow> string) \<Rightarrow> go_time \<Rightarrow> Session \<Rightarrow> NatHoleClient \<Rightarrow> Analyzer
     \<Rightarrow> (nathole_error, NatHoleResp \<times> NatHoleResp \<times> Session \<times> Analyzer) result" where
  "analysis md5 now s cm a =
     (let vm = visitorMsg s in
      case ClassifyNATFeature (cMappedAddrs cm) (parseIPs (cAssistedAddrs cm)) of Inl e \<Rightarrow> Inl (ClientNatError e)
      | Inr cf \<Rightarrow>
          (case ClassifyNATFeature (vMappedAddrs vm) (parseIPs (vAssistedAddrs vm)) of Inl e \<Rightarrow> Inl (VisitorNatError e)
           | Inr vf \<Rightarrow>
               let key = genAnalysisKey md5 vm vf cm cf;
                   ((mode, index, cB, vB), a') = GetRecommandBehaviors key cf vf now a;
                   vResp = newNatHoleResponse (vTransactionID vm) (sid s) (Protocol vm) mode (cMappedAddrs cm)
                             (cAssistedAddrs cm) vB (timeoutMs cB vB - SendDelayMs vB) (PortsDifference cf);
                   cResp = newNatHoleResponse (cTransactionID cm) (sid s) (Protocol vm) mode (vMappedAddrs vm)
                             (vAssistedAddrs vm) cB (timeoutMs cB vB - SendDelayMs cB) (PortsDifference vf);
                   s' = s\<lparr>analysisKey := key, recommandMode := mode, recommandIndex := index,
                          visitorMsg := vm\<lparr>vMappedAddrs := afterCompact '''' (vMappedAddrs vm),
                                           vAssistedAddrs := afterCompact '''' (vAssistedAddrs vm)\<rparr>,
                          clientMsg := Some (cm\<lparr>cMappedAddrs := afterCompact '''' (cMappedAddrs cm),
                                                cAssistedAddrs := afterCompact '''' (cAssistedAddrs cm)\<rparr>)\<rparr>
               in Inr (vResp, cResp, s', a')))"

text \<open>The rest of \<open>HandleVisitor\<close> once the client's message is there. The answer to a sender is delayed by a second, so
  the receiver's goes out first; with no role on either side the two go out in either order. A session without a client's
  message would be a nil dereference: the value \<open>None\<close>.\<close>

definition answers :: "bool \<Rightarrow> Session \<Rightarrow> NatHoleResp \<Rightarrow> NatHoleResp \<Rightarrow> (transporter \<times> NatHoleResp) list" where
  "answers cFirst s vResp cResp =
     (let v = (visitorTransporter s, vResp); c = (clientTransporter s, cResp);
          vs = dRole (DetectBehavior vResp) = DetectRoleSender; cs = dRole (DetectBehavior cResp) = DetectRoleSender
      in if vs \<and> \<not> cs \<or> vs = cs \<and> cFirst then [c, v] else [v, c])"

definition answerVisitor :: "(string \<Rightarrow> string) \<Rightarrow> go_time \<Rightarrow> bool \<Rightarrow> ptr \<Rightarrow> Controller \<Rightarrow> Controller option" where
  "answerVisitor md5 now cFirst p c =
     (case sess c p of None \<Rightarrow> None
      | Some s \<Rightarrow>
          (case clientMsg s of None \<Rightarrow> None
           | Some cm \<Rightarrow>
               Some (case analysis md5 now s cm (analyzer c) of
                  Inl e \<Rightarrow>
                    c\<lparr>sess := (sess c)(p \<mapsto> s\<lparr>notifyCh := False\<rparr>), phases := (phases c)(p \<mapsto> Lingering),
                      sent := sent c @ answers cFirst s (GenNatHoleResponse (vTransactionID (visitorMsg s)) '''' (Some e))
                                                        (GenNatHoleResponse (cTransactionID cm) '''' (Some e))\<rparr>
                | Inr (vResp, cResp, s', a') \<Rightarrow>
                    c\<lparr>sess := (sess c)(p \<mapsto> s'\<lparr>notifyCh := False\<rparr>), phases := (phases c)(p \<mapsto> Lingering), analyzer := a',
                      sent := sent c @ answers cFirst s vResp cResp\<rparr>)))"

text \<open>The deferred removal when \<open>HandleVisitor\<close> returns.\<close>

definition returnVisitor :: "ptr \<Rightarrow> Controller \<Rightarrow> Controller" where
  "returnVisitor p c = (case sess c p of None \<Rightarrow> c
     | Some s \<Rightarrow> c\<lparr>sessions := (sessions c)(sid s := None), phases := (phases c)(p \<mapsto> Returned)\<rparr>)"

definition CleanWorker :: "go_time \<Rightarrow> Controller \<Rightarrow> Controller" where
  "CleanWorker now c = c\<lparr>analyzer := snd (Clean now (analyzer c))\<rparr>"

section \<open>Runs\<close>

text \<open>The goroutines interleave at their waits. A pointer is fresh when no object has it.\<close>

inductive nathole_step :: "(string \<Rightarrow> string) \<Rightarrow> Controller \<Rightarrow> Controller \<Rightarrow> bool" for md5 where
  run: "cfgs c p = None \<Longrightarrow> nathole_step md5 c (snd (xtcpRun p name key users user c))"
| close: "cfgs c p = Some cfg \<Longrightarrow> nathole_step md5 c (xtcpClose p (cfgName cfg) c)"
| visitor: "sess c p = None \<Longrightarrow> nathole_step md5 c (HandleVisitor md5 m t user p newSid c)"
| take: "phases c p = Some (SendingSid q) \<Longrightarrow> q \<in> loops c \<Longrightarrow> nathole_step md5 c (takeSid p q c)"
| client: "nathole_step md5 c (HandleClient cm t c)"
| report: "nathole_step md5 c (HandleReport rm now c)"
| answer: "phases c p = Some WaitingClient \<Longrightarrow> sess c p = Some s \<Longrightarrow> notifyCh s \<Longrightarrow>
    answerVisitor md5 now cFirst p c = Some c' \<Longrightarrow> nathole_step md5 c c'"
| timeout: "phases c p = Some WaitingClient \<Longrightarrow> nathole_step md5 c (returnVisitor p c)"
| finish: "phases c p = Some Lingering \<Longrightarrow> nathole_step md5 c (returnVisitor p c)"
| cleanup: "nathole_step md5 c (CleanWorker now c)"

inductive nathole_reach :: "(string \<Rightarrow> string) \<Rightarrow> Controller \<Rightarrow> bool" for md5 where
  init: "nathole_reach md5 (NewController d)"
| step: "nathole_reach md5 c \<Longrightarrow> nathole_step md5 c c' \<Longrightarrow> nathole_reach md5 c'"

section \<open>Invariant\<close>

text \<open>A session with its handler: it was signed with the key of the client it was meant for.\<close>

definition signed :: "(string \<Rightarrow> string) \<Rightarrow> ClientCfg \<Rightarrow> NatHoleVisitor \<Rightarrow> bool" where
  "signed md5 cfg m \<longleftrightarrow> ProxyName m = cfgName cfg \<and> SignKey m = GetAuthKey md5 (sk cfg) (Timestamp m)"

definition cfgs_inv :: "Controller \<Rightarrow> bool" where
  "cfgs_inv c \<longleftrightarrow> (\<forall>name q. clientCfgs c name = Some q \<longrightarrow> (\<exists>cfg. cfgs c q = Some cfg \<and> cfgName cfg = name))"

definition sess_inv :: "Controller \<Rightarrow> bool" where
  "sess_inv c \<longleftrightarrow>
     dom (phases c) = dom (sess c) \<and>
     (\<forall>k p. sessions c k = Some p \<longrightarrow> (\<exists>s. sess c p = Some s \<and> sid s = k) \<and> phases c p \<noteq> Some Returned) \<and>
     (\<forall>p s. sess c p = Some s \<longrightarrow> notifyCh s \<longrightarrow> clientMsg s \<noteq> None)"

definition auth_inv :: "(string \<Rightarrow> string) \<Rightarrow> Controller \<Rightarrow> bool" where
  "auth_inv md5 c \<longleftrightarrow>
     (\<forall>p q. phases c p = Some (SendingSid q) \<longrightarrow>
        (\<exists>cfg s. cfgs c q = Some cfg \<and> sess c p = Some s \<and> signed md5 cfg (visitorMsg s))) \<and>
     (\<forall>q i. (q, i) \<in> set (taken c) \<longrightarrow> (\<exists>cfg p s. cfgs c q = Some cfg \<and> sess c p = Some s \<and> sid s = i \<and> signed md5 cfg (visitorMsg s)))"

lemmas ctl_invs = cfgs_inv_def sess_inv_def auth_inv_def

definition ctl_inv :: "(string \<Rightarrow> string) \<Rightarrow> Controller \<Rightarrow> bool" where
  "ctl_inv md5 c \<longleftrightarrow> cfgs_inv c \<and> sess_inv c \<and> auth_inv md5 c \<and> analyzer_reach (analyzer c)"

text \<open>A session object may be rewritten as long as its id and the signed part of the visitor's message stay.\<close>

definition sess_upd :: "Session \<Rightarrow> Session \<Rightarrow> bool" where
  "sess_upd s s' \<longleftrightarrow> sid s' = sid s \<and> ProxyName (visitorMsg s') = ProxyName (visitorMsg s) \<and>
     SignKey (visitorMsg s') = SignKey (visitorMsg s) \<and> Timestamp (visitorMsg s') = Timestamp (visitorMsg s) \<and>
     (notifyCh s' \<longrightarrow> clientMsg s' \<noteq> None)"

lemma signed_upd: "sess_upd s s' \<Longrightarrow> signed md5 cfg (visitorMsg s') = signed md5 cfg (visitorMsg s)"
  by (simp add: sess_upd_def signed_def)

lemma sess_upd_refl: "(notifyCh s \<Longrightarrow> clientMsg s \<noteq> None) \<Longrightarrow> sess_upd s s"
  by (simp add: sess_upd_def)

lemma auth_inv_upd:
  assumes "auth_inv md5 c" "cfgs c \<subseteq>\<^sub>m cfgs c'"
    and s: "\<And>p s. sess c p = Some s \<Longrightarrow> \<exists>s'. sess c' p = Some s' \<and> sid s' = sid s \<and>
          (\<forall>cfg. signed md5 cfg (visitorMsg s') = signed md5 cfg (visitorMsg s))"
    and new: "\<And>p q. phases c' p = Some (SendingSid q) \<Longrightarrow> phases c p = Some (SendingSid q) \<or>
          (\<exists>cfg s. cfgs c' q = Some cfg \<and> sess c' p = Some s \<and> signed md5 cfg (visitorMsg s))"
    and tk: "\<And>q i. (q, i) \<in> set (taken c') \<Longrightarrow> (q, i) \<in> set (taken c) \<or>
          (\<exists>p s. phases c p = Some (SendingSid q) \<and> sess c p = Some s \<and> sid s = i)"
  shows "auth_inv md5 c'"
proof -
  have cfg: "cfgs c' q = Some g" if "cfgs c q = Some g" for q g
    using assms(2) that by (auto simp: map_le_def dom_def)
  have send: "\<exists>g s. cfgs c q = Some g \<and> sess c p = Some s \<and> signed md5 g (visitorMsg s)"
    if "phases c p = Some (SendingSid q)" for p q
    using assms(1) that by (auto simp: auth_inv_def)
  have tak: "\<exists>g p s. cfgs c q = Some g \<and> sess c p = Some s \<and> sid s = i \<and> signed md5 g (visitorMsg s)"
    if "(q, i) \<in> set (taken c)" for q i
    using assms(1) that unfolding auth_inv_def by blast
  have 1: "\<exists>g s. cfgs c' q = Some g \<and> sess c' p = Some s \<and> signed md5 g (visitorMsg s)"
    if "phases c' p = Some (SendingSid q)" for p q
    using new [OF that] send [of p q] s [of p] cfg [of q] by metis
  have 2: "\<exists>g p s. cfgs c' q = Some g \<and> sess c' p = Some s \<and> sid s = i \<and> signed md5 g (visitorMsg s)"
    if "(q, i) \<in> set (taken c')" for q i
    using tk [OF that]
  proof
    assume "(q, i) \<in> set (taken c)"
    from tak [OF this] show ?thesis using s cfg by metis
  next
    assume "\<exists>p s. phases c p = Some (SendingSid q) \<and> sess c p = Some s \<and> sid s = i"
    then obtain p s0 where "phases c p = Some (SendingSid q)" "sess c p = Some s0" "sid s0 = i" by blast
    with send [of p q] show ?thesis using s [of p] cfg by (metis option.inject)
  qed
  show ?thesis using 1 2 unfolding auth_inv_def by blast
qed

lemma sess_invD:
  assumes "sess_inv c"
  shows "dom (phases c) = dom (sess c)"
    and "sessions c k = Some p \<Longrightarrow> \<exists>s. sess c p = Some s \<and> sid s = k"
    and "sessions c k = Some p \<Longrightarrow> phases c p \<noteq> Some Returned"
    and "sess c p = Some s \<Longrightarrow> notifyCh s \<Longrightarrow> clientMsg s \<noteq> None"
  using assms by (simp_all add: sess_inv_def)

subsection \<open>Operations that rewrite one session object\<close>

lemma sess_upd_signed: "sess_upd s s' \<Longrightarrow> sid s' = sid s \<and> (\<forall>cfg. signed md5 cfg (visitorMsg s') = signed md5 cfg (visitorMsg s))"
  by (simp add: sess_upd_def signed_def)

lemma rewrite_inv:
  assumes i: "ctl_inv md5 c" and s: "sess c p = Some s" and u: "sess_upd s s'"
    and ph: "phs = phases c \<or> (\<exists>f. phs = (phases c)(p \<mapsto> f) \<and> f \<in> {WaitingClient, Lingering})"
    and tk: "\<And>q j. (q, j) \<in> set tk' \<Longrightarrow> (q, j) \<in> set (taken c) \<or> phases c p = Some (SendingSid q) \<and> sid s = j"
    and a: "analyzer_reach a'"
  shows "ctl_inv md5 (c\<lparr>sess := (sess c)(p \<mapsto> s'), phases := phs, taken := tk', analyzer := a', sent := o'\<rparr>)" (is "ctl_inv md5 ?c")
proof -
  note si = sess_invD [OF conjunct1 [OF conjunct2 [OF i [unfolded ctl_inv_def]]]]
  have p: "p \<in> dom (sess c)" using s by auto
  have d: "dom phs = dom (sess c)" using ph si(1) p by (elim disjE exE conjE) auto
  have r: "phs p' \<noteq> Some Returned" if "phases c p' \<noteq> Some Returned" for p'
    using ph that by (auto split: if_splits)
  have k: "\<exists>x. ((sess c)(p \<mapsto> s')) p' = Some x \<and> sid x = k" if "sessions c k = Some p'" for k p'
    using si(2) [OF that] s u by (cases "p' = p") (auto simp: sess_upd_def)
  have n: "clientMsg x \<noteq> None" if "((sess c)(p \<mapsto> s')) p' = Some x" "notifyCh x" for p' x
    using si(4) [of p' x] u that by (cases "p' = p") (auto simp: sess_upd_def)
  have "sess_inv ?c"
    unfolding sess_inv_def using d p r [OF si(3)] k n by (simp add: insert_absorb del: fun_upd_apply)
  moreover have "auth_inv md5 ?c"
  proof (rule auth_inv_upd)
    show "auth_inv md5 c" using i by (simp add: ctl_inv_def)
    show "\<exists>x. sess ?c p0 = Some x \<and> sid x = sid s0 \<and> (\<forall>cfg. signed md5 cfg (visitorMsg x) = signed md5 cfg (visitorMsg s0))"
      if "sess c p0 = Some s0" for p0 s0
      using that s sess_upd_signed [OF u, of md5] by (cases "p0 = p") auto
    show "phases c p0 = Some (SendingSid q) \<or> (\<exists>cfg x. cfgs ?c q = Some cfg \<and> sess ?c p0 = Some x \<and> signed md5 cfg (visitorMsg x))"
      if "phases ?c p0 = Some (SendingSid q)" for p0 q
      using that ph by (auto split: if_splits)
    show "(q, j) \<in> set (taken c) \<or> (\<exists>p s. phases c p = Some (SendingSid q) \<and> sess c p = Some s \<and> sid s = j)"
      if "(q, j) \<in> set (taken ?c)" for q j
      using tk [of q j] that s by auto
  qed simp
  ultimately show ?thesis using i a by (simp add: ctl_inv_def cfgs_inv_def)
qed

lemma inv_sess_upd_refl: "ctl_inv md5 c \<Longrightarrow> sess c p = Some s \<Longrightarrow> sess_upd s s"
  by (rule sess_upd_refl) (auto simp: ctl_inv_def sess_inv_def)

lemma takeSid_inv:
  assumes i: "ctl_inv md5 c" and p: "phases c p = Some (SendingSid q)"
  shows "ctl_inv md5 (takeSid p q c)"
proof (cases "sess c p")
  case (Some s)
  have "takeSid p q c = c\<lparr>sess := (sess c)(p \<mapsto> s), phases := (phases c)(p \<mapsto> WaitingClient), taken := taken c @ [(q, sid s)],
    analyzer := analyzer c, sent := sent c\<rparr>"
    using Some by (simp add: takeSid_def fun_upd_idem)
  then show ?thesis
    using rewrite_inv [OF i Some inv_sess_upd_refl [OF i Some], of "(phases c)(p \<mapsto> WaitingClient)" "taken c @ [(q, sid s)]" "analyzer c" "sent c"] i p
    by (auto simp: ctl_inv_def)
qed (simp add: takeSid_def i)

lemma HandleClient_inv:
  assumes i: "ctl_inv md5 c"
  shows "ctl_inv md5 (HandleClient m t c)"
proof (cases "Option.bind (sessions c (cSid m)) (\<lambda>p. map_option (Pair p) (sess c p))")
  case (Some ps)
  then obtain p s where p: "sess c p = Some s" "ps = (p, s)" by (auto simp: bind_eq_Some_conv)
  let ?s = "s\<lparr>clientMsg := Some m, clientTransporter := t, notifyCh := True\<rparr>"
  have "HandleClient m t c = c\<lparr>sess := (sess c)(p \<mapsto> ?s), phases := phases c, taken := taken c,
    analyzer := analyzer c, sent := sent c\<rparr>"
    using Some p(2) by (simp add: HandleClient_def)
  moreover have "sess_upd s ?s" by (simp add: sess_upd_def)
  ultimately show ?thesis
    using rewrite_inv [OF i p(1), of ?s "phases c" "taken c" "analyzer c" "sent c"] i by (auto simp: ctl_inv_def)
qed (simp add: HandleClient_def i)

lemma analysis_upd:
  assumes "analysis md5 now s cm a = Inr (vResp, cResp, s', a')"
  shows "sess_upd s (s'\<lparr>notifyCh := False\<rparr>) \<and> (\<exists>key c v. a' = snd (GetRecommandBehaviors key c v now a))"
  using assms by (auto simp: analysis_def Let_def sess_upd_def split: sum.splits prod.splits) (metis snd_conv)

lemma answerVisitor_inv:
  assumes i: "ctl_inv md5 c" and a: "answerVisitor md5 now cFirst p c = Some c'"
  shows "ctl_inv md5 c'"
proof -
  obtain s cm where s: "sess c p = Some s" "clientMsg s = Some cm"
    using a by (auto simp: answerVisitor_def split: option.splits)
  note R = rewrite_inv [OF i s(1) _ _ _, of _ "(phases c)(p \<mapsto> Lingering)" "taken c"]
  show ?thesis
  proof (cases "analysis md5 now s cm (analyzer c)")
    case (Inl e)
    have "sess_upd s (s\<lparr>notifyCh := False\<rparr>)" by (simp add: sess_upd_def)
    then show ?thesis using R [of "s\<lparr>notifyCh := False\<rparr>" "analyzer c"] a s Inl i
      by (auto simp: answerVisitor_def ctl_inv_def)
  next
    case (Inr r)
    obtain vR cR s' a' where r: "r = (vR, cR, s', a')" by (metis prod_cases4)
    note u = analysis_upd [OF Inr [unfolded r]]
    then have "analyzer_reach a'" using i by (auto simp: ctl_inv_def intro: analyzer_reach.get)
    then show ?thesis using R [of "s'\<lparr>notifyCh := False\<rparr>" a'] u a s Inr r
      by (auto simp: answerVisitor_def)
  qed
qed

subsection \<open>The other operations\<close>

lemma returnVisitor_inv:
  assumes i: "ctl_inv md5 c"
  shows "ctl_inv md5 (returnVisitor p c)"
proof (cases "sess c p")
  case (Some s)
  note si = sess_invD [OF conjunct1 [OF conjunct2 [OF i [unfolded ctl_inv_def]]]]
  let ?c = "returnVisitor p c"
  have e: "sess ?c = sess c" "phases ?c = (phases c)(p \<mapsto> Returned)" "sessions ?c = (sessions c)(sid s := None)"
    by (simp_all add: returnVisitor_def Some)
  have 1: "dom (phases ?c) = dom (sess ?c)" using si(1) Some unfolding e by auto
  have 2: "(\<exists>s. sess ?c p' = Some s \<and> sid s = k) \<and> phases ?c p' \<noteq> Some Returned" if "sessions ?c k = Some p'" for k p'
  proof -
    have k: "sessions c k = Some p'" "k \<noteq> sid s" using that unfolding e by (simp_all split: if_splits)
    have "p' \<noteq> p" using si(2) [OF k(1)] k(2) Some by auto
    then show ?thesis using si(2,3) [OF k(1)] unfolding e by simp
  qed
  have "sess_inv ?c" unfolding sess_inv_def using 1 2 si(4) unfolding e(1) by blast
  moreover have "auth_inv md5 ?c"
    by (rule auth_inv_upd [of md5 c]) (use i Some in \<open>auto simp: ctl_inv_def returnVisitor_def split: if_splits\<close>)
  ultimately show ?thesis using i Some by (simp add: ctl_inv_def cfgs_inv_def returnVisitor_def)
qed (simp add: returnVisitor_def i)

lemma send_inv [simp]: "ctl_inv md5 (send t r c) = ctl_inv md5 c"
  by (simp add: ctl_inv_def ctl_invs send_def)

lemma preCheck_inv: "ctl_inv md5 c \<Longrightarrow> ctl_inv md5 (preCheck m t user c)"
  by (simp add: preCheck_def split: option.splits)

lemma HandleVisitor_inv:
  assumes i: "ctl_inv md5 c" and fresh: "sess c p = None"
  shows "ctl_inv md5 (HandleVisitor md5 m t user p newSid c)"
proof (cases "\<exists>q cfg. \<not> PreCheck m \<and> clientCfgs c (ProxyName m) = Some q \<and> cfgs c q = Some cfg \<and>
    SignKey m = GetAuthKey md5 (sk cfg) (Timestamp m)")
  case False
  then show ?thesis using i by (auto simp: HandleVisitor_def preCheck_inv split: option.splits)
next
  case True
  then obtain q cfg where q: "\<not> PreCheck m" "clientCfgs c (ProxyName m) = Some q" "cfgs c q = Some cfg"
    "SignKey m = GetAuthKey md5 (sk cfg) (Timestamp m)" by blast
  let ?s = "\<lparr>sid = newSid, analysisKey = '''', recommandMode = 0, recommandIndex = 0, visitorMsg = m,
    visitorTransporter = t, clientMsg = None, clientTransporter = 0, notifyCh = False\<rparr>"
  let ?c = "c\<lparr>sessions := (sessions c)(newSid \<mapsto> p), sess := (sess c)(p \<mapsto> ?s), phases := (phases c)(p \<mapsto> SendingSid q)\<rparr>"
  have e: "HandleVisitor md5 m t user p newSid c = ?c" using q by (simp add: HandleVisitor_def)
  have sg: "signed md5 cfg m" using i q by (fastforce simp: ctl_inv_def cfgs_inv_def signed_def)
  note si = sess_invD [OF conjunct1 [OF conjunct2 [OF i [unfolded ctl_inv_def]]]]
  have "sessions c k \<noteq> Some p" for k using si(2) [of k p] fresh by auto
  then have "sess_inv ?c"
    using si fresh unfolding sess_inv_def by (auto split: if_splits)
  moreover have "auth_inv md5 ?c"
    by (rule auth_inv_upd [of md5 c]) (use i fresh sg q in \<open>auto simp: ctl_inv_def split: if_splits\<close>)
  ultimately show ?thesis using i unfolding e by (simp add: ctl_inv_def cfgs_inv_def)
qed

lemma xtcpRun_inv:
  assumes i: "ctl_inv md5 c" and fresh: "cfgs c p = None"
  shows "ctl_inv md5 (snd (xtcpRun p name key users user c))"
proof (cases "clientCfgs c name")
  case None
  let ?c = "snd (xtcpRun p name key users user c)"
  have "auth_inv md5 ?c"
    by (rule auth_inv_upd [of md5 c])
      (use i fresh None in \<open>auto simp: ctl_inv_def xtcpRun_def ListenClient_def map_le_def dom_def\<close>)
  have old: "\<exists>cfg. cfgs c q = Some cfg \<and> cfgName cfg = n" if "clientCfgs c n = Some q" for n q
    using i that by (simp add: ctl_inv_def cfgs_inv_def)
  have "cfgs_inv ?c"
    unfolding cfgs_inv_def
  proof (intro allI impI)
    fix n q assume "clientCfgs ?c n = Some q"
    then have n: "n = name \<and> q = p \<or> clientCfgs c n = Some q" using None
      by (simp add: xtcpRun_def ListenClient_def split: if_splits)
    show "\<exists>cfg. cfgs ?c q = Some cfg \<and> cfgName cfg = n"
      using n old [of n q] fresh None by (cases "q = p") (auto simp: xtcpRun_def ListenClient_def)
  qed
  with \<open>auth_inv md5 ?c\<close> show ?thesis using i None by (simp add: ctl_inv_def sess_inv_def xtcpRun_def ListenClient_def)
qed (use i in \<open>simp add: xtcpRun_def ListenClient_def\<close>)

lemma xtcpClose_inv: "ctl_inv md5 c \<Longrightarrow> ctl_inv md5 (xtcpClose p name c)"
  by (auto simp: ctl_inv_def ctl_invs xtcpClose_def CloseClient_def Let_def)

lemma analyzer_inv: "ctl_inv md5 c \<Longrightarrow> analyzer_reach a' \<Longrightarrow> ctl_inv md5 (c\<lparr>analyzer := a'\<rparr>)"
  by (simp add: ctl_inv_def ctl_invs)

lemma HandleReport_inv: "ctl_inv md5 c \<Longrightarrow> ctl_inv md5 (HandleReport m now c)"
  unfolding HandleReport_def
  by (auto split: option.splits intro!: analyzer_inv analyzer_reach.report simp: ctl_inv_def [of _ c])

lemma CleanWorker_inv: "ctl_inv md5 c \<Longrightarrow> ctl_inv md5 (CleanWorker now c)"
  unfolding CleanWorker_def by (rule analyzer_inv) (auto intro: analyzer_reach.clean simp: ctl_inv_def)

lemmas step_invs = xtcpRun_inv xtcpClose_inv HandleVisitor_inv takeSid_inv HandleClient_inv HandleReport_inv
  answerVisitor_inv returnVisitor_inv CleanWorker_inv

lemma nathole_step_inv: "nathole_step md5 c c' \<Longrightarrow> ctl_inv md5 c \<Longrightarrow> ctl_inv md5 c'"
  by (cases rule: nathole_step.cases) (blast intro: step_invs)+

lemma nathole_reach_inv: "nathole_reach md5 c \<Longrightarrow> ctl_inv md5 c"
proof (induction rule: nathole_reach.induct)
  case (init d)
  then show ?case by (simp add: ctl_inv_def ctl_invs NewController_def analyzer_reach.new)
qed (blast intro: nathole_step_inv)

section \<open>Properties\<close>

text \<open>C9: Only signed visitors reach a client. In every run, a session id that the loop of an xtcp proxy has taken belongs
  to a session whose visitor named that proxy and signed its timestamp with the proxy's secret key; and a
  session in the controller's table always belongs to a visitor goroutine that has not returned, so none is left behind.\<close>

theorem visitor_authenticated:
  assumes "nathole_reach md5 c"
  shows "((q, i) \<in> set (taken c) \<longrightarrow>
      (\<exists>cfg p s. cfgs c q = Some cfg \<and> sess c p = Some s \<and> sid s = i \<and> signed md5 cfg (visitorMsg s))) \<and>
    (sessions c i = Some p \<longrightarrow> (\<exists>s f. sess c p = Some s \<and> sid s = i \<and> phases c p = Some f \<and> f \<noteq> Returned))"
proof -
  note inv = nathole_reach_inv [OF assms, unfolded ctl_inv_def]
  note si = sess_invD [OF conjunct1 [OF conjunct2 [OF inv]]]
  have "\<exists>s f. sess c p = Some s \<and> sid s = i \<and> phases c p = Some f \<and> f \<noteq> Returned" if k: "sessions c i = Some p"
  proof -
    obtain s where s: "sess c p = Some s" "sid s = i" using si(2) [OF k] by blast
    then obtain f where "phases c p = Some f" using si(1) by (metis domD domI)
    then show ?thesis using s si(3) [OF k] by auto
  qed
  moreover have "\<exists>cfg p s. cfgs c q = Some cfg \<and> sess c p = Some s \<and> sid s = i \<and> signed md5 cfg (visitorMsg s)"
    if "(q, i) \<in> set (taken c)"
    using inv that unfolding auth_inv_def by blast
  ultimately show ?thesis by blast
qed

text \<open>What a pair of answers without an error must satisfy: the same session and mode, opposite roles, each side gets the
  other side's addresses, and each side, started after its own delay, still reads five seconds after the other side sends.\<close>

definition good_pair :: "Session \<Rightarrow> NatHoleClient \<Rightarrow> NatHoleResp \<Rightarrow> NatHoleResp \<Rightarrow> bool" where
  "good_pair s cm vR cR \<longleftrightarrow>
     Error vR = None \<and> Error cR = None \<and> Sid vR = sid s \<and> Sid cR = sid s \<and>
     TransactionID vR = vTransactionID (visitorMsg s) \<and> TransactionID cR = cTransactionID cm \<and>
     CandidateAddrs vR = Compact (cMappedAddrs cm) \<and> CandidateAddrs cR = Compact (vMappedAddrs (visitorMsg s)) \<and>
     (let v = DetectBehavior vR; c = DetectBehavior cR in
       dMode v = dMode c \<and>
       (dRole v = DetectRoleSender \<and> dRole c = DetectRoleReceiver \<or> dRole v = DetectRoleReceiver \<and> dRole c = DetectRoleSender) \<and>
       dSendDelayMs v + ReadTimeoutMs v \<ge> dSendDelayMs c + 5000 \<and> dSendDelayMs c + ReadTimeoutMs c \<ge> dSendDelayMs v + 5000)"

lemma behaviors_complementary:
  assumes "analyzer_reach a" "GetRecommandBehaviors key cf vf now a = ((mode, index, cB, vB), a')"
  shows "complementary (cB, vB)"
proof -
  obtain m i r' where r: "recommand now (recordsFor key cf vf now a) = ((m, i), r')" by (metis surj_pair)
  note ok = recommand_ok [OF recordsFor_ok [OF analyzer_reach_ok [OF assms(1)]] r]
  then have "complementary (getBehaviorByMode m ! i)" by (intro table_complementary [of _ m]) simp
  moreover have "(cB, vB) = orient m cf (getBehaviorByMode m ! i)"
    using assms(2) ok(3) unfolding GetRecommandBehaviors_eq [OF r] by (auto simp: getBehaviorByModeAndIndex_def Let_def)
  ultimately show ?thesis by simp
qed

lemma analysis_good_pair:
  assumes "analyzer_reach a" "analysis md5 now s cm a = Inr (vR, cR, s', a')"
  shows "good_pair s cm vR cR"
proof -
  obtain cf vf where f: "ClassifyNATFeature (cMappedAddrs cm) (parseIPs (cAssistedAddrs cm)) = Inr cf"
    "ClassifyNATFeature (vMappedAddrs (visitorMsg s)) (parseIPs (vAssistedAddrs (visitorMsg s))) = Inr vf"
    using assms(2) by (auto simp: analysis_def Let_def split: sum.splits)
  obtain mode index cB vB a'' where g: "GetRecommandBehaviors (genAnalysisKey md5 (visitorMsg s) vf cm cf) cf vf now a =
      ((mode, index, cB, vB), a'')" by (metis prod_cases4 surj_pair)
  note cp = behaviors_complementary [OF assms(1) g]
  have "vR = newNatHoleResponse (vTransactionID (visitorMsg s)) (sid s) (Protocol (visitorMsg s)) mode (cMappedAddrs cm)
       (cAssistedAddrs cm) vB (timeoutMs cB vB - SendDelayMs vB) (PortsDifference cf)"
    "cR = newNatHoleResponse (cTransactionID cm) (sid s) (Protocol (visitorMsg s)) mode (vMappedAddrs (visitorMsg s))
       (vAssistedAddrs (visitorMsg s)) cB (timeoutMs cB vB - SendDelayMs cB) (PortsDifference vf)"
    using assms(2) by (simp_all add: analysis_def f g Let_def)
  then show ?thesis
    using cp by (auto simp: good_pair_def newNatHoleResponse_def timeoutMs_def complementary_def Let_def)
qed

text \<open>C24: The two answers. When the client's message has arrived, the visitor's goroutine always answers: it never works
  on a missing client message, it sends exactly one response to each side, both with the same error or forming a good pair,
  and in a good pair the receiver is told before the sender.\<close>

theorem hole_answers:
  assumes "nathole_reach md5 c" "sess c p = Some s" "notifyCh s"
  shows "\<exists>c' cm vR cR ms. answerVisitor md5 now cFirst p c = Some c' \<and> clientMsg s = Some cm \<and>
    phases c' p = Some Lingering \<and> sent c' = sent c @ ms \<and>
    (ms = [(visitorTransporter s, vR), (clientTransporter s, cR)] \<or> ms = [(clientTransporter s, cR), (visitorTransporter s, vR)]) \<and>
    (Error vR \<noteq> None \<and> Error vR = Error cR \<or>
     good_pair s cm vR cR \<and> dRole (DetectBehavior (snd (hd ms))) = DetectRoleReceiver)"
proof -
  note inv = nathole_reach_inv [OF assms(1), unfolded ctl_inv_def]
  note si = sess_invD [OF conjunct1 [OF conjunct2 [OF inv]]]
  obtain cm where cm: "clientMsg s = Some cm" using si(4) [OF assms(2,3)] by blast
  show ?thesis
  proof (cases "analysis md5 now s cm (analyzer c)")
    case (Inl e)
    let ?vR = "GenNatHoleResponse (vTransactionID (visitorMsg s)) '''' (Some e)"
    let ?cR = "GenNatHoleResponse (cTransactionID cm) '''' (Some e)"
    have "answers cFirst s ?vR ?cR = [(visitorTransporter s, ?vR), (clientTransporter s, ?cR)] \<or>
       answers cFirst s ?vR ?cR = [(clientTransporter s, ?cR), (visitorTransporter s, ?vR)]"
      by (simp add: answers_def Let_def)
    moreover have "Error ?vR = Some e" "Error ?cR = Some e" by (simp_all add: GenNatHoleResponse_def)
    ultimately show ?thesis using Inl
      by - (rule exI [of _ "the (answerVisitor md5 now cFirst p c)"], rule exI [of _ cm], rule exI [of _ ?vR],
          rule exI [of _ ?cR], rule exI [of _ "answers cFirst s ?vR ?cR"], simp add: answerVisitor_def assms(2) cm)
  next
    case (Inr r)
    obtain vR cR s' a' where r: "r = (vR, cR, s', a')" by (metis prod_cases4)
    have g: "good_pair s cm vR cR" using inv Inr r by (auto intro: analysis_good_pair)
    then have "dRole (DetectBehavior (snd (hd (answers cFirst s vR cR)))) = DetectRoleReceiver"
      "answers cFirst s vR cR = [(visitorTransporter s, vR), (clientTransporter s, cR)] \<or>
       answers cFirst s vR cR = [(clientTransporter s, cR), (visitorTransporter s, vR)]"
      by (auto simp: good_pair_def answers_def Let_def)
    then show ?thesis using g Inr r
      by - (rule exI [of _ "the (answerVisitor md5 now cFirst p c)"], rule exI [of _ cm], rule exI [of _ vR],
          rule exI [of _ cR], rule exI [of _ "answers cFirst s vR cR"], simp add: answerVisitor_def assms(2) cm)
  qed
qed

text \<open>The guessed ports. For the last address's port, a difference as \<open>ClassifyNATFeature\<close> returns it and a positive
  count, \<open>getRangePorts\<close> gives one range of valid ports that contains the port and reaches at most the count to either side.\<close>

theorem range_ports_bounds:
  assumes "SplitHostPort (last addrs) = Inr (host, portStr)" "Atoi portStr = Some port" "addrs \<noteq> []"
    "1 \<le> port" "port \<le> 65535" "0 \<le> difference" "difference \<le> 65535" "0 < maxNumber" "maxNumber \<le> 65535"
  shows "\<exists>r. getRangePorts addrs difference maxNumber = [r] \<and> 1 \<le> From r \<and> To r \<le> 65535 \<and>
    port \<in> {From r..To r} \<and> port - maxNumber \<le> From r \<and> To r \<le> port + maxNumber"
proof -
  have "wrap64 (port - difference) = port - difference" "wrap64 (port - difference - 5) = port - difference - 5"
    "wrap64 (port - maxNumber) = port - maxNumber" "wrap64 (port + difference) = port + difference"
    "wrap64 (port + difference + 5) = port + difference + 5" "wrap64 (port + maxNumber) = port + maxNumber"
    using assms(4-) by (auto intro!: wrap64_id simp: int64_def)
  then show ?thesis using assms by (auto simp: getRangePorts_def)
qed

theorem range_ports_bounds_witness:
  "\<exists>r. getRangePorts [''1.2.3.4:1000''] 3 10 = [r] \<and> 1 \<le> From r \<and> To r \<le> 65535 \<and>
    1000 \<in> {From r..To r} \<and> 1000 - 10 \<le> From r \<and> To r \<le> 1000 + (10 :: int)"
proof (rule range_ports_bounds)
  show "SplitHostPort (last [''1.2.3.4:1000'']) = Inr (''1.2.3.4'', ''1000'')" by code_simp
  show "Atoi ''1000'' = Some 1000" by code_simp
qed simp_all

section \<open>An example run\<close>

text \<open>A proxy starts to listen, a visitor that knows its key asks for it, the proxy takes the session id and the client's
  message arrives. The hash is the identity.\<close>

definition exVisitor :: NatHoleVisitor where
  "exVisitor = \<lparr>vTransactionID = ''tv'', ProxyName = ''p'', PreCheck = False, Protocol = ''quic'', SignKey = ''k5'', Timestamp = 5,
     vMappedAddrs = [''1.1.1.1:1000'', ''1.1.1.1:1000''], vAssistedAddrs = []\<rparr>"

definition exClient :: NatHoleClient where
  "exClient = \<lparr>cTransactionID = ''tc'', cSid = ''sid'', cMappedAddrs = [''2.2.2.2:2000'', ''2.2.2.2:2003''], cAssistedAddrs = []\<rparr>"

definition ex1 :: Controller where
  "ex1 = snd (xtcpRun 1 ''p'' ''k'' [] ''u'' (NewController 0))"

definition ex2 :: Controller where
  "ex2 = HandleVisitor id exVisitor 7 ''other'' 3 ''sid'' ex1"

definition ex4 :: Controller where
  "ex4 = HandleClient exClient 8 (takeSid 3 1 ex2)"

definition exSession :: Session where
  "exSession = \<lparr>sid = ''sid'', analysisKey = '''', recommandMode = 0, recommandIndex = 0, visitorMsg = exVisitor,
     visitorTransporter = 7, clientMsg = Some exClient, clientTransporter = 8, notifyCh = True\<rparr>"

lemma ex1_eq: "ex1 = \<lparr>clientCfgs = [''p'' \<mapsto> 1], cfgs = [1 \<mapsto> \<lparr>cfgName = ''p'', sk = ''k'', allowUsers = [''u'']\<rparr>],
     sessions = Map.empty, sess = Map.empty, phases = Map.empty, analyzer = NewAnalyzer 0, loops = {1}, taken = [], sent = []\<rparr>"
  by (simp add: ex1_def xtcpRun_def ListenClient_def NewController_def)

lemma ex_signed: "SignKey exVisitor = GetAuthKey id ''k'' (Timestamp exVisitor)"
  by (simp add: exVisitor_def GetAuthKey_def Itoa_def natDigits.simps digitChar_def) code_simp

lemma ex2_eq: "ex2 = ex1\<lparr>sessions := [''sid'' \<mapsto> 3],
   sess := [3 \<mapsto> exSession\<lparr>clientMsg := None, clientTransporter := 0, notifyCh := False\<rparr>], phases := [3 \<mapsto> SendingSid 1]\<rparr>"
  using ex_signed by (simp add: ex2_def HandleVisitor_def ex1_eq exSession_def) (simp add: exVisitor_def)

lemma ex4_eq: "ex4 = ex1\<lparr>sessions := [''sid'' \<mapsto> 3], sess := [3 \<mapsto> exSession], phases := [3 \<mapsto> WaitingClient],
   taken := [(1, ''sid'')]\<rparr>"
  by (simp add: ex4_def ex2_eq takeSid_def HandleClient_def exSession_def ex1_eq exClient_def)

lemma ex_reach: "nathole_reach id ex1" "nathole_reach id ex2" "nathole_reach id ex4"
proof -
  have "nathole_step id (NewController 0) ex1"
    unfolding ex1_def by (rule nathole_step.run) (simp add: NewController_def)
  then show 1: "nathole_reach id ex1" by (rule nathole_reach.step [OF nathole_reach.init])
  have "nathole_step id ex1 ex2" unfolding ex2_def by (rule nathole_step.visitor) (simp add: ex1_eq)
  then show 2: "nathole_reach id ex2" by (rule nathole_reach.step [OF 1])
  have "nathole_step id ex2 (takeSid 3 1 ex2)" by (rule nathole_step.take) (simp_all add: ex2_eq ex1_eq)
  then have "nathole_reach id (takeSid 3 1 ex2)" by (rule nathole_reach.step [OF 2])
  then show "nathole_reach id ex4" unfolding ex4_def by (rule nathole_reach.step [OF _ nathole_step.client])
qed

theorem visitor_authenticated_witness:
  "(\<exists>cfg p s. cfgs ex4 1 = Some cfg \<and> sess ex4 p = Some s \<and> sid s = ''sid'' \<and> signed id cfg (visitorMsg s)) \<and>
   (\<exists>s f. sess ex4 3 = Some s \<and> sid s = ''sid'' \<and> phases ex4 3 = Some f \<and> f \<noteq> Returned)"
proof -
  have "(1, ''sid'') \<in> set (taken ex4)" "sessions ex4 ''sid'' = Some 3" by (simp_all add: ex4_eq)
  then show ?thesis using visitor_authenticated [OF ex_reach(3), of 1 "''sid''" 3] by blast
qed

theorem hole_answers_witness:
  "\<exists>c' cm vR cR ms. answerVisitor id 0 True 3 ex4 = Some c' \<and> clientMsg exSession = Some cm \<and>
    phases c' 3 = Some Lingering \<and> sent c' = sent ex4 @ ms \<and>
    (ms = [(visitorTransporter exSession, vR), (clientTransporter exSession, cR)] \<or>
     ms = [(clientTransporter exSession, cR), (visitorTransporter exSession, vR)]) \<and>
    (Error vR \<noteq> None \<and> Error vR = Error cR \<or>
     good_pair exSession cm vR cR \<and> dRole (DetectBehavior (snd (hd ms))) = DetectRoleReceiver)"
  by (rule hole_answers [OF ex_reach(3)]) (simp_all add: ex4_eq exSession_def)

section \<open>Defects\<close>

text \<open>Duplicate addresses. \<open>newNatHoleResponse\<close> takes the port to guess from the last of the addresses after \<open>slices.Compact\<close> has worked on
  them in place. If two neighbouring addresses were equal, that last one has been cleared, and no port is guessed,
  however many the behaviour asks for.\<close>

theorem duplicate_address_no_ports:
  assumes "\<not> distinct_adj candidateAddrs"
  shows "CandidatePorts (DetectBehavior (newNatHoleResponse t i pr mode candidateAddrs assisted b timeout diff)) = []"
proof -
  have "length (Compact candidateAddrs) < length candidateAddrs"
    using assms remdups_adj_length [of candidateAddrs] unfolding Compact_def
    by (metis distinct_adj_conv_length_remdups_adj le_neq_implies_less)
  then obtain n where n: "length candidateAddrs - length (Compact candidateAddrs) = Suc n" by (metis Suc_diff_Suc)
  have "last (afterCompact '''' candidateAddrs) = ''''"
    unfolding afterCompact_def n by (simp add: last_append)
  moreover have "SplitHostPort '''' = Inl MissingPort" by code_simp
  ultimately show ?thesis by (simp add: newNatHoleResponse_def getRangePorts_def)
qed

theorem duplicate_address_no_ports_witness:
  "CandidatePorts (DetectBehavior (newNatHoleResponse ''t'' ''s'' ''quic'' 1 [''2.2.2.2:2000'', ''2.2.2.2:2003'', ''2.2.2.2:2003'']
     [] (receiver\<lparr>PortsRangeNumber := 10\<rparr>) 5000 3)) = []"
  by (rule duplicate_address_no_ports) simp

text \<open>The list of allowed users is only looked at for a message with \<open>PreCheck\<close>: a visitor who knows the key and leaves
  the check out is served, whoever they are.\<close>

theorem allow_users_bypassed:
  "sessions ex2 ''sid'' = Some 3 \<and> phases ex2 3 = Some (SendingSid 1) \<and>
   (\<exists>cfg. cfgs ex2 1 = Some cfg \<and> ''other'' \<notin> set (allowUsers cfg) \<and> ''*'' \<notin> set (allowUsers cfg))"
  by (simp add: ex2_eq ex1_eq)

lemma orphan_step:
  assumes "nathole_step md5 c c'" "phases c p = Some (SendingSid q)" "q \<notin> loops c" "cfgs c q \<noteq> None" "sess c p \<noteq> None"
  shows "phases c' p = Some (SendingSid q) \<and> q \<notin> loops c' \<and> cfgs c' q \<noteq> None \<and> sess c' p \<noteq> None"
  using assms(1)
proof (cases rule: nathole_step.cases)
  case (run p' name key users user)
  then show ?thesis using assms(2-) by (auto simp: xtcpRun_def ListenClient_def)
next
  case (visitor p' m t user newSid)
  then show ?thesis using assms(2-) by (auto simp: HandleVisitor_def preCheck_def send_def split: option.splits)
next
  case (take p' q')
  then show ?thesis using assms(2-) by (auto simp: takeSid_def split: option.splits)
next
  case (client cm t)
  then show ?thesis using assms(2-) by (auto simp: HandleClient_def split: option.splits)
next
  case (answer p' s now cFirst)
  then show ?thesis using assms(2-)
    by (auto simp: answerVisitor_def split: option.splits sum.splits)
qed (use assms(2-) in \<open>auto simp: xtcpClose_def CloseClient_def HandleReport_def returnVisitor_def CleanWorker_def Let_def
      split: option.splits\<close>)

text \<open>A visitor without a receiver. The visitor's goroutine sends the session id on a channel without a timeout, and
  closing the proxy ends the only loop that receives from it without closing the channel: a visitor that is sending at that
  moment still is after any further steps.\<close>

theorem orphan_visitor_waits_forever:
  assumes "(nathole_step md5)\<^sup>*\<^sup>* c c'" "phases c p = Some (SendingSid q)" "q \<notin> loops c" "cfgs c q \<noteq> None" "sess c p \<noteq> None"
  shows "phases c' p = Some (SendingSid q) \<and> q \<notin> loops c' \<and> cfgs c' q \<noteq> None \<and> sess c' p \<noteq> None"
  using assms by (induction rule: rtranclp_induct) (auto dest: orphan_step)

theorem orphan_visitor_waits_forever_witness:
  "phases (xtcpClose 1 ''p'' ex2) 3 = Some (SendingSid 1) \<and> 1 \<notin> loops (xtcpClose 1 ''p'' ex2)"
  using orphan_visitor_waits_forever [of id "xtcpClose 1 ''p'' ex2" "xtcpClose 1 ''p'' ex2" 3 1]
  by (simp add: xtcpClose_def CloseClient_def Let_def ex2_eq ex1_eq)

end
