(* ===== verification/Wire.thy ===== *)
theory Wire
  imports Go_Std "HOL-Library.Word"
begin

text \<open>
  The second wire protocol (\<open>pkg/proto/wire/wire.go\<close>, \<open>crypto.go\<close>): frames with a fixed header, the magic
  bytes that tell it from the first protocol, and the hello messages that select the message codec and the
  cipher, up to the transcript both sides hash. A connection is the list of bytes still to be read, or the bytes
  written so far; a write that fails ends the connection and is not followed further.
\<close>

unbundle bit_operations_syntax

type_synonym byte = "8 word"
type_synonym uint16 = "16 word"
type_synonym uint32 = "32 word"
type_synonym uint64 = "64 word"

section \<open>Big-endian integers\<close>

definition PutUint16 :: "uint16 \<Rightarrow> byte list" where
  "PutUint16 v = [ucast (drop_bit 8 v), ucast v]"

definition Uint16 :: "byte list \<Rightarrow> uint16" where
  "Uint16 b = ucast (b ! 1) OR push_bit 8 (ucast (b ! 0))"

definition PutUint32 :: "uint32 \<Rightarrow> byte list" where
  "PutUint32 v = [ucast (drop_bit 24 v), ucast (drop_bit 16 v), ucast (drop_bit 8 v), ucast v]"

definition Uint32 :: "byte list \<Rightarrow> uint32" where
  "Uint32 b = ucast (b ! 3) OR push_bit 8 (ucast (b ! 2)) OR push_bit 16 (ucast (b ! 1)) OR push_bit 24 (ucast (b ! 0))"

definition PutUint64 :: "uint64 \<Rightarrow> byte list" where
  "PutUint64 v = map (\<lambda>i. ucast (drop_bit i v)) [56, 48, 40, 32, 24, 16, 8, 0]"

lemma Uint16_PutUint16 [simp]: "Uint16 (PutUint16 v) = v"
  by (rule bit_word_eqI) (auto simp: Uint16_def PutUint16_def bit_simps)

lemma bit_byte_high: "8 \<le> k \<Longrightarrow> \<not> bit (b :: byte) (k + n)"
  using bit_imp_le_length [of b "k + n"] by auto

lemma PutUint16_Uint16_list: "PutUint16 (Uint16 [a, b]) = [a, b]"
  by (auto simp: Uint16_def PutUint16_def intro!: bit_word_eqI simp: bit_simps bit_byte_high)

lemma Uint32_PutUint32 [simp]: "Uint32 (PutUint32 v) = v"
proof (rule bit_word_eqI)
  fix n assume "n < LENGTH(32)"
  then consider "n < 8" | "8 \<le> n" "n < 16" | "16 \<le> n" "n < 24" | "24 \<le> n" "n < 32" by fastforce
  then show "bit (Uint32 (PutUint32 v)) n = bit v n"
    by cases (auto simp: Uint32_def PutUint32_def bit_simps)
qed

lemma PutUint32_Uint32_list: "PutUint32 (Uint32 [a, b, c, d]) = [a, b, c, d]"
  by (auto simp: Uint32_def PutUint32_def intro!: bit_word_eqI simp: bit_simps bit_byte_high)

lemma PutUint64_inj: "PutUint64 v = PutUint64 w \<Longrightarrow> v = w"
proof (rule bit_word_eqI)
  fix n assume e: "PutUint64 v = PutUint64 w" and n: "n < LENGTH(64)"
  have "n div 8 < 8" using n by simp
  then have "n div 8 = 0 \<or> n div 8 = 1 \<or> n div 8 = 2 \<or> n div 8 = 3 \<or> n div 8 = 4 \<or> n div 8 = 5 \<or> n div 8 = 6 \<or> n div 8 = 7"
    by linarith
  then have "8 * (n div 8) \<in> {0, 8, 16, 24, 32, 40, 48, 56}" by (elim disjE) simp_all
  then have "(ucast (drop_bit (8 * (n div 8)) v) :: byte) = ucast (drop_bit (8 * (n div 8)) w)"
    using e unfolding PutUint64_def by auto
  then have "bit (ucast (drop_bit (8 * (n div 8)) v) :: byte) (n mod 8) = bit (ucast (drop_bit (8 * (n div 8)) w) :: byte) (n mod 8)"
    by simp
  then show "bit v n = bit w n" by (simp add: bit_simps)
qed

lemma length_Put [simp]: "length (PutUint16 a) = 2" "length (PutUint32 c) = 4" "length (PutUint64 d) = 8"
  by (simp_all add: PutUint16_def PutUint32_def PutUint64_def)

section \<open>Frames\<close>

datatype wire_error =
    EOF | UnexpectedEOF
  | UnsupportedFlags uint16
  | PayloadTooLong nat nat
  | UnexpectedFrameType uint16 uint16
  | BadJSON
  | UnsupportedCodec string
  | BadClientRandom nat
  | NoSupportedAlgorithm
  | UnknownAlgorithm string
  | AlgorithmNotAdvertised string
  | BadServerRandom nat
  | RandomFailed

definition FrameTypeClientHello :: uint16 where "FrameTypeClientHello = 1"
definition FrameTypeServerHello :: uint16 where "FrameTypeServerHello = 2"
definition FrameTypeMessage :: uint16 where "FrameTypeMessage = 16"
definition DefaultMaxFramePayloadSize :: uint32 where "DefaultMaxFramePayloadSize = 64 * 1024"

record Frame =
  Type :: uint16
  Flags :: uint16
  Payload :: "byte list"

text \<open>\<open>io.ReadFull\<close>: the bytes read and what is left, or the error with the connection read to its end.\<close>

definition ReadFull :: "nat \<Rightarrow> byte list \<Rightarrow> (wire_error, byte list) result \<times> byte list" where
  "ReadFull n inp =
     (if n \<le> length inp then (Inr (take n inp), drop n inp)
      else (Inl (if inp = [] then EOF else UnexpectedEOF), []))"

definition ReadFrame :: "uint32 \<Rightarrow> byte list \<Rightarrow> (wire_error, Frame) result \<times> byte list" where
  "ReadFrame maxFramePayloadSize inp =
     (case ReadFull 8 inp of (Inl e, inp) \<Rightarrow> (Inl e, inp)
      | (Inr header, inp) \<Rightarrow>
          let frameType = Uint16 (take 2 header);
              flags = Uint16 (take 2 (drop 2 header));
              len = Uint32 (drop 4 header)
          in if flags \<noteq> 0 then (Inl (UnsupportedFlags flags), inp)
             else if len > maxFramePayloadSize then (Inl (PayloadTooLong (unat len) (unat maxFramePayloadSize)), inp)
             else case ReadFull (unat len) inp of (Inl e, inp) \<Rightarrow> (Inl e, inp)
                  | (Inr payload, inp) \<Rightarrow> (Inr \<lparr>Type = frameType, Flags = flags, Payload = payload\<rparr>, inp))"

definition WriteFrame :: "uint32 \<Rightarrow> Frame \<Rightarrow> byte list \<Rightarrow> (wire_error, byte list) result" where
  "WriteFrame maxFramePayloadSize f out =
     (if Flags f \<noteq> 0 then Inl (UnsupportedFlags (Flags f))
      else if length (Payload f) > unat maxFramePayloadSize
      then Inl (PayloadTooLong (length (Payload f)) (unat maxFramePayloadSize))
      else let header = PutUint16 (Type f) @ PutUint16 (Flags f) @ PutUint32 (of_nat (length (Payload f)))
           in Inr (out @ header @ Payload f))"

text \<open>What a connection accepts, and the bytes of a frame.\<close>

definition sendable :: "uint32 \<Rightarrow> Frame \<Rightarrow> bool" where
  "sendable mx f \<longleftrightarrow> Flags f = 0 \<and> length (Payload f) \<le> unat mx"

definition frameBytes :: "Frame \<Rightarrow> byte list" where
  "frameBytes f = PutUint16 (Type f) @ PutUint16 (Flags f) @ PutUint32 (of_nat (length (Payload f))) @ Payload f"

lemma WriteFrame_iff: "WriteFrame mx f out = Inr out' \<longleftrightarrow> sendable mx f \<and> out' = out @ frameBytes f"
  by (auto simp: WriteFrame_def sendable_def frameBytes_def Let_def)

lemma WriteFrame_not_sendable: "\<not> sendable mx f \<Longrightarrow> \<exists>e. WriteFrame mx f out = Inl e"
  by (auto simp: WriteFrame_def sendable_def)

lemma unat_len: "n \<le> unat (mx :: uint32) \<Longrightarrow> unat (of_nat n :: uint32) = n"
  using unsigned_less [of mx, where 'a = nat] by (simp add: unsigned_of_nat take_bit_nat_eq_self)

lemma len_le: "n \<le> unat (mx :: uint32) \<Longrightarrow> of_nat n \<le> mx"
  by (simp add: word_le_nat_alt unat_len)

lemma ReadFrame_frameBytes:
  assumes "sendable mx f"
  shows "ReadFrame mx (frameBytes f @ rest) = (Inr f, rest)"
proof -
  let ?l = "of_nat (length (Payload f)) :: uint32"
  let ?h = "PutUint16 (Type f) @ PutUint16 (Flags f) @ PutUint32 ?l"
  have "ReadFull 8 (frameBytes f @ rest) = (Inr ?h, Payload f @ rest)"
    by (simp add: ReadFull_def frameBytes_def)
  moreover have "unat ?l = length (Payload f)" "\<not> ?l > mx"
    using assms unfolding sendable_def by (auto simp: unat_len linorder_not_less len_le)
  ultimately show ?thesis
    using assms unfolding ReadFrame_def by (cases f) (simp add: sendable_def ReadFull_def Let_def)
qed

lemma ReadFrame_inv:
  assumes "ReadFrame mx inp = (Inr f, rest)"
  shows "sendable mx f \<and> inp = frameBytes f @ rest"
proof -
  have "8 \<le> length inp" using assms by (auto simp: ReadFrame_def ReadFull_def split: if_splits)
  then obtain h inp' where h: "inp = h @ inp'" "length h = 8" by (metis append_take_drop_id length_take min.absorb2)
  then obtain a b c d e1 e2 e3 e4 where hs: "h = [a, b, c, d, e1, e2, e3, e4]"
    by (auto simp: length_Suc_conv eval_nat_numeral)
  let ?l = "Uint32 [e1, e2, e3, e4]"
  have R: "ReadFull 8 inp = (Inr h, inp')" using h by (simp add: ReadFull_def)
  have F: "Uint16 [c, d] = 0" "\<not> ?l > mx" "unat ?l \<le> length inp'"
    "f = \<lparr>Type = Uint16 [a, b], Flags = Uint16 [c, d], Payload = take (unat ?l) inp'\<rparr>" "rest = drop (unat ?l) inp'"
    using assms unfolding ReadFrame_def R hs
    by (simp_all add: Let_def ReadFull_def split: if_splits)
  have "of_nat (length (take (unat ?l) inp')) = ?l" using F(3) by simp
  then have "frameBytes f = h @ take (unat ?l) inp'"
    unfolding frameBytes_def F(4) using F(3) by (simp add: PutUint16_Uint16_list PutUint32_Uint32_list hs)
  moreover have "unat ?l \<le> unat mx" using F(2) by (simp add: linorder_not_less word_le_nat_alt)
  ultimately show ?thesis using F(1,3,5) h(1) by (simp add: sendable_def F(4))
qed

text \<open>Writing and reading a sequence of frames.\<close>

fun writeFrames :: "uint32 \<Rightarrow> Frame list \<Rightarrow> byte list \<Rightarrow> (wire_error, byte list) result" where
  "writeFrames mx [] out = Inr out"
| "writeFrames mx (f # fs) out = (case WriteFrame mx f out of Inl e \<Rightarrow> Inl e | Inr out' \<Rightarrow> writeFrames mx fs out')"

fun readFrames :: "nat \<Rightarrow> uint32 \<Rightarrow> byte list \<Rightarrow> (wire_error, Frame list) result \<times> byte list" where
  "readFrames 0 mx inp = (Inr [], inp)"
| "readFrames (Suc n) mx inp =
     (case ReadFrame mx inp of (Inl e, inp) \<Rightarrow> (Inl e, inp)
      | (Inr f, inp) \<Rightarrow> (case readFrames n mx inp of (Inl e, inp) \<Rightarrow> (Inl e, inp) | (Inr fs, inp) \<Rightarrow> (Inr (f # fs), inp)))"

lemma writeFrames_iff:
  "writeFrames mx fs out = Inr out' \<longleftrightarrow> list_all (sendable mx) fs \<and> out' = out @ concat (map frameBytes fs)"
proof (induction fs arbitrary: out)
  case (Cons f fs)
  show ?case
  proof (cases "sendable mx f")
    case True
    then have "WriteFrame mx f out = Inr (out @ frameBytes f)" by (simp add: WriteFrame_iff)
    then show ?thesis using Cons.IH [of "out @ frameBytes f"] True by simp
  next
    case False
    then obtain e where "WriteFrame mx f out = Inl e" using WriteFrame_not_sendable by blast
    then show ?thesis using False by simp
  qed
qed auto

lemma readFrames_iff:
  "readFrames n mx inp = (Inr fs, rest) \<longleftrightarrow>
     length fs = n \<and> list_all (sendable mx) fs \<and> inp = concat (map frameBytes fs) @ rest"
proof (induction n arbitrary: inp fs)
  case (Suc n)
  show ?case
  proof
    assume "readFrames (Suc n) mx inp = (Inr fs, rest)"
    then obtain f inp' fs' where "ReadFrame mx inp = (Inr f, inp')" "readFrames n mx inp' = (Inr fs', rest)" "fs = f # fs'"
      by (auto split: prod.splits sum.splits)
    then show "length fs = Suc n \<and> list_all (sendable mx) fs \<and> inp = concat (map frameBytes fs) @ rest"
      using ReadFrame_inv [of mx inp f inp'] Suc.IH [of inp' fs'] by simp
  next
    assume "length fs = Suc n \<and> list_all (sendable mx) fs \<and> inp = concat (map frameBytes fs) @ rest"
    then obtain f fs' where "fs = f # fs'" "length fs' = n" "sendable mx f" "list_all (sendable mx) fs'"
      "inp = frameBytes f @ concat (map frameBytes fs') @ rest"
      by (cases fs) auto
    then show "readFrames (Suc n) mx inp = (Inr fs, rest)"
      using ReadFrame_frameBytes [of mx f] Suc.IH [of "concat (map frameBytes fs') @ rest" fs'] by simp
  qed
qed auto

text \<open>C28: Frames survive the wire. Reading a byte stream back gives a sequence of frames exactly when the stream is what
  \<open>WriteFrame\<close> writes for these frames, all of them accepted by the writer, followed by the unread rest: nothing is lost,
  merged or read twice, and no other bytes are taken for a frame.\<close>

theorem frames_roundtrip:
  "readFrames (length fs) mx inp = (Inr fs, rest) \<longleftrightarrow> (\<exists>out. writeFrames mx fs [] = Inr out \<and> inp = out @ rest)"
  unfolding readFrames_iff writeFrames_iff by auto

section \<open>Magic bytes\<close>

definition bytes :: "string \<Rightarrow> byte list" where
  "bytes s = map of_char s"

definition MagicV2 :: "byte list" where
  "MagicV2 = bytes ''FRP'' @ [0, 2, 13, 10]"

definition WriteMagic :: "byte list \<Rightarrow> byte list" where
  "WriteMagic out = out @ MagicV2"

definition WriteMagicIfV2 :: "bool \<Rightarrow> byte list \<Rightarrow> byte list" where
  "WriteMagicIfV2 isV2 out = (if isV2 then WriteMagic out else out)"

text \<open>Whether the connection speaks the second protocol, and what is then left to read: the shared connection of the
  other case replays the bytes looked at.\<close>

definition CheckMagic :: "byte list \<Rightarrow> (wire_error, bool \<times> byte list) result" where
  "CheckMagic inp =
     (case ReadFull (length MagicV2) inp of (Inl e, _) \<Rightarrow> Inl e
      | (Inr buf, rest) \<Rightarrow> if buf = MagicV2 then Inr (True, rest) else Inr (False, inp))"

lemma CheckMagic_v2 [simp]: "CheckMagic (MagicV2 @ rest) = Inr (True, rest)"
  by (simp add: CheckMagic_def ReadFull_def)

lemma CheckMagic_v1: "CheckMagic inp = Inr (False, inp') \<Longrightarrow> inp' = inp"
  by (auto simp: CheckMagic_def ReadFull_def split: if_splits)

section \<open>Hello\<close>

record BootstrapInfo =
  Transport :: string
  TLS :: bool
  TCPMux :: bool

record CryptoCapabilities =
  Algorithms :: "string list"
  ClientRandom :: "byte list"

record ClientHello =
  Bootstrap :: BootstrapInfo
  Codecs :: "string list"
  Crypto :: CryptoCapabilities

record CryptoSelection =
  Algorithm :: string
  ServerRandom :: "byte list"

record ServerHello =
  Codec :: string
  selCrypto :: CryptoSelection
  helloError :: string

definition MessageCodecJSON :: string where "MessageCodecJSON = ''json''"
definition AEADAlgorithmAES256GCM :: string where "AEADAlgorithmAES256GCM = ''aes-256-gcm''"
definition AEADAlgorithmXChaCha20Poly1305 :: string where "AEADAlgorithmXChaCha20Poly1305 = ''xchacha20-poly1305''"
definition CryptoRandomSize :: nat where "CryptoRandomSize = 32"

definition supportedAEADAlgorithms :: "string list" where
  "supportedAEADAlgorithms = [AEADAlgorithmAES256GCM, AEADAlgorithmXChaCha20Poly1305]"

definition Supports :: "string list \<Rightarrow> string \<Rightarrow> bool" where
  "Supports list value \<longleftrightarrow> value \<in> set list"

definition IsSupportedAEADAlgorithm :: "string \<Rightarrow> bool" where
  "IsSupportedAEADAlgorithm algorithm \<longleftrightarrow> Supports supportedAEADAlgorithms algorithm"

definition PreferredAEADAlgorithms :: "bool \<Rightarrow> string list" where
  "PreferredAEADAlgorithms hasFastAESGCM =
     (if hasFastAESGCM then [AEADAlgorithmAES256GCM, AEADAlgorithmXChaCha20Poly1305]
      else [AEADAlgorithmXChaCha20Poly1305, AEADAlgorithmAES256GCM])"

fun SelectAEADAlgorithm :: "string list \<Rightarrow> string option" where
  "SelectAEADAlgorithm [] = None"
| "SelectAEADAlgorithm (a # as) = (if IsSupportedAEADAlgorithm a then Some a else SelectAEADAlgorithm as)"

text \<open>The random source either fails or fills the buffer.\<close>

definition newCryptoRandom :: "(nat \<Rightarrow> byte) option \<Rightarrow> (wire_error, byte list) result" where
  "newCryptoRandom rnd = (case rnd of None \<Rightarrow> Inl RandomFailed | Some b \<Rightarrow> Inr (map b [0..<CryptoRandomSize]))"

definition clientHelloWithCryptoRandom :: "bool \<Rightarrow> BootstrapInfo \<Rightarrow> byte list \<Rightarrow> ClientHello" where
  "clientHelloWithCryptoRandom fastAES bootstrap clientRandom =
     \<lparr>Bootstrap = bootstrap, Codecs = [MessageCodecJSON],
      Crypto = \<lparr>Algorithms = PreferredAEADAlgorithms fastAES, ClientRandom = clientRandom\<rparr>\<rparr>"

definition NewClientHello :: "bool \<Rightarrow> (nat \<Rightarrow> byte) option \<Rightarrow> BootstrapInfo \<Rightarrow> (wire_error, ClientHello) result" where
  "NewClientHello fastAES rnd bootstrap =
     (case newCryptoRandom rnd of Inl e \<Rightarrow> Inl e | Inr r \<Rightarrow> Inr (clientHelloWithCryptoRandom fastAES bootstrap r))"

definition ValidateCryptoCapabilities :: "CryptoCapabilities \<Rightarrow> wire_error option" where
  "ValidateCryptoCapabilities c =
     (if length (ClientRandom c) \<noteq> CryptoRandomSize then Some (BadClientRandom (length (ClientRandom c)))
      else if SelectAEADAlgorithm (Algorithms c) = None then Some NoSupportedAlgorithm else None)"

definition ValidateClientHello :: "ClientHello \<Rightarrow> wire_error option" where
  "ValidateClientHello h =
     (if \<not> Supports (Codecs h) MessageCodecJSON then Some (UnsupportedCodec '''') else ValidateCryptoCapabilities (Crypto h))"

definition DefaultServerHello :: ServerHello where
  "DefaultServerHello = \<lparr>Codec = MessageCodecJSON, selCrypto = \<lparr>Algorithm = '''', ServerRandom = []\<rparr>, helloError = ''''\<rparr>"

definition NewServerHello :: "(nat \<Rightarrow> byte) option \<Rightarrow> ClientHello \<Rightarrow> (wire_error, ServerHello) result" where
  "NewServerHello rnd clientHello =
     (case ValidateClientHello clientHello of Some e \<Rightarrow> Inl e
      | None \<Rightarrow>
          (case SelectAEADAlgorithm (Algorithms (Crypto clientHello)) of None \<Rightarrow> Inl NoSupportedAlgorithm
           | Some algorithm \<Rightarrow>
               (case newCryptoRandom rnd of Inl e \<Rightarrow> Inl e
                | Inr serverRandom \<Rightarrow>
                    Inr \<lparr>Codec = MessageCodecJSON, selCrypto = \<lparr>Algorithm = algorithm, ServerRandom = serverRandom\<rparr>,
                         helloError = ''''\<rparr>)))"

definition ValidateServerHelloForClient :: "ClientHello \<Rightarrow> ServerHello \<Rightarrow> wire_error option" where
  "ValidateServerHelloForClient clientHello serverHello =
     (if Codec serverHello \<noteq> MessageCodecJSON then Some (UnsupportedCodec (Codec serverHello))
      else let c = selCrypto serverHello in
           if \<not> IsSupportedAEADAlgorithm (Algorithm c) then Some (UnknownAlgorithm (Algorithm c))
           else if \<not> Supports (Algorithms (Crypto clientHello)) (Algorithm c) then Some (AlgorithmNotAdvertised (Algorithm c))
           else if length (ServerRandom c) \<noteq> CryptoRandomSize then Some (BadServerRandom (length (ServerRandom c)))
           else None)"

section \<open>Transcript\<close>

definition writeCryptoTranscriptPart :: "string \<Rightarrow> byte list \<Rightarrow> byte list" where
  "writeCryptoTranscriptPart label payload = [0] @ bytes label @ [0] @ PutUint64 (of_nat (length payload)) @ payload"

definition cryptoTranscript :: "byte list \<Rightarrow> byte list \<Rightarrow> byte list" where
  "cryptoTranscript clientHelloPayload serverHelloPayload =
     bytes ''frp wire v2 crypto transcript'' @ writeCryptoTranscriptPart ''client hello'' clientHelloPayload @
     writeCryptoTranscriptPart ''server hello'' serverHelloPayload"

definition HashCryptoTranscript :: "(byte list \<Rightarrow> byte list) \<Rightarrow> byte list \<Rightarrow> byte list \<Rightarrow> byte list" where
  "HashCryptoTranscript sha256 c s = sha256 (cryptoTranscript c s)"

record CryptoContext =
  ctxAlgorithm :: string
  TranscriptHash :: "byte list"

definition NewCryptoContext :: "(byte list \<Rightarrow> byte list) \<Rightarrow> string \<Rightarrow> byte list \<Rightarrow> byte list \<Rightarrow> CryptoContext" where
  "NewCryptoContext sha256 algorithm c s = \<lparr>ctxAlgorithm = algorithm, TranscriptHash = HashCryptoTranscript sha256 c s\<rparr>"

lemma transcriptPart_inj:
  assumes "length p < 2 ^ 64" "length q < 2 ^ 64" "writeCryptoTranscriptPart l p @ x = writeCryptoTranscriptPart l q @ y"
  shows "p = q \<and> x = y"
proof -
  have "PutUint64 (of_nat (length p)) @ p @ x = PutUint64 (of_nat (length q)) @ q @ y"
    using assms(3) by (simp add: writeCryptoTranscriptPart_def)
  then have "PutUint64 (of_nat (length p)) = PutUint64 (of_nat (length q))" "p @ x = q @ y" by (simp_all add: append_eq_append_conv)
  then have "(of_nat (length p) :: uint64) = of_nat (length q)" using PutUint64_inj by blast
  then have "unat (of_nat (length p) :: uint64) = unat (of_nat (length q) :: uint64)" by simp
  then have "length p = length q" using assms(1,2) by (simp add: unsigned_of_nat take_bit_nat_eq_self)
  then show ?thesis using \<open>p @ x = q @ y\<close> by simp
qed

text \<open>The transcript binds both hellos. What the two sides hash determines the payloads of both hello frames byte by
  byte: two different negotiations never hash the same transcript.\<close>

theorem transcript_binding:
  assumes "length c < 2 ^ 64" "length c' < 2 ^ 64" "length s < 2 ^ 64" "length s' < 2 ^ 64"
  shows "cryptoTranscript c s = cryptoTranscript c' s' \<longleftrightarrow> c = c' \<and> s = s'"
proof
  assume "cryptoTranscript c s = cryptoTranscript c' s'"
  then have "writeCryptoTranscriptPart ''client hello'' c @ writeCryptoTranscriptPart ''server hello'' s =
    writeCryptoTranscriptPart ''client hello'' c' @ writeCryptoTranscriptPart ''server hello'' s'"
    unfolding cryptoTranscript_def by simp
  note c = transcriptPart_inj [OF assms(1,2) this]
  then have "writeCryptoTranscriptPart ''server hello'' s @ [] = writeCryptoTranscriptPart ''server hello'' s' @ []" by simp
  note transcriptPart_inj [OF assms(3,4) this]
  then show "c = c' \<and> s = s'" using c by blast
qed simp

theorem transcript_binding_witness:
  "(cryptoTranscript [1, 2] [3] = cryptoTranscript [1] [2, 3]) = ([1, 2] = [1 :: byte] \<and> [3] = [2, 3 :: byte])"
  by (rule transcript_binding) simp_all

end
