(* ===== verification/Msg_V2.thy ===== *)
theory Msg_V2
  imports Wire
begin

text \<open>
  Messages of the second protocol (\<open>pkg/msg/wire_v2.go\<close>): the table of message types, and a message as a frame whose
  payload is its type number and its JSON text. The JSON encoder and decoder are parameters, one pair per type they are
  used at.
\<close>

section \<open>Message types\<close>

datatype msg_type =
    Login | LoginResp | NewProxy | NewProxyResp | CloseProxy | NewWorkConn | ReqWorkConn | StartWorkConn
  | NewVisitorConn | NewVisitorConnResp | Ping | Pong | UDPPacket | NatHoleVisitor | NatHoleClient | NatHoleResp
  | NatHoleSid | NatHoleReport | ProxyMetrics

definition v2MsgTypeMap :: "(uint16 \<times> msg_type) list" where
  "v2MsgTypeMap =
     [(1, Login), (2, LoginResp), (3, NewProxy), (4, NewProxyResp), (5, CloseProxy), (6, NewWorkConn), (7, ReqWorkConn),
      (8, StartWorkConn), (9, NewVisitorConn), (10, NewVisitorConnResp), (11, Ping), (12, Pong), (13, UDPPacket),
      (14, NatHoleVisitor), (15, NatHoleClient), (16, NatHoleResp), (17, NatHoleSid), (18, NatHoleReport), (19, ProxyMetrics)]"

text \<open>\<open>buildV2MsgTypeMaps\<close>: the table read in both directions.\<close>

definition v2MsgReflectTypeMap :: "uint16 \<rightharpoonup> msg_type" where
  "v2MsgReflectTypeMap = map_of v2MsgTypeMap"

definition v2MsgTypeIDMap :: "msg_type \<rightharpoonup> uint16" where
  "v2MsgTypeIDMap = map_of (map prod.swap v2MsgTypeMap)"

lemma v2_distinct: "distinct (map fst v2MsgTypeMap)" "distinct (map snd v2MsgTypeMap)"
  by (simp_all add: v2MsgTypeMap_def)

lemma v2_bijection: "v2MsgReflectTypeMap i = Some t \<longleftrightarrow> v2MsgTypeIDMap t = Some i"
proof -
  have "distinct (map fst (map prod.swap v2MsgTypeMap))" using v2_distinct(2) by (simp add: comp_def)
  then show ?thesis
    unfolding v2MsgReflectTypeMap_def v2MsgTypeIDMap_def
    using v2_distinct(1) by (auto simp: map_of_eq_Some_iff)
qed

lemma v2_total: "\<exists>i. v2MsgTypeIDMap t = Some i"
  by (cases t) (simp_all add: v2MsgTypeIDMap_def v2MsgTypeMap_def)

section \<open>Messages\<close>

text \<open>A message value: nil, a struct of a known type (or a pointer to one), or a value of another Go type.\<close>

datatype 'm Message = NilMsg | Msg msg_type 'm | Foreign string

text \<open>The target of \<open>DecodeV2MessageFrameInto\<close>: a pointer to a struct of a known type, with the value it has before or nil, a
  pointer to another type, or no pointer.\<close>

datatype 'm target = NotPointer | PointerTo msg_type "'m option" | PointerToForeign string

datatype msg_error =
    WireError wire_error
  | NotAMessageFrame uint16
  | PayloadTooShort
  | UnknownTypeID uint16
  | UnknownType string
  | NilMessage
  | TargetNotPointer
  | UnexpectedMsgType msg_type msg_type
  | MarshalFailed
  | UnmarshalFailed

text \<open>The JSON encoder. It decodes into a struct that is there already, and the fields that the text does not name keep their
  values; \<open>zeroMsg\<close> is the struct with every field at its zero value.\<close>

record 'm json =
  zeroMsg :: "msg_type \<Rightarrow> 'm"
  marshalMsg :: "msg_type \<Rightarrow> 'm \<Rightarrow> byte list option"
  unmarshalMsg :: "msg_type \<Rightarrow> byte list \<Rightarrow> 'm \<Rightarrow> 'm option"
  marshalClientHello :: "ClientHello \<Rightarrow> byte list option"
  unmarshalClientHello :: "byte list \<Rightarrow> ClientHello option"
  marshalServerHello :: "ServerHello \<Rightarrow> byte list option"
  unmarshalServerHello :: "byte list \<Rightarrow> ServerHello option"

definition EncodeV2MessageFrame :: "'m json \<Rightarrow> 'm Message \<Rightarrow> (msg_error, Frame) result" where
  "EncodeV2MessageFrame j m =
     (case m of NilMsg \<Rightarrow> Inl NilMessage
      | Foreign t \<Rightarrow> Inl (UnknownType t)
      | Msg t x \<Rightarrow>
          (case v2MsgTypeIDMap t of None \<Rightarrow> Inl (UnknownType '''')
           | Some typeID \<Rightarrow>
               (case marshalMsg j t x of None \<Rightarrow> Inl MarshalFailed
                | Some content \<Rightarrow> Inr \<lparr>Type = FrameTypeMessage, Flags = 0, Payload = PutUint16 typeID @ content\<rparr>)))"

definition DecodeV2MessageFrame :: "'m json \<Rightarrow> Frame \<Rightarrow> (msg_error, 'm Message) result" where
  "DecodeV2MessageFrame j f =
     (if Type f \<noteq> FrameTypeMessage then Inl (NotAMessageFrame (Type f))
      else if length (Payload f) < 2 then Inl PayloadTooShort
      else let typeID = Uint16 (take 2 (Payload f)) in
        case v2MsgReflectTypeMap typeID of None \<Rightarrow> Inl (UnknownTypeID typeID)
        | Some t \<Rightarrow>
            (case unmarshalMsg j t (drop 2 (Payload f)) (zeroMsg j t) of None \<Rightarrow> Inl UnmarshalFailed | Some x \<Rightarrow> Inr (Msg t x)))"

text \<open>The value the target then holds, on success.\<close>

definition DecodeV2MessageFrameInto :: "'m json \<Rightarrow> Frame \<Rightarrow> 'm target \<Rightarrow> (msg_error, 'm) result" where
  "DecodeV2MessageFrameInto j f out =
     (if Type f \<noteq> FrameTypeMessage then Inl (NotAMessageFrame (Type f))
      else if length (Payload f) < 2 then Inl PayloadTooShort
      else let typeID = Uint16 (take 2 (Payload f)) in
        case out of NotPointer \<Rightarrow> Inl TargetNotPointer
        | PointerToForeign t \<Rightarrow> Inl (UnknownType t)
        | PointerTo t old \<Rightarrow>
            (case v2MsgTypeIDMap t of None \<Rightarrow> Inl (UnknownType '''')
             | Some expected \<Rightarrow>
                 if typeID \<noteq> expected then
                   (case v2MsgReflectTypeMap typeID of None \<Rightarrow> Inl (UnknownTypeID typeID)
                    | Some actual \<Rightarrow> Inl (UnexpectedMsgType actual t))
                 else
                   (case Option.bind old (unmarshalMsg j t (drop 2 (Payload f))) of None \<Rightarrow> Inl UnmarshalFailed | Some x \<Rightarrow> Inr x)))"

definition ReadMsg :: "'m json \<Rightarrow> uint32 \<Rightarrow> byte list \<Rightarrow> (msg_error, 'm Message) result \<times> byte list" where
  "ReadMsg j mx inp =
     (case ReadFrame mx inp of (Inl e, inp) \<Rightarrow> (Inl (WireError e), inp) | (Inr f, inp) \<Rightarrow> (DecodeV2MessageFrame j f, inp))"

definition ReadMsgInto :: "'m json \<Rightarrow> uint32 \<Rightarrow> 'm target \<Rightarrow> byte list \<Rightarrow> (msg_error, 'm) result \<times> byte list" where
  "ReadMsgInto j mx out inp =
     (case ReadFrame mx inp of (Inl e, inp) \<Rightarrow> (Inl (WireError e), inp)
      | (Inr f, inp) \<Rightarrow> (DecodeV2MessageFrameInto j f out, inp))"

definition WriteMsg :: "'m json \<Rightarrow> uint32 \<Rightarrow> 'm Message \<Rightarrow> byte list \<Rightarrow> (msg_error, byte list) result" where
  "WriteMsg j mx m out =
     (case EncodeV2MessageFrame j m of Inl e \<Rightarrow> Inl e
      | Inr f \<Rightarrow> (case WriteFrame mx f out of Inl e \<Rightarrow> Inl (WireError e) | Inr out' \<Rightarrow> Inr out'))"

section \<open>Round trip and typing\<close>

text \<open>What the code relies on for a message it sends: decoding its JSON text into an empty struct of its own type gives it back.\<close>

definition json_msg :: "'m json \<Rightarrow> msg_type \<Rightarrow> 'm \<Rightarrow> bool" where
  "json_msg j t x \<longleftrightarrow> (\<forall>b. marshalMsg j t x = Some b \<longrightarrow> unmarshalMsg j t b (zeroMsg j t) = Some x)"

lemma Encode_Inr:
  "EncodeV2MessageFrame j m = Inr f \<longleftrightarrow>
     (\<exists>t x i b. m = Msg t x \<and> v2MsgTypeIDMap t = Some i \<and> marshalMsg j t x = Some b \<and>
        f = \<lparr>Type = FrameTypeMessage, Flags = 0, Payload = PutUint16 i @ b\<rparr>)"
  by (auto simp: EncodeV2MessageFrame_def split: Message.splits option.splits)

lemma Decode_Encode:
  assumes "EncodeV2MessageFrame j (Msg t x) = Inr f" "json_msg j t x"
  shows "DecodeV2MessageFrame j f = Inr (Msg t x)"
    and "DecodeV2MessageFrameInto j f (PointerTo t (Some (zeroMsg j t))) = Inr x"
    and "t' \<noteq> t \<Longrightarrow> DecodeV2MessageFrameInto j f (PointerTo t' old) = Inl (UnexpectedMsgType t t')"
proof -
  obtain i b where f: "v2MsgTypeIDMap t = Some i" "marshalMsg j t x = Some b"
    "f = \<lparr>Type = FrameTypeMessage, Flags = 0, Payload = PutUint16 i @ b\<rparr>"
    using assms(1) by (auto simp: Encode_Inr)
  have u: "unmarshalMsg j t b (zeroMsg j t) = Some x" using assms(2) f(2) by (simp add: json_msg_def)
  have r: "v2MsgReflectTypeMap i = Some t" using f(1) by (simp add: v2_bijection)
  show "DecodeV2MessageFrame j f = Inr (Msg t x)" by (simp add: DecodeV2MessageFrame_def f(3) Let_def r u)
  obtain i' where i': "v2MsgTypeIDMap t' = Some i'" using v2_total by blast
  have "i = i' \<longleftrightarrow> t' = t"
    using r i' v2_bijection [of i t'] v2_bijection [of i' t'] by auto
  then show "t' \<noteq> t \<Longrightarrow> DecodeV2MessageFrameInto j f (PointerTo t' old) = Inl (UnexpectedMsgType t t')"
    by (auto simp: DecodeV2MessageFrameInto_def f(3) Let_def i' r)
  show "DecodeV2MessageFrameInto j f (PointerTo t (Some (zeroMsg j t))) = Inr x"
    by (simp add: DecodeV2MessageFrameInto_def f Let_def u)
qed

lemma WriteMsg_Inr:
  "WriteMsg j mx m out = Inr out' \<longleftrightarrow> (\<exists>f. EncodeV2MessageFrame j m = Inr f \<and> sendable mx f \<and> out' = out @ frameBytes f)"
proof (cases "EncodeV2MessageFrame j m")
  case (Inr f)
  show ?thesis
  proof (cases "sendable mx f")
    case True
    then have "WriteFrame mx f out = Inr (out @ frameBytes f)" by (simp add: WriteFrame_iff)
    then show ?thesis using True Inr by (auto simp: WriteMsg_def)
  next
    case False
    then obtain e where "WriteFrame mx f out = Inl e" using WriteFrame_not_sendable by blast
    then show ?thesis using False Inr by (simp add: WriteMsg_def)
  qed
qed (simp add: WriteMsg_def)

text \<open>C29: Messages survive the wire, with their type. If a message that its JSON text represents faithfully can be written,
  the reader gets this message and is left with the rest of the stream. Reading it into an empty struct of its type gives its
  value, and reading it into a target of any other type, whatever it holds, fails with both types named, so that no message
  is ever decoded as another type.\<close>

theorem message_roundtrip:
  assumes "WriteMsg j mx (Msg t x) [] = Inr out" "json_msg j t x"
  shows "ReadMsg j mx (out @ rest) = (Inr (Msg t x), rest) \<and>
    ReadMsgInto j mx (PointerTo t (Some (zeroMsg j t))) (out @ rest) = (Inr x, rest) \<and>
    (t' \<noteq> t \<longrightarrow> ReadMsgInto j mx (PointerTo t' old) (out @ rest) = (Inl (UnexpectedMsgType t t'), rest))"
proof -
  obtain f where f: "EncodeV2MessageFrame j (Msg t x) = Inr f" "sendable mx f" "out = frameBytes f"
    using assms(1) by (auto simp: WriteMsg_Inr)
  have "ReadFrame mx (out @ rest) = (Inr f, rest)" unfolding f(3) by (rule ReadFrame_frameBytes [OF f(2)])
  then show ?thesis
    using Decode_Encode [OF f(1) assms(2)] by (simp add: ReadMsg_def ReadMsgInto_def)
qed

text \<open>C30: Typing of decoded messages. A message that was read has the type whose number its frame carries, and reading into a
  target only succeeds for a frame that carries the number of the target's type; the numbers of the table are one to one.\<close>

theorem decoded_type:
  "(DecodeV2MessageFrame j f = Inr m \<longrightarrow> (\<exists>t x. m = Msg t x \<and> v2MsgTypeIDMap t = Some (Uint16 (take 2 (Payload f))))) \<and>
   (DecodeV2MessageFrameInto j f (PointerTo t' old) = Inr y \<longrightarrow> v2MsgTypeIDMap t' = Some (Uint16 (take 2 (Payload f)))) \<and>
   (v2MsgTypeIDMap t1 = v2MsgTypeIDMap t2 \<longrightarrow> t1 = t2)"
proof (intro conjI impI)
  assume "DecodeV2MessageFrame j f = Inr m"
  then obtain t x where "m = Msg t x" "v2MsgReflectTypeMap (Uint16 (take 2 (Payload f))) = Some t"
    by (auto simp: DecodeV2MessageFrame_def Let_def split: if_splits option.splits)
  then show "\<exists>t x. m = Msg t x \<and> v2MsgTypeIDMap t = Some (Uint16 (take 2 (Payload f)))"
    by (simp add: v2_bijection)
next
  assume "DecodeV2MessageFrameInto j f (PointerTo t' old) = Inr y"
  then show "v2MsgTypeIDMap t' = Some (Uint16 (take 2 (Payload f)))"
    by (auto simp: DecodeV2MessageFrameInto_def Let_def split: if_splits option.splits)
next
  assume e: "v2MsgTypeIDMap t1 = v2MsgTypeIDMap t2"
  obtain i where "v2MsgTypeIDMap t1 = Some i" using v2_total by blast
  then have "v2MsgReflectTypeMap i = Some t1" "v2MsgReflectTypeMap i = Some t2" using e by (simp_all add: v2_bijection)
  then show "t1 = t2" by simp
qed

text \<open>A concrete encoder, for examples: the content is its own JSON text, and a hello is not encoded.\<close>

definition exJson :: "(byte list) json" where
  "exJson = \<lparr>zeroMsg = \<lambda>_. [], marshalMsg = \<lambda>_ b. Some b, unmarshalMsg = \<lambda>_ b old. Some (if b = [] then old else b),
     marshalClientHello = \<lambda>_. Some [1], unmarshalClientHello = \<lambda>_. None,
     marshalServerHello = \<lambda>_. Some [2], unmarshalServerHello = \<lambda>_. None\<rparr>"

theorem message_roundtrip_witness:
  "ReadMsg exJson 100 ([0, 16, 0, 0, 0, 0, 0, 3, 0, 11, 7] @ [9]) = (Inr (Msg Ping [7]), [9]) \<and>
   ReadMsgInto exJson 100 (PointerTo Ping (Some (zeroMsg exJson Ping))) ([0, 16, 0, 0, 0, 0, 0, 3, 0, 11, 7] @ [9]) = (Inr [7], [9]) \<and>
   ReadMsgInto exJson 100 (PointerTo Pong (Some [1])) ([0, 16, 0, 0, 0, 0, 0, 3, 0, 11, 7] @ [9]) = (Inl (UnexpectedMsgType Ping Pong), [9])"
proof -
  have "WriteMsg exJson 100 (Msg Ping [7]) [] = Inr [0, 16, 0, 0, 0, 0, 0, 3, 0, 11, 7]"
    by (simp add: WriteMsg_def EncodeV2MessageFrame_def v2MsgTypeIDMap_def v2MsgTypeMap_def exJson_def WriteFrame_def
        FrameTypeMessage_def PutUint16_def PutUint32_def)
  moreover have "json_msg exJson Ping [7]" by (simp add: json_msg_def exJson_def)
  ultimately show ?thesis using message_roundtrip [of exJson 100 Ping "[7]" _ "[9]" Pong "Some [1]"] by blast
qed

theorem decoded_type_witness:
  "\<exists>t x. Msg Ping [7 :: byte] = Msg t x \<and> v2MsgTypeIDMap t = Some (Uint16 (take 2 [0, 11, 7]))"
proof -
  let ?f = "\<lparr>Type = 16, Flags = 0, Payload = [0, 11, 7]\<rparr>"
  have "DecodeV2MessageFrame exJson ?f = Inr (Msg Ping [7])"
    by (simp add: DecodeV2MessageFrame_def FrameTypeMessage_def v2MsgReflectTypeMap_def v2MsgTypeMap_def exJson_def Uint16_def)
  then show ?thesis using decoded_type [of exJson ?f "Msg Ping [7]" Ping None "[]" Ping Ping] by simp
qed

end
