(* ===== verification/Handshake.thy ===== *)
theory Handshake
  imports Msg_V2
begin

text \<open>
  The start of a control connection: what the client writes and reads to log in (\<open>exchangeLogin\<close> of
  \<open>client/control_session.go\<close>) and how the server takes a connection up to its first message
  (\<open>acceptConnection\<close>, \<open>readFirstV2Msg\<close> and \<open>handleClientHello\<close> of \<open>server/service.go\<close>). Reader and writer of the first
  protocol belong to another package and are parameters, as are the JSON encoder and the hash.
\<close>

record 'm v1codec =
  v1WriteMsg :: "'m Message \<Rightarrow> byte list \<Rightarrow> (msg_error, byte list) result"
  v1ReadMsg :: "byte list \<Rightarrow> (msg_error, 'm Message) result \<times> byte list"
  v1ReadMsgInto :: "'m target \<Rightarrow> byte list \<Rightarrow> (msg_error, 'm) result \<times> byte list"

datatype handshake_error =
    MagicError wire_error
  | FrameError wire_error
  | HelloRejected wire_error
  | HelloNotDecoded
  | HelloNotEncoded
  | MsgError msg_error
  | ServerSaid string
  | BadServerHello wire_error

section \<open>Client\<close>

text \<open>The part of \<open>exchangeLogin\<close> before it waits: the bytes written and the payload of the hello.\<close>

definition exchangeLoginSend ::
    "'m json \<Rightarrow> 'm v1codec \<Rightarrow> bool \<Rightarrow> bool \<Rightarrow> (nat \<Rightarrow> byte) option \<Rightarrow> BootstrapInfo \<Rightarrow> 'm
     \<Rightarrow> (handshake_error, byte list \<times> byte list option) result" where
  "exchangeLoginSend j v1 isV2 fastAES rnd bootstrap loginMsg =
     (if isV2 then
        (case NewClientHello fastAES rnd bootstrap of Inl e \<Rightarrow> Inl (HelloRejected e)
         | Inr hello \<Rightarrow>
             (case marshalClientHello j hello of None \<Rightarrow> Inl HelloNotEncoded
              | Some payload \<Rightarrow>
                  (case WriteFrame DefaultMaxFramePayloadSize
                          \<lparr>Type = FrameTypeClientHello, Flags = 0, Payload = payload\<rparr> (WriteMagic []) of
                     Inl e \<Rightarrow> Inl (FrameError e)
                   | Inr out \<Rightarrow>
                       (case WriteMsg j DefaultMaxFramePayloadSize (Msg Login loginMsg) out of
                          Inl e \<Rightarrow> Inl (MsgError e) | Inr out' \<Rightarrow> Inr (out', Some payload)))))
      else (case v1WriteMsg v1 (Msg Login loginMsg) [] of Inl e \<Rightarrow> Inl (MsgError e) | Inr out \<Rightarrow> Inr (out, None)))"

definition NewClientCryptoContext ::
    "'m json \<Rightarrow> (byte list \<Rightarrow> byte list) \<Rightarrow> byte list \<Rightarrow> byte list \<Rightarrow> (handshake_error, CryptoContext) result" where
  "NewClientCryptoContext j sha256 clientHelloPayload serverHelloPayload =
     (case unmarshalClientHello j clientHelloPayload of None \<Rightarrow> Inl HelloNotDecoded
      | Some clientHello \<Rightarrow>
          (case unmarshalServerHello j serverHelloPayload of None \<Rightarrow> Inl HelloNotDecoded
           | Some serverHello \<Rightarrow>
               (case ValidateServerHelloForClient clientHello serverHello of Some e \<Rightarrow> Inl (BadServerHello e)
                | None \<Rightarrow> Inr (NewCryptoContext sha256 (Algorithm (selCrypto serverHello)) clientHelloPayload serverHelloPayload))))"

text \<open>The part after the wait, on the bytes that came back.\<close>

definition readServerHello ::
    "'m json \<Rightarrow> (byte list \<Rightarrow> byte list) \<Rightarrow> byte list \<Rightarrow> byte list \<Rightarrow> (handshake_error, CryptoContext) result \<times> byte list" where
  "readServerHello j sha256 clientHelloPayload inp =
     (case ReadFrame DefaultMaxFramePayloadSize inp of (Inl e, inp) \<Rightarrow> (Inl (FrameError e), inp)
      | (Inr f, inp) \<Rightarrow>
          (if Type f \<noteq> FrameTypeServerHello then Inl (FrameError (UnexpectedFrameType (Type f) FrameTypeServerHello))
           else case unmarshalServerHello j (Payload f) of None \<Rightarrow> Inl HelloNotDecoded
           | Some sh \<Rightarrow> if helloError sh \<noteq> '''' then Inl (ServerSaid (helloError sh))
               else NewClientCryptoContext j sha256 clientHelloPayload (Payload f), inp))"

definition exchangeLoginRecv ::
    "'m json \<Rightarrow> 'm v1codec \<Rightarrow> (byte list \<Rightarrow> byte list) \<Rightarrow> byte list option \<Rightarrow> byte list
     \<Rightarrow> (handshake_error, 'm \<times> CryptoContext option) result \<times> byte list" where
  "exchangeLoginRecv j v1 sha256 hello inp =
     (case hello of
        None \<Rightarrow> (case v1ReadMsgInto v1 (PointerTo LoginResp (Some (zeroMsg j LoginResp))) inp of (Inl e, inp) \<Rightarrow> (Inl (MsgError e), inp)
                 | (Inr x, inp) \<Rightarrow> (Inr (x, None), inp))
      | Some payload \<Rightarrow>
          (case readServerHello j sha256 payload inp of (Inl e, inp) \<Rightarrow> (Inl e, inp)
           | (Inr ctx, inp) \<Rightarrow>
               (case ReadMsgInto j DefaultMaxFramePayloadSize (PointerTo LoginResp (Some (zeroMsg j LoginResp))) inp of
                  (Inl e, inp) \<Rightarrow> (Inl (MsgError e), inp) | (Inr x, inp) \<Rightarrow> (Inr (x, Some ctx), inp))))"

section \<open>Server\<close>

record 'm acceptedConnection =
  isV2 :: bool
  cryptoContext :: "CryptoContext option"
  firstMsg :: "'m Message"

text \<open>The text of an error of \<open>NewServerHello\<close>, as the client gets it.\<close>

definition helloErrorText :: "wire_error \<Rightarrow> string" where
  "helloErrorText e =
     (case e of UnsupportedCodec _ \<Rightarrow> ''unsupported message codec''
      | BadClientRandom n \<Rightarrow> ''invalid crypto client random length '' @ Itoa (int n) @ '', want 32''
      | NoSupportedAlgorithm \<Rightarrow> ''no supported crypto algorithm''
      | _ \<Rightarrow> ''generate crypto random: error'')"

text \<open>The crypto context, or why the connection is refused; and the bytes written in either case.\<close>

definition handleClientHello ::
    "'m json \<Rightarrow> (byte list \<Rightarrow> byte list) \<Rightarrow> (nat \<Rightarrow> byte) option \<Rightarrow> Frame
     \<Rightarrow> (handshake_error, CryptoContext) result \<times> byte list" where
  "handleClientHello j sha256 rnd f =
     (case unmarshalClientHello j (Payload f) of None \<Rightarrow> (Inl HelloNotDecoded, [])
      | Some hello \<Rightarrow>
          (case NewServerHello rnd hello of
             Inl e \<Rightarrow>
               (Inl (HelloRejected e),
                case marshalServerHello j (DefaultServerHello\<lparr>helloError := helloErrorText e\<rparr>) of None \<Rightarrow> []
                | Some payload \<Rightarrow>
                    (case WriteFrame DefaultMaxFramePayloadSize \<lparr>Type = FrameTypeServerHello, Flags = 0, Payload = payload\<rparr> [] of
                       Inl _ \<Rightarrow> [] | Inr out \<Rightarrow> out))
           | Inr serverHello \<Rightarrow>
               (case marshalServerHello j serverHello of None \<Rightarrow> (Inl HelloNotEncoded, [])
                | Some payload \<Rightarrow>
                    (case WriteFrame DefaultMaxFramePayloadSize \<lparr>Type = FrameTypeServerHello, Flags = 0, Payload = payload\<rparr> [] of
                       Inl e \<Rightarrow> (Inl (FrameError e), [])
                     | Inr out \<Rightarrow> (Inr (NewCryptoContext sha256 (Algorithm (selCrypto serverHello)) (Payload f) payload), out)))))"

definition readFirstV2Msg ::
    "'m json \<Rightarrow> (byte list \<Rightarrow> byte list) \<Rightarrow> (nat \<Rightarrow> byte) option \<Rightarrow> byte list
     \<Rightarrow> (handshake_error, 'm acceptedConnection) result \<times> byte list \<times> byte list" where
  "readFirstV2Msg j sha256 rnd inp =
     (let decode = (\<lambda>ctx f. case DecodeV2MessageFrame j f of Inl e \<Rightarrow> Inl (MsgError e)
                     | Inr m \<Rightarrow> Inr \<lparr>isV2 = True, cryptoContext = ctx, firstMsg = m\<rparr>)
      in case ReadFrame DefaultMaxFramePayloadSize inp of (Inl e, inp) \<Rightarrow> (Inl (FrameError e), [], inp)
         | (Inr f, inp) \<Rightarrow>
             if Type f = FrameTypeClientHello then
               (case handleClientHello j sha256 rnd f of (Inl e, out) \<Rightarrow> (Inl e, out, inp)
                | (Inr ctx, out) \<Rightarrow>
                    (case ReadFrame DefaultMaxFramePayloadSize inp of (Inl e, inp) \<Rightarrow> (Inl (FrameError e), out, inp)
                     | (Inr f', inp) \<Rightarrow> (decode (Some ctx) f', out, inp)))
             else (decode None f, [], inp))"

text \<open>The accepted connection or the error, the bytes written so far and the bytes still unread.\<close>

definition acceptConnection ::
    "'m json \<Rightarrow> 'm v1codec \<Rightarrow> (byte list \<Rightarrow> byte list) \<Rightarrow> (nat \<Rightarrow> byte) option \<Rightarrow> byte list
     \<Rightarrow> (handshake_error, 'm acceptedConnection) result \<times> byte list \<times> byte list" where
  "acceptConnection j v1 sha256 rnd inp =
     (case CheckMagic inp of Inl e \<Rightarrow> (Inl (MagicError e), [], [])
      | Inr (True, inp) \<Rightarrow> readFirstV2Msg j sha256 rnd inp
      | Inr (False, inp) \<Rightarrow>
          (case v1ReadMsg v1 inp of (Inl e, inp) \<Rightarrow> (Inl (MsgError e), [], inp)
           | (Inr m, inp) \<Rightarrow> (Inr \<lparr>isV2 = False, cryptoContext = None, firstMsg = m\<rparr>, [], inp)))"

section \<open>Agreement\<close>

lemma Select_preferred: "SelectAEADAlgorithm (PreferredAEADAlgorithms fast) = Some (hd (PreferredAEADAlgorithms fast))"
  by (simp add: PreferredAEADAlgorithms_def IsSupportedAEADAlgorithm_def supportedAEADAlgorithms_def Supports_def)

lemma preferred_supported: "IsSupportedAEADAlgorithm (hd (PreferredAEADAlgorithms fast))"
  "hd (PreferredAEADAlgorithms fast) \<in> set (PreferredAEADAlgorithms fast)"
  by (simp_all add: PreferredAEADAlgorithms_def IsSupportedAEADAlgorithm_def supportedAEADAlgorithms_def Supports_def)

definition serverHelloFor :: "bool \<Rightarrow> (nat \<Rightarrow> byte) \<Rightarrow> ServerHello" where
  "serverHelloFor fast r =
     \<lparr>Codec = MessageCodecJSON,
      selCrypto = \<lparr>Algorithm = hd (PreferredAEADAlgorithms fast), ServerRandom = map r [0..<CryptoRandomSize]\<rparr>, helloError = ''''\<rparr>"

lemma NewServerHello_client:
  "NewClientHello fast (Some c) b = Inr h \<Longrightarrow> NewServerHello (Some r) h = Inr (serverHelloFor fast r)"
  by (auto simp: NewClientHello_def newCryptoRandom_def clientHelloWithCryptoRandom_def NewServerHello_def ValidateClientHello_def
      ValidateCryptoCapabilities_def Supports_def Select_preferred serverHelloFor_def)

lemma client_accepts:
  "NewClientHello fast (Some c) b = Inr h \<Longrightarrow> ValidateServerHelloForClient h (serverHelloFor fast r) = None"
  by (auto simp: NewClientHello_def newCryptoRandom_def clientHelloWithCryptoRandom_def ValidateServerHelloForClient_def
      serverHelloFor_def Supports_def preferred_supported)

lemma NewClientHello_random: "NewClientHello fast rnd b = Inr h \<Longrightarrow> \<exists>c. rnd = Some c"
  by (auto simp: NewClientHello_def newCryptoRandom_def split: option.splits)

text \<open>What the two sides rely on for the two hellos: the JSON text of a hello that is sent decodes to that hello.\<close>

definition json_hello :: "'m json \<Rightarrow> ClientHello \<Rightarrow> ServerHello \<Rightarrow> bool" where
  "json_hello j ch sh \<longleftrightarrow>
     (\<exists>b. marshalClientHello j ch = Some b \<and> unmarshalClientHello j b = Some ch) \<and>
     (\<exists>b. marshalServerHello j sh = Some b \<and> unmarshalServerHello j b = Some sh \<and> length b \<le> unat DefaultMaxFramePayloadSize)"

lemma exchangeLoginSend_v2:
  assumes "exchangeLoginSend j v1 True fast rnd boot x = Inr (out, hp)" "json_hello j h sh" "NewClientHello fast rnd boot = Inr h"
  obtains p f where "hp = Some p" "unmarshalClientHello j p = Some h" "EncodeV2MessageFrame j (Msg Login x) = Inr f"
    "sendable DefaultMaxFramePayloadSize \<lparr>Type = FrameTypeClientHello, Flags = 0, Payload = p\<rparr>"
    "sendable DefaultMaxFramePayloadSize f"
    "out = MagicV2 @ frameBytes \<lparr>Type = FrameTypeClientHello, Flags = 0, Payload = p\<rparr> @ frameBytes f"
proof -
  obtain p where p: "marshalClientHello j h = Some p" "unmarshalClientHello j p = Some h"
    using assms(2) by (auto simp: json_hello_def)
  let ?f = "\<lparr>Type = FrameTypeClientHello, Flags = 0, Payload = p\<rparr>"
  obtain o1 where w: "WriteFrame DefaultMaxFramePayloadSize ?f (WriteMagic []) = Inr o1"
    using assms(1) p(1) by (auto simp: exchangeLoginSend_def assms(3) split: sum.splits)
  then have m: "WriteMsg j DefaultMaxFramePayloadSize (Msg Login x) o1 = Inr out" "hp = Some p"
    using assms(1) p(1) by (auto simp: exchangeLoginSend_def assms(3) split: sum.splits)
  have o1: "sendable DefaultMaxFramePayloadSize ?f" "o1 = MagicV2 @ frameBytes ?f"
    using w by (simp_all add: WriteFrame_iff WriteMagic_def)
  obtain f where "EncodeV2MessageFrame j (Msg Login x) = Inr f" "sendable DefaultMaxFramePayloadSize f" "out = o1 @ frameBytes f"
    using m(1) by (auto simp: WriteMsg_Inr)
  then show thesis using that p(2) m(2) o1 by simp
qed

lemma accept_hello:
  assumes h: "unmarshalClientHello j p = Some h" "NewServerHello (Some r) h = Inr sh"
    and sh: "marshalServerHello j sh = Some b" "length b \<le> unat DefaultMaxFramePayloadSize"
    and f: "DecodeV2MessageFrame j f = Inr m" "sendable DefaultMaxFramePayloadSize f"
    and p: "sendable DefaultMaxFramePayloadSize \<lparr>Type = FrameTypeClientHello, Flags = 0, Payload = p\<rparr>" (is "sendable _ ?cf")
  shows "acceptConnection j v1 sha256 (Some r) (MagicV2 @ frameBytes ?cf @ frameBytes f @ rest) =
    (Inr \<lparr>isV2 = True, cryptoContext = Some (NewCryptoContext sha256 (Algorithm (selCrypto sh)) p b), firstMsg = m\<rparr>,
     frameBytes \<lparr>Type = FrameTypeServerHello, Flags = 0, Payload = b\<rparr>, rest)"
proof -
  let ?sf = "\<lparr>Type = FrameTypeServerHello, Flags = 0, Payload = b\<rparr>"
  have "sendable DefaultMaxFramePayloadSize ?sf" using sh(2) by (simp add: sendable_def)
  then have w: "WriteFrame DefaultMaxFramePayloadSize ?sf [] = Inr (frameBytes ?sf)" by (simp add: WriteFrame_iff)
  have "handleClientHello j sha256 (Some r) ?cf =
      (Inr (NewCryptoContext sha256 (Algorithm (selCrypto sh)) p b), frameBytes ?sf)"
    by (simp add: handleClientHello_def h sh(1) w)
  then show ?thesis
    unfolding acceptConnection_def readFirstV2Msg_def
    by (simp add: ReadFrame_frameBytes [OF p] ReadFrame_frameBytes [OF f(2)] f(1) Let_def)
qed

lemma recv_hello:
  assumes sh: "unmarshalServerHello j b = Some sh" "helloError sh = ''''" "length b \<le> unat DefaultMaxFramePayloadSize"
    and h: "unmarshalClientHello j p = Some h" "ValidateServerHelloForClient h sh = None"
    and f: "DecodeV2MessageFrameInto j f (PointerTo LoginResp (Some (zeroMsg j LoginResp))) = Inr y" "sendable DefaultMaxFramePayloadSize f"
  shows "exchangeLoginRecv j v1 sha256 (Some p)
      (frameBytes \<lparr>Type = FrameTypeServerHello, Flags = 0, Payload = b\<rparr> @ frameBytes f @ rest) =
    (Inr (y, Some (NewCryptoContext sha256 (Algorithm (selCrypto sh)) p b)), rest)"
proof -
  let ?sf = "\<lparr>Type = FrameTypeServerHello, Flags = 0, Payload = b\<rparr>"
  have s: "sendable DefaultMaxFramePayloadSize ?sf" using sh(3) by (simp add: sendable_def)
  have "readServerHello j sha256 p (frameBytes ?sf @ frameBytes f @ rest) =
      (Inr (NewCryptoContext sha256 (Algorithm (selCrypto sh)) p b), frameBytes f @ rest)"
    by (simp add: readServerHello_def ReadFrame_frameBytes [OF s] sh(1,2) NewClientCryptoContext_def h)
  then show ?thesis
    by (simp add: exchangeLoginRecv_def ReadMsgInto_def ReadFrame_frameBytes [OF f(2)] f(1))
qed

text \<open>C27: Both ends of a new control connection agree. If the client can write its hello and its login and the JSON texts are
  faithful, the server, reading what the client wrote, accepts the connection with exactly this login and stops behind it.
  Reading what the server then wrote, hello and login response, the client gets this response and the same
  crypto context, whose cipher is the client's first choice.\<close>

theorem handshake_agrees:
  assumes "NewClientHello fast rnd boot = Inr h" "json_hello j h (serverHelloFor fast r)"
    and "exchangeLoginSend j v1 True fast rnd boot x = Inr (out, hp)" "json_msg j Login x"
    and "json_msg j LoginResp y" "WriteMsg j DefaultMaxFramePayloadSize (Msg LoginResp y) [] = Inr reply"
  shows "\<exists>sout ctx. acceptConnection j v1 sha256 (Some r) (out @ rest) =
      (Inr \<lparr>isV2 = True, cryptoContext = Some ctx, firstMsg = Msg Login x\<rparr>, sout, rest) \<and>
    exchangeLoginRecv j v1 sha256 hp (sout @ reply @ rest') = (Inr (y, Some ctx), rest') \<and>
    ctxAlgorithm ctx = hd (PreferredAEADAlgorithms fast)"
proof -
  obtain p f where C: "hp = Some p" "unmarshalClientHello j p = Some h" "EncodeV2MessageFrame j (Msg Login x) = Inr f"
    "sendable DefaultMaxFramePayloadSize \<lparr>Type = FrameTypeClientHello, Flags = 0, Payload = p\<rparr>"
    "sendable DefaultMaxFramePayloadSize f"
    "out = MagicV2 @ frameBytes \<lparr>Type = FrameTypeClientHello, Flags = 0, Payload = p\<rparr> @ frameBytes f"
    using exchangeLoginSend_v2 [OF assms(3,2,1)] by blast
  obtain g where G: "EncodeV2MessageFrame j (Msg LoginResp y) = Inr g" "sendable DefaultMaxFramePayloadSize g" "reply = frameBytes g"
    using assms(6) by (auto simp: WriteMsg_Inr)
  obtain b where b: "marshalServerHello j (serverHelloFor fast r) = Some b" "unmarshalServerHello j b = Some (serverHelloFor fast r)"
    "length b \<le> unat DefaultMaxFramePayloadSize"
    using assms(2) by (auto simp: json_hello_def)
  obtain c where c: "NewClientHello fast (Some c) boot = Inr h" using assms(1) NewClientHello_random by blast
  have D: "DecodeV2MessageFrame j f = Inr (Msg Login x)" using Decode_Encode(1) [OF C(3) assms(4)] .
  have D': "DecodeV2MessageFrameInto j g (PointerTo LoginResp (Some (zeroMsg j LoginResp))) = Inr y"
    using Decode_Encode(2) [OF G(1) assms(5)] .
  have e: "helloError (serverHelloFor fast r) = ''''" by (simp add: serverHelloFor_def)
  let ?ctx = "NewCryptoContext sha256 (Algorithm (selCrypto (serverHelloFor fast r))) p b"
  have "acceptConnection j v1 sha256 (Some r) (out @ rest) =
      (Inr \<lparr>isV2 = True, cryptoContext = Some ?ctx, firstMsg = Msg Login x\<rparr>,
       frameBytes \<lparr>Type = FrameTypeServerHello, Flags = 0, Payload = b\<rparr>, rest)"
    using accept_hello [OF C(2) NewServerHello_client [OF c] b(1,3) D C(5,4), of v1 sha256 rest] by (simp add: C(6))
  moreover have "exchangeLoginRecv j v1 sha256 hp (frameBytes \<lparr>Type = FrameTypeServerHello, Flags = 0, Payload = b\<rparr> @ reply @ rest') =
      (Inr (y, Some ?ctx), rest')"
    using recv_hello [OF b(2) e b(3) C(2) client_accepts [OF c] D' G(2), of v1 sha256 rest'] by (simp add: C(1) G(3))
  moreover have "ctxAlgorithm ?ctx = hd (PreferredAEADAlgorithms fast)"
    by (simp add: NewCryptoContext_def serverHelloFor_def)
  ultimately show ?thesis by blast
qed

text \<open>An encoder that knows the two hellos of an example.\<close>

definition exBoot :: BootstrapInfo where
  "exBoot = \<lparr>Transport = ''tcp'', TLS = True, TCPMux = True\<rparr>"

definition exHello :: ClientHello where
  "exHello = clientHelloWithCryptoRandom True exBoot (map (\<lambda>_. 5) [0..<CryptoRandomSize])"

definition exHandshakeJson :: "byte list json" where
  "exHandshakeJson = exJson\<lparr>unmarshalClientHello := \<lambda>_. Some exHello, unmarshalServerHello := \<lambda>_. Some (serverHelloFor True (\<lambda>_. 6))\<rparr>"

definition exV1 :: "byte list v1codec" where
  "exV1 = \<lparr>v1WriteMsg = \<lambda>_ _. Inl NilMessage, v1ReadMsg = \<lambda>inp. (Inl NilMessage, inp), v1ReadMsgInto = \<lambda>_ inp. (Inl NilMessage, inp)\<rparr>"

lemma unat_Default: "unat DefaultMaxFramePayloadSize = 65536"
  by (simp add: DefaultMaxFramePayloadSize_def)

lemmas exMsg_simps = EncodeV2MessageFrame_def v2MsgTypeIDMap_def v2MsgTypeMap_def exHandshakeJson_def exJson_def WriteMsg_def
  WriteFrame_def unat_Default Let_def

theorem handshake_agrees_witness:
  "\<exists>out hp reply sout ctx.
    exchangeLoginSend exHandshakeJson exV1 True True (Some (\<lambda>_. 5)) exBoot [7] = Inr (out, hp) \<and>
    acceptConnection exHandshakeJson exV1 id (Some (\<lambda>_. 6)) (out @ [1]) =
      (Inr \<lparr>isV2 = True, cryptoContext = Some ctx, firstMsg = Msg Login [7]\<rparr>, sout, [1]) \<and>
    exchangeLoginRecv exHandshakeJson exV1 id hp (sout @ reply @ []) = (Inr ([8], Some ctx), []) \<and>
    ctxAlgorithm ctx = hd (PreferredAEADAlgorithms True)"
proof -
  have h: "NewClientHello True (Some (\<lambda>_. 5)) exBoot = Inr exHello"
    by (simp add: NewClientHello_def newCryptoRandom_def exHello_def)
  have j: "json_hello exHandshakeJson exHello (serverHelloFor True (\<lambda>_. 6))"
    by (simp add: json_hello_def exHandshakeJson_def exJson_def unat_Default)
  have m: "json_msg exHandshakeJson t b" for t b by (simp add: json_msg_def exHandshakeJson_def exJson_def)
  obtain out hp where s: "exchangeLoginSend exHandshakeJson exV1 True True (Some (\<lambda>_. 5)) exBoot [7] = Inr (out, hp)"
    by (simp add: exchangeLoginSend_def h exMsg_simps)
  obtain reply where "WriteMsg exHandshakeJson DefaultMaxFramePayloadSize (Msg LoginResp [8]) [] = Inr reply"
    by (simp add: exMsg_simps)
  from handshake_agrees [OF h j s m m this, of id "[1]" "[]"] s show ?thesis by blast
qed

end
