(* ===== verification/Netip.thy ===== *)
theory Netip
  imports Go_Std "HOL-Library.Word"
begin

text \<open>
  IP addresses and prefixes as Go's \<open>net/netip\<close> has them: parsing of IPv4 and IPv6 addresses and of prefixes, the
  unmapping of IPv4 addresses in IPv6 form, and membership in a prefix.
\<close>

unbundle bit_operations_syntax

section \<open>Addresses\<close>

text \<open>The zero \<open>Addr\<close>, an IPv4 address, or an IPv6 address with its zone.\<close>

datatype Addr = NoAddr | V4 "32 word" | V6 "128 word" string

definition IsValid :: "Addr \<Rightarrow> bool" where
  "IsValid a \<longleftrightarrow> a \<noteq> NoAddr"

fun BitLen :: "Addr \<Rightarrow> nat" where
  "BitLen NoAddr = 0" | "BitLen (V4 _) = 32" | "BitLen (V6 _ _) = 128"

fun Is4In6 :: "Addr \<Rightarrow> bool" where
  "Is4In6 (V6 w _) \<longleftrightarrow> drop_bit 32 w = 0xFFFF" | "Is4In6 _ \<longleftrightarrow> False"

fun Unmap :: "Addr \<Rightarrow> Addr" where
  "Unmap (V6 w z) = (if Is4In6 (V6 w z) then V4 (ucast w) else V6 w z)" | "Unmap a = a"

fun withoutZone :: "Addr \<Rightarrow> Addr" where
  "withoutZone (V6 w _) = V6 w []" | "withoutZone a = a"

fun hasZone :: "Addr \<Rightarrow> bool" where
  "hasZone (V6 _ z) \<longleftrightarrow> z \<noteq> []" | "hasZone _ \<longleftrightarrow> False"

section \<open>Parsing\<close>

definition octet :: "string \<Rightarrow> nat option" where
  "octet s = (if s = [] \<or> length s > 1 \<and> hd s = CHR ''0'' then None
     else Option.bind (decDigits 0 s) (\<lambda>n. if n \<le> 255 then Some n else None))"

definition fromBytes :: "nat list \<Rightarrow> nat" where
  "fromBytes bs = foldl (\<lambda>n b. 256 * n + b) 0 bs"

definition parseIPv4Fields :: "string \<Rightarrow> nat list option" where
  "parseIPv4Fields s = (let parts = Split (CHR ''.'') s in
     if length parts \<noteq> 4 \<or> (\<exists>p \<in> set parts. octet p = None) then None else Some (map (the \<circ> octet) parts))"

definition hexVal :: "char \<Rightarrow> nat option" where
  "hexVal c = (let n = of_char c :: nat in
     if 48 \<le> n \<and> n \<le> 57 then Some (n - 48) else if 97 \<le> n \<and> n \<le> 102 then Some (n - 87)
     else if 65 \<le> n \<and> n \<le> 70 then Some (n - 55) else None)"

definition isHex :: "char \<Rightarrow> bool" where
  "isHex c \<longleftrightarrow> hexVal c \<noteq> None"

definition hexNum :: "string \<Rightarrow> nat" where
  "hexNum s = foldl (\<lambda>n c. 16 * n + the (hexVal c)) 0 s"

text \<open>The loop over the colon-separated fields, with the number of fields that still fit: the unread rest, the bytes
  read and where the ellipsis stood.\<close>

fun ipv6Loop :: "nat \<Rightarrow> string \<Rightarrow> nat list \<Rightarrow> nat option \<Rightarrow> (string \<times> nat list \<times> nat option) option" where
  "ipv6Loop 0 s ip ellipsis = Some (s, ip, ellipsis)"
| "ipv6Loop (Suc n) s ip ellipsis =
     (let hs = takeWhile isHex s; rest = dropWhile isHex s in
      if length hs > 4 \<or> hs = [] then None
      else if rest \<noteq> [] \<and> hd rest = CHR ''.'' then
        if ellipsis = None \<and> length ip \<noteq> 12 \<or> length ip + 4 > 16 then None
        else map_option (\<lambda>bs. ([], ip @ bs, ellipsis)) (parseIPv4Fields s)
      else
        let ip' = ip @ [hexNum hs div 256, hexNum hs mod 256] in
        case rest of [] \<Rightarrow> Some ([], ip', ellipsis)
        | c # r \<Rightarrow>
            if c \<noteq> CHR '':'' \<or> r = [] then None
            else if hd r = CHR '':'' then
              if ellipsis \<noteq> None then None
              else if tl r = [] then Some ([], ip', Some (length ip'))
              else ipv6Loop n (tl r) ip' (Some (length ip'))
            else ipv6Loop n r ip' ellipsis)"

definition ipv6Bytes :: "string \<Rightarrow> nat list option" where
  "ipv6Bytes s =
     (let start = (if take 2 s = ''::'' then (drop 2 s, Some 0) else (s, None)) in
      if start = ([], Some 0) then Some (replicate 16 0)
      else case ipv6Loop 8 (fst start) [] (snd start) of None \<Rightarrow> None
      | Some (rest, ip, ellipsis) \<Rightarrow>
          if rest \<noteq> [] then None
          else if length ip < 16 then
            map_option (\<lambda>e. take e ip @ replicate (16 - length ip) 0 @ drop e ip) ellipsis
          else if ellipsis \<noteq> None then None else Some ip)"

definition parseIPv6 :: "string \<Rightarrow> Addr option" where
  "parseIPv6 s =
     (let addr = takeWhile (\<lambda>c. c \<noteq> CHR ''%'') s; zone = tl (dropWhile (\<lambda>c. c \<noteq> CHR ''%'') s) in
      if CHR ''%'' \<in> set s \<and> zone = [] then None
      else map_option (\<lambda>bs. V6 (of_nat (fromBytes bs)) zone) (ipv6Bytes addr))"

definition ParseAddr :: "string \<Rightarrow> Addr option" where
  "ParseAddr s =
     (case find (\<lambda>c. c = CHR ''.'' \<or> c = CHR '':'' \<or> c = CHR ''%'') s of None \<Rightarrow> None
      | Some c \<Rightarrow>
          if c = CHR ''.'' then map_option (\<lambda>bs. V4 (of_nat (fromBytes bs))) (parseIPv4Fields s)
          else if c = CHR '':'' then parseIPv6 s
          else None)"

section \<open>Prefixes\<close>

text \<open>An address without zone and the number of leading bits that count, at most as many as the address has.\<close>

datatype Prefix = NoPrefix | Prefix Addr nat

definition PrefixFrom :: "Addr \<Rightarrow> nat \<Rightarrow> Prefix" where
  "PrefixFrom a bits = (if IsValid a \<and> bits \<le> BitLen a then Prefix (withoutZone a) bits else NoPrefix)"

definition ParsePrefix :: "string \<Rightarrow> (Addr \<times> nat) option" where
  "ParsePrefix s =
     (let before = rev (tl (dropWhile (\<lambda>c. c \<noteq> CHR ''/'') (rev s))); bitsStr = rev (takeWhile (\<lambda>c. c \<noteq> CHR ''/'') (rev s)) in
      if CHR ''/'' \<notin> set s then None
      else case ParseAddr before of None \<Rightarrow> None
      | Some ip \<Rightarrow>
          if hasZone ip then None
          else if length bitsStr > 1 \<and> \<not> (CHR ''1'' \<le> hd bitsStr \<and> hd bitsStr \<le> CHR ''9'') then None
          else case Atoi bitsStr of None \<Rightarrow> None
          | Some bits \<Rightarrow> if bits < 0 \<or> bits > int (BitLen ip) then None else Some (ip, nat bits))"

definition clearLow :: "nat \<Rightarrow> 'a::len word \<Rightarrow> 'a word" where
  "clearLow n w = push_bit n (drop_bit n w)"

fun Masked :: "Prefix \<Rightarrow> Prefix" where
  "Masked NoPrefix = NoPrefix"
| "Masked (Prefix (V4 w) b) = Prefix (V4 (clearLow (32 - b) w)) b"
| "Masked (Prefix (V6 w z) b) = Prefix (V6 (clearLow (128 - b) w) z) b"
| "Masked (Prefix NoAddr b) = NoPrefix"

fun Contains :: "Prefix \<Rightarrow> Addr \<Rightarrow> bool" where
  "Contains (Prefix (V4 p) b) (V4 w) \<longleftrightarrow> drop_bit (32 - b) (w XOR p) = 0"
| "Contains (Prefix (V6 p _) b) (V6 w z) \<longleftrightarrow> z = [] \<and> drop_bit (128 - b) (w XOR p) = 0"
| "Contains _ _ \<longleftrightarrow> False"

section \<open>Membership by bits\<close>

text \<open>The addresses agree in the leading \<open>b\<close> bits.\<close>

definition sameLead :: "nat \<Rightarrow> 'a::len word \<Rightarrow> 'a word \<Rightarrow> bool" where
  "sameLead b v w \<longleftrightarrow> (\<forall>n. LENGTH('a) - b \<le> n \<and> n < LENGTH('a) \<longrightarrow> bit v n = bit w n)"

lemma drop_bit_xor_eq_0: "drop_bit k (v XOR w :: 'a::len word) = 0 \<longleftrightarrow> (\<forall>n. k \<le> n \<and> n < LENGTH('a) \<longrightarrow> bit v n = bit w n)"
  (is "?l = ?r")
proof
  assume l: ?l
  show ?r
  proof (intro allI impI)
    fix n assume n: "k \<le> n \<and> n < LENGTH('a)"
    have "\<not> bit (drop_bit k (v XOR w)) (n - k)" unfolding l by simp
    then show "bit v n = bit w n" using n by (simp add: bit_simps)
  qed
next
  assume r: ?r
  show ?l
  proof (rule bit_word_eqI)
    fix n assume "n < LENGTH('a)"
    show "bit (drop_bit k (v XOR w)) n = bit (0 :: 'a word) n"
      using r [rule_format, of "k + n"] bit_imp_le_length [of v "k + n"] bit_imp_le_length [of w "k + n"]
      by (auto simp: bit_simps)
  qed
qed

lemma drop_bit_xor_sameLead: "drop_bit (LENGTH('a) - b) (v XOR w :: 'a::len word) = 0 \<longleftrightarrow> sameLead b v w"
  unfolding drop_bit_xor_eq_0 sameLead_def ..

lemma sameLead_clearLow: "sameLead b v (clearLow (LENGTH('a) - b) w) \<longleftrightarrow> sameLead b v (w :: 'a::len word)"
  by (auto simp: sameLead_def clearLow_def bit_simps)

lemma Contains_Masked: "Contains (Masked p) a = Contains p a"
proof (cases p)
  case (Prefix q b)
  then show ?thesis
    using drop_bit_xor_sameLead [where 'a = 32, of b] sameLead_clearLow [where 'a = 32, of b]
      drop_bit_xor_sameLead [where 'a = 128, of b] sameLead_clearLow [where 'a = 128, of b]
    by (cases q; cases a) simp_all
qed simp

text \<open>Reading membership off an address and a number of bits.\<close>

fun inNet :: "Addr \<Rightarrow> nat \<Rightarrow> Addr \<Rightarrow> bool" where
  "inNet (V4 p) b (V4 w) \<longleftrightarrow> sameLead b w p"
| "inNet (V6 p _) b (V6 w z) \<longleftrightarrow> z = [] \<and> sameLead b w p"
| "inNet _ _ _ \<longleftrightarrow> False"

lemma Contains_PrefixFrom: "b \<le> BitLen p \<Longrightarrow> Contains (PrefixFrom p b) a \<longleftrightarrow> inNet p b a"
  using drop_bit_xor_sameLead [where 'a = 32, of b] drop_bit_xor_sameLead [where 'a = 128, of b]
  by (cases p; cases a) (simp_all add: PrefixFrom_def IsValid_def)

lemma inNet_full: "inNet (V4 p) 32 a \<longleftrightarrow> a = V4 p" "inNet (V6 q z) 128 a \<longleftrightarrow> a = V6 q []"
  by (cases a; auto simp: sameLead_def intro: bit_word_eqI)+

lemma Unmap_idem [simp]: "Unmap (Unmap a) = Unmap a"
  by (cases a) auto

lemma BitLen_Unmap: "Is4In6 a \<Longrightarrow> BitLen (Unmap a) = 32"
  by (cases a) auto

lemma IsValid_Unmap [simp]: "IsValid (Unmap a) = IsValid a"
  by (cases a) (auto simp: IsValid_def)

end
