(* ===== verification/Firewall.thy ===== *)
theory Firewall
  imports Complex_Main Netip
begin

text \<open>
  The access control of the server (\<open>server/firewall/firewall.go\<close>): rules compiled from their text, the
  decision for a connection, the reputation provider with its cache and the collapsing of concurrent lookups, and the
  configuration with its file. The HTTP exchange, DNS and the clock are parameters. Addresses serve as their own
  cache keys, where the code uses their text.
\<close>

section \<open>Rules\<close>

record Rule =
  ID :: string
  Action :: string
  CIDR :: string
  Port :: string
  Note :: string
  ExpiresAt :: int

record portRange =
  lo :: int
  hi :: int

record compiledRule =
  plain :: Rule
  allow :: bool
  anyCIDR :: bool
  prefix :: Prefix
  anyPort :: bool
  ports :: "portRange list"
  reason :: string
  never :: bool

definition EqualFold :: "string \<Rightarrow> string \<Rightarrow> bool" where
  "EqualFold s t \<longleftrightarrow> ToLower s = ToLower t"

definition ruleReason :: "string \<Rightarrow> nat \<Rightarrow> string" where
  "ruleReason ident index = (let ident = TrimSpace ident in
     if ident \<noteq> '''' then ''rule '' @ ident else ''rule #'' @ Itoa (int index + 1))"

definition parsePort :: "string \<Rightarrow> int option" where
  "parsePort s = (case Atoi (TrimSpace s) of None \<Rightarrow> None | Some n \<Rightarrow> if n < 0 \<or> n > 65535 then None else Some n)"

text \<open>\<open>strings.Cut\<close>: around the first separator, and whether there is one.\<close>

definition Cut :: "char \<Rightarrow> string \<Rightarrow> string \<times> string \<times> bool" where
  "Cut c s = (takeWhile (\<lambda>x. x \<noteq> c) s, tl (dropWhile (\<lambda>x. x \<noteq> c) s), c \<in> set s)"

definition parsePortRange :: "string \<Rightarrow> portRange option" where
  "parsePortRange part =
     (let part = TrimSpace part in
      if part = '''' then None
      else let (before, after, isRange) = Cut (CHR ''-'') part in
        case parsePort before of None \<Rightarrow> None
        | Some l \<Rightarrow>
            if \<not> isRange then Some \<lparr>lo = l, hi = l\<rparr>
            else case parsePort after of None \<Rightarrow> None
            | Some h \<Rightarrow> if h < l then None else Some \<lparr>lo = l, hi = h\<rparr>)"

definition anySpec :: "string \<Rightarrow> bool" where
  "anySpec spec \<longleftrightarrow> spec = '''' \<or> spec = ''*'' \<or> EqualFold spec ''all''"

definition compilePorts :: "string \<Rightarrow> portRange list \<times> bool" where
  "compilePorts spec = (let spec = TrimSpace spec in
     if anySpec spec then ([], True) else (List.map_filter parsePortRange (Split (CHR '','') spec), False))"

definition ParsePortSpec :: "string \<Rightarrow> bool" where
  "ParsePortSpec spec = (let spec = TrimSpace spec in
     anySpec spec \<or> (\<forall>part \<in> set (Split (CHR '','') spec). parsePortRange part \<noteq> None))"

text \<open>The part of \<open>compileRule\<close> that reads the CIDR: any address, a prefix, or nothing at all.\<close>

definition compileCIDR :: "string \<Rightarrow> bool \<times> Prefix \<times> bool" where
  "compileCIDR text =
     (let cidr = TrimSpace text in
      if cidr = '''' \<or> cidr = ''*'' then (True, NoPrefix, False)
      else if CHR ''/'' \<in> set cidr then
        (case ParsePrefix cidr of None \<Rightarrow> (False, NoPrefix, True)
         | Some (a, bits) \<Rightarrow>
             let p = (if Is4In6 a \<and> bits \<ge> 96 then PrefixFrom (Unmap a) (bits - 96) else PrefixFrom a bits)
             in (False, Masked p, False))
      else (case ParseAddr cidr of None \<Rightarrow> (False, NoPrefix, True)
         | Some a \<Rightarrow> (False, PrefixFrom (Unmap a) (BitLen (Unmap a)), False)))"

definition compileRule :: "Rule \<Rightarrow> nat \<Rightarrow> compiledRule" where
  "compileRule r index =
     (let (ac, p, nv) = compileCIDR (CIDR r); (rs, ap) = compilePorts (Port r) in
      \<lparr>plain = r, allow = EqualFold (TrimSpace (Action r)) ''allow'', anyCIDR = ac, prefix = p, anyPort = ap, ports = rs,
       reason = ruleReason (ID r) index, never = nv\<rparr>)"

definition compileRules :: "Rule list \<Rightarrow> compiledRule list" where
  "compileRules rs = map (\<lambda>(i, r). compileRule r i) (enumerate 0 rs)"

fun matchRanges :: "portRange list \<Rightarrow> int \<Rightarrow> bool" where
  "matchRanges [] port = False"
| "matchRanges (r # rs) port = (if port \<ge> lo r \<and> port \<le> hi r then True else matchRanges rs port)"

definition match :: "compiledRule \<Rightarrow> Addr \<Rightarrow> int \<Rightarrow> bool" where
  "match c ip port =
     (if never c then False
      else if \<not> anyCIDR c \<and> (\<not> IsValid ip \<or> \<not> Contains (prefix c) ip) then False
      else anyPort c \<or> matchRanges (ports c) port)"

definition plainRules :: "compiledRule list \<Rightarrow> Rule list" where
  "plainRules cs = map plain cs"

section \<open>What a rule means\<close>

text \<open>The reading of a rule's text without compiling it: the networks and ports its text names.\<close>

definition cidrCovers :: "string \<Rightarrow> Addr \<Rightarrow> bool" where
  "cidrCovers text ip =
     (let cidr = TrimSpace text in
      if cidr = '''' \<or> cidr = ''*'' then True
      else if CHR ''/'' \<in> set cidr then
        (case ParsePrefix cidr of None \<Rightarrow> False
         | Some (a, bits) \<Rightarrow> if Is4In6 a \<and> bits \<ge> 96 then inNet (Unmap a) (bits - 96) ip else inNet a bits ip)
      else (case ParseAddr cidr of None \<Rightarrow> False | Some a \<Rightarrow> withoutZone (Unmap a) = ip))"

definition portCovers :: "string \<Rightarrow> int \<Rightarrow> bool" where
  "portCovers text port = (let spec = TrimSpace text in
     anySpec spec \<or> (\<exists>part \<in> set (Split (CHR '','') spec). \<exists>r. parsePortRange part = Some r \<and> port \<in> {lo r..hi r}))"

lemma matchRanges_iff: "matchRanges rs port \<longleftrightarrow> (\<exists>r \<in> set rs. port \<in> {lo r..hi r})"
  by (induction rs) auto

lemma compilePorts_covers: "snd (compilePorts spec) \<or> matchRanges (fst (compilePorts spec)) port \<longleftrightarrow> portCovers spec port"
  by (auto simp: compilePorts_def portCovers_def matchRanges_iff Let_def map_filter_def) blast

lemma ParsePrefix_bits: "ParsePrefix s = Some (a, b) \<Longrightarrow> b \<le> BitLen a \<and> IsValid a"
  by (auto simp: ParsePrefix_def ParseAddr_def parseIPv6_def IsValid_def Let_def split: option.splits if_splits)

lemma ParseAddr_valid: "ParseAddr s = Some a \<Longrightarrow> IsValid a"
  by (auto simp: ParseAddr_def parseIPv6_def IsValid_def Let_def split: option.splits if_splits)

lemma inNet_valid: "inNet p b a \<Longrightarrow> IsValid a"
  by (cases a; cases p) (auto simp: IsValid_def)

lemma Contains_full: "IsValid a \<Longrightarrow> Contains (PrefixFrom a (BitLen a)) ip \<longleftrightarrow> withoutZone a = ip"
  by (cases a) (auto simp: Contains_PrefixFrom inNet_full IsValid_def)

lemma compileCIDR_covers:
  assumes "compileCIDR text = (ac, p, nv)"
  shows "\<not> nv \<and> (ac \<or> IsValid ip \<and> Contains p ip) \<longleftrightarrow> cidrCovers text ip"
proof (cases "TrimSpace text = '''' \<or> TrimSpace text = ''*''")
  case True
  then show ?thesis using assms by (auto simp: compileCIDR_def cidrCovers_def)
next
  case any: False
  show ?thesis
  proof (cases "CHR ''/'' \<in> set (TrimSpace text)")
    case True
    show ?thesis
    proof (cases "ParsePrefix (TrimSpace text)")
      case None
      then show ?thesis using assms any True by (auto simp: compileCIDR_def cidrCovers_def Let_def)
    next
      case (Some ab)
      obtain a b where ab: "ab = (a, b)" by (cases ab)
      note v = ParsePrefix_bits [OF Some [unfolded ab]]
      have *: "IsValid ip \<and> Contains (Masked (PrefixFrom q k)) ip \<longleftrightarrow> inNet q k ip" if "k \<le> BitLen q" for q k
        using Contains_PrefixFrom [OF that, of ip] inNet_valid by (auto simp: Contains_Masked)
      show ?thesis
      proof (cases "Is4In6 a \<and> b \<ge> 96")
        case m: True
        then have "b - 96 \<le> BitLen (Unmap a)" using v by (cases a) auto
        from * [OF this] show ?thesis using assms any True Some ab m by (auto simp: compileCIDR_def cidrCovers_def Let_def)
      next
        case m: False
        from * [of b a] v show ?thesis using assms any True Some ab m by (auto simp: compileCIDR_def cidrCovers_def Let_def)
      qed
    qed
  next
    case False
    show ?thesis
    proof (cases "ParseAddr (TrimSpace text)")
      case None
      then show ?thesis using assms any False by (auto simp: compileCIDR_def cidrCovers_def Let_def)
    next
      case (Some a)
      have v: "IsValid (Unmap a)" using ParseAddr_valid [OF Some] by simp
      have "withoutZone (Unmap a) = ip \<Longrightarrow> IsValid ip" using v by (cases "Unmap a") (auto simp: IsValid_def)
      then show ?thesis
        using assms any False Some Contains_full [OF v, of ip] by (auto simp: compileCIDR_def cidrCovers_def Let_def)
    qed
  qed
qed

text \<open>C32: Compiled rules mean what their text says. Matching a compiled rule on the hot path is the same as reading the
  rule's text for each connection: the source address is one of the named network, compared bit by bit over the prefix
  length and with IPv4-mapped networks read as IPv4, and the port lies in one of the well-formed ranges of the port
  specification. A rule whose network does not parse matches nothing.\<close>

theorem compiled_rule_equiv:
  "match (compileRule r i) ip port \<longleftrightarrow> cidrCovers (CIDR r) ip \<and> portCovers (Port r) port"
proof -
  obtain ac p nv where c: "compileCIDR (CIDR r) = (ac, p, nv)" by (metis surj_pair)
  obtain rs ap where q: "compilePorts (Port r) = (rs, ap)" by (metis surj_pair)
  show ?thesis
    using compileCIDR_covers [OF c, of ip] compilePorts_covers [of "Port r" port]
    by (auto simp: match_def compileRule_def c q)
qed

section \<open>Provider\<close>

record ProviderConfig =
  pMode :: string
  FRPControlURL :: string
  FRPControlAPIKey :: string
  URL :: string
  Method :: string
  Body :: string
  Headers :: "(string \<times> string) list"
  BlockedPath :: string
  ReasonPath :: string
  CacheTTLSec :: int
  TimeoutMs :: int
  FailOpen :: bool
  InsecureTLS :: bool

definition effective :: "ProviderConfig \<Rightarrow> ProviderConfig" where
  "effective p =
     (if pMode p \<noteq> ''frpcontrol'' then p
      else \<lparr>pMode = ''custom'', FRPControlURL = '''', FRPControlAPIKey = '''',
            URL = rev (dropWhile (\<lambda>c. c = CHR ''/'') (rev (FRPControlURL p))) @ ''/api/fw/check'',
            Method = ''POST'', Body = CHR ''{'' # CHR 0x22 # ''ips'' @ [CHR 0x22] @ '':['' @ [CHR 0x22] @ ''{ip}'' @ [CHR 0x22] @ '']}'',
            Headers = [(''X-API-Key'', FRPControlAPIKey p)],
            BlockedPath = ''results.0.blacklisted'', ReasonPath = ''results.0.reason'',
            CacheTTLSec = CacheTTLSec p, TimeoutMs = TimeoutMs p, FailOpen = FailOpen p, InsecureTLS = InsecureTLS p\<rparr>)"

text \<open>\<open>strings.ReplaceAll\<close> for a pattern that is not empty.\<close>

function ReplaceAll :: "string \<Rightarrow> string \<Rightarrow> string \<Rightarrow> string" where
  "ReplaceAll old new [] = []"
| "ReplaceAll old new (c # cs) =
     (if old \<noteq> [] \<and> take (length old) (c # cs) = old then new @ ReplaceAll old new (drop (length old) (c # cs))
      else c # ReplaceAll old new cs)"
  by pat_completeness auto
termination by (relation "measure (\<lambda>(old, new, s). length s)") (auto simp: neq_Nil_conv)

text \<open>A decoded JSON value.\<close>

datatype json_value =
    JNull | JBool bool | JNum rat | JString string | JList "json_value list" | JObject "(string \<times> json_value) list"

definition stepPath :: "string \<Rightarrow> json_value \<Rightarrow> json_value option" where
  "stepPath seg data =
     (case data of
        JObject kvs \<Rightarrow> Some (case map_of kvs seg of Some v \<Rightarrow> v | None \<Rightarrow> JNull)
      | JList vs \<Rightarrow>
          (case Atoi seg of None \<Rightarrow> None
           | Some idx \<Rightarrow> if idx < 0 \<or> idx \<ge> int (length vs) then None else Some (vs ! nat idx))
      | _ \<Rightarrow> None)"

fun walkPath :: "string \<Rightarrow> string list \<Rightarrow> json_value \<Rightarrow> json_value" where
  "walkPath ip [] data = data"
| "walkPath ip (seg # segs) data =
     (if seg = '''' then walkPath ip segs data
      else case stepPath (ReplaceAll ''{ip}'' ip seg) data of None \<Rightarrow> JNull | Some v \<Rightarrow> walkPath ip segs v)"

definition extractPath :: "json_value \<Rightarrow> string \<Rightarrow> string \<Rightarrow> json_value" where
  "extractPath data path ip = walkPath ip (Split (CHR ''.'') path) data"

fun truthy :: "json_value \<Rightarrow> bool" where
  "truthy (JBool b) = b"
| "truthy (JNum x) = (x \<noteq> 0)"
| "truthy (JString s) = (ToLower s \<in> {''true'', ''1'', ''yes''})"
| "truthy _ = False"

definition isControl :: "char \<Rightarrow> bool" where
  "isControl c \<longleftrightarrow> (of_char c :: nat) < 32 \<or> (of_char c :: nat) = 127"

text \<open>Strings are sequences of bytes, and a loop over one goes by runes. \<open>runeLen\<close> is the length of the UTF-8 sequence at the
  start of a string, 0 if there is no valid one; then the loop advances by one byte and sees the replacement character.\<close>

definition byteIn :: "nat \<Rightarrow> nat \<Rightarrow> char \<Rightarrow> bool" where
  "byteIn a b c \<longleftrightarrow> a \<le> of_char c \<and> of_char c \<le> b"

fun bytesIn :: "(nat \<times> nat) list \<Rightarrow> string \<Rightarrow> bool" where
  "bytesIn [] s = True"
| "bytesIn ((a, b) # rs) (c # s) = (byteIn a b c \<and> bytesIn rs s)"
| "bytesIn _ [] = False"

definition runeLen :: "string \<Rightarrow> nat" where
  "runeLen s =
     (if bytesIn [(0, 127)] s then 1
      else if bytesIn [(194, 223), (128, 191)] s then 2
      else if bytesIn [(224, 224), (160, 191), (128, 191)] s \<or> bytesIn [(225, 236), (128, 191), (128, 191)] s \<or>
              bytesIn [(237, 237), (128, 159), (128, 191)] s \<or> bytesIn [(238, 239), (128, 191), (128, 191)] s then 3
      else if bytesIn [(240, 240), (144, 191), (128, 191), (128, 191)] s \<or> bytesIn [(241, 243), (128, 191), (128, 191), (128, 191)] s \<or>
              bytesIn [(244, 244), (128, 143), (128, 191), (128, 191)] s then 4
      else 0)"

definition runeError :: string where
  "runeError = [CHR 0xEF, CHR 0xBF, CHR 0xBD]"

text \<open>The loop of \<open>cleanReason\<close>; \<open>n\<close> is \<open>b.Len()\<close>.\<close>

definition writtenRune :: "string \<Rightarrow> string" where
  "writtenRune s = (if runeLen s = 0 then runeError else if isControl (hd s) then '' '' else take (runeLen s) s)"

function (sequential) cleanRunes :: "nat \<Rightarrow> string \<Rightarrow> string" where
  "cleanRunes n [] = []"
| "cleanRunes n (c # s) =
     (if n \<ge> 64 then []
      else writtenRune (c # s) @ cleanRunes (n + length (writtenRune (c # s))) (drop (runeLen (c # s) - 1) s))"
  by pat_completeness auto
termination by (relation "measure (\<lambda>(n, s). length s)") auto

definition cleanReason :: "string \<Rightarrow> string" where
  "cleanReason s = TrimSpace (cleanRunes 0 (TrimSpace s))"

record http_request =
  rqMethod :: string
  rqURL :: string
  rqBody :: "string option"
  rqHeaders :: "(string \<times> string) list"
  rqTimeoutMs :: int

text \<open>The answer of the HTTP exchange: no answer, or a status and the body if it is JSON.\<close>

datatype http_answer = NoAnswer | Answer nat "json_value option"

datatype provider_error = ProviderNotSet | RequestFailed | BadStatus nat | BadBody

definition providerRequest :: "string \<Rightarrow> ProviderConfig \<Rightarrow> http_request" where
  "providerRequest ipStr p =
     (let method = (let m = ToUpper (TrimSpace (Method p)) in if m = '''' then ''GET'' else m);
          post = method = ''POST''
      in \<lparr>rqMethod = method, rqURL = ReplaceAll ''{ip}'' ipStr (URL p),
          rqBody = (if post then Some (ReplaceAll ''{ip}'' ipStr (Body p)) else None),
          rqHeaders = (if post then [(''Content-Type'', ''application/json'')] else []) @ Headers p,
          rqTimeoutMs = (if TimeoutMs p \<le> 0 then 800 else TimeoutMs p)\<rparr>)"

definition queryProvider :: "(http_request \<Rightarrow> http_answer) \<Rightarrow> string \<Rightarrow> ProviderConfig \<Rightarrow> (provider_error, bool \<times> string) result" where
  "queryProvider http ipStr p =
     (if URL p = '''' \<or> BlockedPath p = '''' then Inl ProviderNotSet
      else case http (providerRequest ipStr p) of NoAnswer \<Rightarrow> Inl RequestFailed
      | Answer status body \<Rightarrow>
          if status \<noteq> 200 then Inl (BadStatus status)
          else case body of None \<Rightarrow> Inl BadBody
          | Some data \<Rightarrow>
              let blocked = truthy (extractPath data (BlockedPath p) ipStr);
                  why = (if blocked \<and> ReasonPath p \<noteq> '''' then
                           (case extractPath data (ReasonPath p) ipStr of JString s \<Rightarrow> cleanReason s | _ \<Rightarrow> '''') else '''')
              in Inr (blocked, why))"

record repEntry =
  blocked :: bool
  why :: string
  expires :: int

text \<open>What \<open>checkExternal\<close> stores for an answer that was asked for at time \<open>now\<close>.\<close>

definition verdict :: "ProviderConfig \<Rightarrow> int \<Rightarrow> (provider_error, bool \<times> string) result \<Rightarrow> repEntry" where
  "verdict p now q =
     (case q of
        Inr (b, w) \<Rightarrow> \<lparr>blocked = b, why = w, expires = now + (if CacheTTLSec p \<le> 0 then 300 else CacheTTLSec p)\<rparr>
      | Inl _ \<Rightarrow> \<lparr>blocked = \<not> FailOpen p, why = ''provider unavailable'', expires = now + 10\<rparr>)"

section \<open>State and decision\<close>

record Firewall =
  enabled :: bool
  controlPort :: bool
  webPort :: bool
  default :: string
  rules :: "compiledRule list"
  provider :: ProviderConfig
  selfProviderPort :: int
  localIPs :: "Addr set"

definition parseAddr :: "string \<Rightarrow> Addr" where
  "parseAddr remoteAddr =
     (let host = (case SplitHostPort remoteAddr of Inr (h, _) \<Rightarrow> h | Inl _ \<Rightarrow> remoteAddr) in
      case ParseAddr (TrimSpace host) of None \<Rightarrow> NoAddr | Some a \<Rightarrow> Unmap a)"

definition expiredRule :: "int \<Rightarrow> Rule \<Rightarrow> bool" where
  "expiredRule now r \<longleftrightarrow> ExpiresAt r \<noteq> 0 \<and> ExpiresAt r \<le> now"

fun firstRule :: "int \<Rightarrow> Addr \<Rightarrow> int \<Rightarrow> compiledRule list \<Rightarrow> compiledRule option" where
  "firstRule now ip port [] = None"
| "firstRule now ip port (r # rs) =
     (if expiredRule now (plain r) then firstRule now ip port rs
      else if match r ip port then Some r else firstRule now ip port rs)"

definition isSelfCall :: "Firewall \<Rightarrow> Addr \<Rightarrow> int \<Rightarrow> bool" where
  "isSelfCall f ip port \<longleftrightarrow> selfProviderPort f \<noteq> 0 \<and> port = selfProviderPort f \<and> ip \<in> localIPs f"

text \<open>\<open>check\<close> is what \<open>checkExternal\<close> returns for the address, should it be asked.\<close>

definition Allow :: "(Addr \<Rightarrow> ProviderConfig \<Rightarrow> bool \<times> string) \<Rightarrow> int \<Rightarrow> string \<Rightarrow> int \<Rightarrow> Firewall \<Rightarrow> bool \<times> string" where
  "Allow check now remoteAddr port f =
     (if \<not> enabled f then (True, ''firewall disabled'')
      else let ip = parseAddr remoteAddr in
        case firstRule now ip port (rules f) of Some r \<Rightarrow> (allow r, reason r)
        | None \<Rightarrow>
            let asks = (pMode (provider f) = ''frpcontrol'' \<or> pMode (provider f) = ''custom'') \<and> IsValid ip \<and>
                       \<not> (IsValid ip \<and> isSelfCall f ip port);
                (b, w) = (if asks then check ip (effective (provider f)) else (False, ''''))
            in if b then (False, if w \<noteq> '''' then ''reputation ('' @ w @ '')'' else ''reputation'')
               else if default f = ''allow'' then (True, ''default allow'') else (False, ''default deny''))"

definition AllowControl :: "(Addr \<Rightarrow> ProviderConfig \<Rightarrow> bool \<times> string) \<Rightarrow> int \<Rightarrow> string \<Rightarrow> int \<Rightarrow> Firewall \<Rightarrow> bool \<times> string" where
  "AllowControl check now remoteAddr port f =
     (if \<not> (enabled f \<and> controlPort f) then (True, ''control port not protected'') else Allow check now remoteAddr port f)"

definition AllowWeb :: "(Addr \<Rightarrow> ProviderConfig \<Rightarrow> bool \<times> string) \<Rightarrow> int \<Rightarrow> string \<Rightarrow> int \<Rightarrow> Firewall \<Rightarrow> bool \<times> string" where
  "AllowWeb check now remoteAddr port f =
     (if \<not> (enabled f \<and> webPort f) then (True, ''web port not protected'') else Allow check now remoteAddr port f)"

section \<open>Configuration\<close>

record Config =
  cEnabled :: bool
  cControlPort :: bool
  cWebPort :: bool
  cDefault :: string
  cRules :: "Rule list"
  cProvider :: ProviderConfig

text \<open>The content of the state file; a missing \<open>enabled\<close> means enabled.\<close>

record state =
  sEnabled :: "bool option"
  sControlPort :: bool
  sWebPort :: bool
  sDefault :: string
  sRules :: "Rule list"
  sProvider :: ProviderConfig

text \<open>This host as \<open>LocalAddrSet\<close> and \<open>PortIfLocal\<close> see it.\<close>

record host =
  localAddrs :: "Addr set"
  portIfLocal :: "string \<Rightarrow> int"

definition resolveSelfProviderLocked :: "host \<Rightarrow> Firewall \<Rightarrow> Firewall" where
  "resolveSelfProviderLocked h f =
     (let p = effective (provider f) in
      f\<lparr>localIPs := localAddrs h,
        selfProviderPort := (if pMode p = ''off'' \<or> URL p = '''' then 0
                             else portIfLocal h (ReplaceAll ''{ip}'' ''0.0.0.0'' (URL p)))\<rparr>)"

definition modeOrOff :: "ProviderConfig \<Rightarrow> ProviderConfig" where
  "modeOrOff p = (if pMode p = '''' then p\<lparr>pMode := ''off''\<rparr> else p)"

definition Snapshot :: "Firewall \<Rightarrow> Config" where
  "Snapshot f = \<lparr>cEnabled = enabled f, cControlPort = controlPort f, cWebPort = webPort f, cDefault = default f,
     cRules = plainRules (rules f), cProvider = provider f\<rparr>"

definition SetConfig :: "host \<Rightarrow> Config \<Rightarrow> Firewall \<Rightarrow> Firewall" where
  "SetConfig h c f =
     (let def = ToLower (cDefault c); def = (if def \<noteq> ''allow'' \<and> def \<noteq> ''deny'' then ''allow'' else def) in
      resolveSelfProviderLocked h
        (f\<lparr>enabled := cEnabled c, controlPort := cControlPort c, webPort := cWebPort c, default := def,
           rules := compileRules (cRules c), provider := modeOrOff (cProvider c)\<rparr>))"

definition pruneLocked :: "int \<Rightarrow> Firewall \<Rightarrow> Firewall" where
  "pruneLocked now f = f\<lparr>rules := filter (\<lambda>r. \<not> expiredRule now (plain r)) (rules f)\<rparr>"

definition saveLocked :: "Firewall \<Rightarrow> state" where
  "saveLocked f = \<lparr>sEnabled = Some (enabled f), sControlPort = controlPort f, sWebPort = webPort f, sDefault = default f,
     sRules = plainRules (rules f), sProvider = provider f\<rparr>"

datatype state_file = Missing | Unreadable | Content string

definition emptyProvider :: ProviderConfig where
  "emptyProvider = \<lparr>pMode = '''', FRPControlURL = '''', FRPControlAPIKey = '''', URL = '''', Method = '''', Body = '''', Headers = [],
     BlockedPath = '''', ReasonPath = '''', CacheTTLSec = 0, TimeoutMs = 0, FailOpen = False, InsecureTLS = False\<rparr>"

definition orDefault :: "string \<Rightarrow> string \<Rightarrow> string" where
  "orDefault s def = (if s = '''' then def else s)"

definition NewFirewall :: "(string \<Rightarrow> state option) \<Rightarrow> host \<Rightarrow> int \<Rightarrow> state_file \<Rightarrow> Firewall option" where
  "NewFirewall unmarshal h now file =
     (let f0 = \<lparr>enabled = True, controlPort = False, webPort = False, default = ''allow'', rules = [],
                provider = emptyProvider, selfProviderPort = 0, localIPs = {}\<rparr>;
          f1 = (case file of
                  Missing \<Rightarrow> Some f0
                | Unreadable \<Rightarrow> None
                | Content b \<Rightarrow>
                    (case unmarshal b of None \<Rightarrow> None
                     | Some s \<Rightarrow> Some (f0\<lparr>enabled := (sEnabled s = None \<or> sEnabled s = Some True), controlPort := sControlPort s,
                         webPort := sWebPort s, default := orDefault (ToLower (sDefault s)) ''allow'',
                         rules := compileRules (sRules s), provider := sProvider s\<rparr>)))
      in map_option (\<lambda>f. resolveSelfProviderLocked h (pruneLocked now (f\<lparr>provider := modeOrOff (provider f)\<rparr>))) f1)"

section \<open>The decision\<close>

definition ruleApplies :: "int \<Rightarrow> Addr \<Rightarrow> int \<Rightarrow> Rule \<Rightarrow> bool" where
  "ruleApplies now ip port r \<longleftrightarrow> \<not> expiredRule now r \<and> cidrCovers (CIDR r) ip \<and> portCovers (Port r) port"

lemma plain_compileRule [simp]: "plain (compileRule r i) = r"
  by (simp add: compileRule_def split: prod.splits)

lemma allow_compileRule: "allow (compileRule r i) = EqualFold (TrimSpace (Action r)) ''allow''"
  by (simp add: compileRule_def split: prod.splits)

lemma reason_compileRule: "reason (compileRule r i) \<noteq> ''''"
  by (simp add: compileRule_def ruleReason_def Let_def split: prod.splits)

lemma firstRule_find:
  "map_option plain (firstRule now ip port (map (\<lambda>(i, r). compileRule r i) (enumerate n rs))) = find (ruleApplies now ip port) rs"
  by (induction rs arbitrary: n) (auto simp: ruleApplies_def compiled_rule_equiv)

lemma firstRule_compiled:
  assumes "firstRule now ip port (compileRules rs) = Some c"
  shows "\<exists>r i. c = compileRule r i"
proof -
  have "firstRule now ip port cs = Some c \<Longrightarrow> c \<in> set cs" for cs by (induction cs) (auto split: if_splits)
  then show ?thesis using assms by (fastforce simp: compileRules_def)
qed

text \<open>Whether the provider is asked about a connection.\<close>

definition providerAsked :: "Firewall \<Rightarrow> Addr \<Rightarrow> int \<Rightarrow> bool" where
  "providerAsked f ip port \<longleftrightarrow> pMode (provider f) \<in> {''frpcontrol'', ''custom''} \<and> IsValid ip \<and> \<not> isSelfCall f ip port"

text \<open>C31: The decision for a connection. With the firewall on, the first rule that has not expired and whose text covers
  source and port decides by its action; without such a rule the connection is let in exactly if the provider, where it is
  to be asked, does not block the address and the default is to allow. The reason is never empty.\<close>

theorem firewall_decision:
  assumes "enabled f" "rules f = compileRules rs"
  shows "(case find (ruleApplies now (parseAddr remote) port) rs of
      Some r \<Rightarrow> fst (Allow check now remote port f) = EqualFold (TrimSpace (Action r)) ''allow''
    | None \<Rightarrow> fst (Allow check now remote port f) =
        (\<not> (providerAsked f (parseAddr remote) port \<and> fst (check (parseAddr remote) (effective (provider f)))) \<and> default f = ''allow'')) \<and>
    snd (Allow check now remote port f) \<noteq> ''''"
proof (cases "firstRule now (parseAddr remote) port (rules f)")
  case None
  then have "find (ruleApplies now (parseAddr remote) port) rs = None"
    using firstRule_find [of now "parseAddr remote" port 0 rs] assms(2) by (simp add: compileRules_def)
  moreover have "(pMode (provider f) = ''frpcontrol'' \<or> pMode (provider f) = ''custom'') \<and> IsValid (parseAddr remote) \<and>
      \<not> (IsValid (parseAddr remote) \<and> isSelfCall f (parseAddr remote) port) \<longleftrightarrow> providerAsked f (parseAddr remote) port"
    by (auto simp: providerAsked_def)
  moreover obtain b w where "check (parseAddr remote) (effective (provider f)) = (b, w)" by (metis surj_pair)
  ultimately show ?thesis
    using None assms(1) by (simp add: Allow_def Let_def)
next
  case (Some c)
  obtain r i where c: "c = compileRule r i" using firstRule_compiled Some assms(2) by metis
  have "find (ruleApplies now (parseAddr remote) port) rs = Some r"
    using firstRule_find [of now "parseAddr remote" port 0 rs] assms(2) Some c by (simp add: compileRules_def)
  then show ?thesis
    using Some assms(1) c by (simp add: Allow_def allow_compileRule reason_compileRule)
qed

definition exRule :: Rule where
  "exRule = \<lparr>ID = ''r1'', Action = ''deny'', CIDR = ''10.0.0.0/8'', Port = ''6000-6010'', Note = '''', ExpiresAt = 0\<rparr>"

definition exFirewall :: Firewall where
  "exFirewall = \<lparr>enabled = True, controlPort = False, webPort = False, default = ''allow'', rules = compileRules [exRule],
     provider = emptyProvider, selfProviderPort = 0, localIPs = {}\<rparr>"

lemma exRule_applies: "ruleApplies 5 (parseAddr ''10.1.2.3:50000'') 6005 exRule"
proof -
  have "SplitHostPort ''10.1.2.3:50000'' = Inr (''10.1.2.3'', ''50000'')" by code_simp
  moreover have "TrimSpace ''10.1.2.3'' = ''10.1.2.3''" by code_simp
  moreover have "parseIPv4Fields ''10.1.2.3'' = Some [10, 1, 2, 3]" by code_simp
  ultimately have a: "parseAddr ''10.1.2.3:50000'' = V4 0x0A010203"
    by (simp add: parseAddr_def ParseAddr_def fromBytes_def)
  have "parseIPv4Fields ''10.0.0.0'' = Some [10, 0, 0, 0]" by code_simp
  then have "ParseAddr ''10.0.0.0'' = Some (V4 0x0A000000)" by (simp add: ParseAddr_def fromBytes_def)
  moreover have "Atoi ''8'' = Some 8" by code_simp
  ultimately have b: "ParsePrefix ''10.0.0.0/8'' = Some (V4 0x0A000000, 8)" by (simp add: ParsePrefix_def)
  have c: "drop_bit (LENGTH(32) - 8) (0x0A010203 XOR 0x0A000000 :: 32 word) = 0" by simp
  have "inNet (V4 0x0A000000) 8 (V4 0x0A010203)" using c unfolding drop_bit_xor_sameLead by simp
  moreover have "TrimSpace ''10.0.0.0/8'' = ''10.0.0.0/8''" by code_simp
  moreover have "portCovers ''6000-6010'' 6005"
  proof -
    have "compilePorts ''6000-6010'' = ([\<lparr>lo = 6000, hi = 6010\<rparr>], False)" by code_simp
    then show ?thesis using compilePorts_covers [of "''6000-6010''" 6005] by simp
  qed
  ultimately show ?thesis
    by (simp add: ruleApplies_def exRule_def expiredRule_def a cidrCovers_def b Let_def)
qed

theorem firewall_decision_witness:
  "fst (Allow (\<lambda>_ _. (False, '''')) 5 ''10.1.2.3:50000'' 6005 exFirewall) = EqualFold (TrimSpace ''deny'') ''allow'' \<and>
   snd (Allow (\<lambda>_ _. (False, '''')) 5 ''10.1.2.3:50000'' 6005 exFirewall) \<noteq> ''''"
  using firewall_decision [where f = exFirewall and rs = "[exRule]" and now = 5 and remote = "''10.1.2.3:50000''" and port = 6005
      and check = "\<lambda>_ _. (False, '''')"] exRule_applies
  by (simp add: exFirewall_def) (simp add: exRule_def)

section \<open>Configuration round trip\<close>

definition normalised :: "Config \<Rightarrow> Config" where
  "normalised c = c\<lparr>cDefault := (if ToLower (cDefault c) = ''deny'' then ''deny'' else ''allow''), cProvider := modeOrOff (cProvider c)\<rparr>"

lemma plainRules_compileRules [simp]: "plainRules (compileRules rs) = rs"
  by (simp add: plainRules_def compileRules_def comp_def case_prod_beta)

lemma plain_prune: "map plain (filter (\<lambda>r. \<not> expiredRule now (plain r)) cs) = filter (\<lambda>r. \<not> expiredRule now r) (map plain cs)"
  by (induction cs) auto

lemma resolve_simps [simp]:
  "enabled (resolveSelfProviderLocked h f) = enabled f" "controlPort (resolveSelfProviderLocked h f) = controlPort f"
  "webPort (resolveSelfProviderLocked h f) = webPort f" "default (resolveSelfProviderLocked h f) = default f"
  "rules (resolveSelfProviderLocked h f) = rules f" "provider (resolveSelfProviderLocked h f) = provider f"
  by (simp_all add: resolveSelfProviderLocked_def Let_def)

lemma modeOrOff_idem [simp]: "modeOrOff (modeOrOff p) = modeOrOff p"
  by (simp add: modeOrOff_def)

text \<open>Configuration round trip. What the dashboard reads back after setting a configuration is that configuration with
  an unknown default read as \<open>allow\<close> and an empty provider mode as \<open>off\<close>; and a server that starts from the file that was
  saved (whose JSON text decodes to what was encoded) reads the same configuration, without the rules that have expired.\<close>

theorem firewall_config_roundtrip:
  assumes "unmarshal (marshal (saveLocked (SetConfig h c f))) = Some (saveLocked (SetConfig h c f))"
  shows "Snapshot (SetConfig h c f) = normalised c \<and>
    map_option Snapshot (NewFirewall unmarshal h' now (Content (marshal (saveLocked (SetConfig h c f))))) =
      Some ((normalised c)\<lparr>cRules := filter (\<lambda>r. \<not> expiredRule now r) (cRules c)\<rparr>)"
proof -
  let ?d = "if ToLower (cDefault c) = ''deny'' then ''deny'' else ''allow''"
  have S: "saveLocked (SetConfig h c f) = \<lparr>sEnabled = Some (cEnabled c), sControlPort = cControlPort c, sWebPort = cWebPort c,
      sDefault = ?d, sRules = cRules c, sProvider = modeOrOff (cProvider c)\<rparr>"
    by (simp add: SetConfig_def saveLocked_def Let_def)
  have d: "ToLower ''deny'' = ''deny''" "ToLower ''allow'' = ''allow''" by (simp_all add: ToLower_def char_lower_def)
  have p: "map plain (compileRules (cRules c)) = cRules c"
    using plainRules_compileRules [of "cRules c"] by (simp add: plainRules_def)
  have "map_option Snapshot (NewFirewall unmarshal h' now (Content (marshal (saveLocked (SetConfig h c f))))) =
      Some \<lparr>cEnabled = cEnabled c, cControlPort = cControlPort c, cWebPort = cWebPort c, cDefault = ?d,
        cRules = filter (\<lambda>r. \<not> expiredRule now r) (cRules c), cProvider = modeOrOff (cProvider c)\<rparr>"
    by (simp add: NewFirewall_def assms Let_def Snapshot_def) (simp add: S pruneLocked_def orDefault_def d plainRules_def plain_prune p)
  moreover have "Snapshot (SetConfig h c f) = normalised c"
    by (simp add: SetConfig_def Snapshot_def normalised_def Let_def)
  moreover have "(normalised c)\<lparr>cRules := rs\<rparr> = \<lparr>cEnabled = cEnabled c, cControlPort = cControlPort c, cWebPort = cWebPort c,
      cDefault = ?d, cRules = rs, cProvider = modeOrOff (cProvider c)\<rparr>" for rs
    by (cases c) (simp add: normalised_def)
  ultimately show ?thesis by (simp only:)
qed

definition exConfig :: Config where
  "exConfig = \<lparr>cEnabled = True, cControlPort = False, cWebPort = False, cDefault = ''Deny'', cRules = [exRule], cProvider = emptyProvider\<rparr>"

theorem firewall_config_roundtrip_witness:
  "Snapshot (SetConfig \<lparr>localAddrs = {}, portIfLocal = \<lambda>_. 0\<rparr> exConfig exFirewall) = normalised exConfig"
  using firewall_config_roundtrip [of "\<lambda>_. Some (saveLocked (SetConfig \<lparr>localAddrs = {}, portIfLocal = \<lambda>_. 0\<rparr> exConfig exFirewall))"
      "\<lambda>_. ''''" "\<lparr>localAddrs = {}, portIfLocal = \<lambda>_. 0\<rparr>" exConfig exFirewall]
  by blast

text \<open>A reason that came from the provider is one short line without control characters.\<close>

lemma bytesIn_high:
  "bytesIn rs s \<Longrightarrow> list_all (\<lambda>r. 128 \<le> fst r) rs \<Longrightarrow> c \<in> set (take (length rs) s) \<Longrightarrow> (of_char c :: nat) \<ge> 128"
  by (induction rs s rule: bytesIn.induct) (auto simp: byteIn_def)

lemma writtenRune_safe: "c \<in> set (writtenRune s) \<Longrightarrow> \<not> isControl c"
proof (cases "runeLen s \<le> 1")
  case True
  then show "c \<in> set (writtenRune s) \<Longrightarrow> \<not> isControl c"
    by (cases s) (auto simp: writtenRune_def runeError_def isControl_def le_Suc_eq split: if_splits)
next
  case False
  have four: "(4::nat) = Suc (Suc (Suc (Suc 0)))" by simp
  from False have "(of_char c :: nat) \<ge> 128" if "c \<in> set (take (runeLen s) s)"
    using that unfolding runeLen_def
    by (auto simp: numeral_2_eq_2 numeral_3_eq_3 four split: if_splits dest!: bytesIn_high [where c = c])
  then show "c \<in> set (writtenRune s) \<Longrightarrow> \<not> isControl c"
    using False by (auto simp: writtenRune_def isControl_def split: if_splits)
qed

lemma writtenRune_length: "length (writtenRune s) \<le> 4"
  by (auto simp: writtenRune_def runeError_def runeLen_def)

lemma cleanRunes_safe: "c \<in> set (cleanRunes n s) \<Longrightarrow> \<not> isControl c"
  by (induction n s rule: cleanRunes.induct) (auto split: if_splits dest: writtenRune_safe)

lemma cleanRunes_length: "n \<le> 67 \<Longrightarrow> n + length (cleanRunes n s) \<le> 67"
proof (induction n s rule: cleanRunes.induct)
  case (2 n c s)
  then show ?case using writtenRune_length [of "c # s"] by (cases "n \<ge> 64") auto
qed simp

lemma cleanReason_safe: "c \<in> set (cleanReason s) \<Longrightarrow> \<not> isControl c" "length (cleanReason s) \<le> 67"
proof -
  show "c \<in> set (cleanReason s) \<Longrightarrow> \<not> isControl c"
    unfolding cleanReason_def using set_TrimSpace cleanRunes_safe by blast
  show "length (cleanReason s) \<le> 67"
    unfolding cleanReason_def using length_TrimSpace cleanRunes_length [of 0] by (metis add_0 le_trans zero_le)
qed

text \<open>A peer with a zone in its address, which is how link-local IPv6 clients arrive, is matched by no rule that names a
  network: a rule that denies the link-local network lets these clients pass to the next rule.\<close>

theorem zoned_address_unmatched:
  assumes "hasZone ip" "TrimSpace (CIDR r) \<notin> {'''', ''*''}"
  shows "\<not> match (compileRule r i) ip port"
proof -
  have "\<not> inNet p b ip" for p b using assms(1) by (cases p; cases ip) auto
  moreover have "withoutZone a \<noteq> ip" for a using assms(1) by (cases a) auto
  ultimately show ?thesis
    using assms(2) by (auto simp: compiled_rule_equiv cidrCovers_def Let_def split: option.splits)
qed

section \<open>Collapsing lookups\<close>

text \<open>
  Concurrent calls of \<open>checkExternal\<close>. A caller is about to look into the cache, waits for the channel another caller
  made, is asking the provider (since when and with which provider), or has its answer. A channel is named by the
  caller that made it.
\<close>

datatype caller =
    Looking Addr ProviderConfig
  | Waiting Addr ProviderConfig nat
  | Querying Addr ProviderConfig int
  | Answered bool string

record Rep =
  repCache :: "Addr \<rightharpoonup> repEntry"
  repInFlight :: "Addr \<rightharpoonup> nat"
  callers :: "nat \<rightharpoonup> caller"

text \<open>The section under the lock at the top of the loop.\<close>

definition repLookup :: "int \<Rightarrow> nat \<Rightarrow> Addr \<Rightarrow> ProviderConfig \<Rightarrow> Rep \<Rightarrow> Rep" where
  "repLookup now i ip p s =
     (case repCache s ip of
        Some e \<Rightarrow>
          if expires e > now then s\<lparr>callers := (callers s)(i \<mapsto> Answered (blocked e) (why e))\<rparr>
          else (case repInFlight s ip of
                  Some ch \<Rightarrow> s\<lparr>callers := (callers s)(i \<mapsto> Waiting ip p ch)\<rparr>
                | None \<Rightarrow> s\<lparr>repInFlight := (repInFlight s)(ip \<mapsto> i), callers := (callers s)(i \<mapsto> Querying ip p now)\<rparr>)
      | None \<Rightarrow>
          (case repInFlight s ip of
             Some ch \<Rightarrow> s\<lparr>callers := (callers s)(i \<mapsto> Waiting ip p ch)\<rparr>
           | None \<Rightarrow> s\<lparr>repInFlight := (repInFlight s)(ip \<mapsto> i), callers := (callers s)(i \<mapsto> Querying ip p now)\<rparr>))"

text \<open>The end of a query: the verdict is stored, the channel closed, and its waiters look again.\<close>

definition wake :: "nat \<Rightarrow> caller \<Rightarrow> caller" where
  "wake ch c = (case c of Waiting ip p ch' \<Rightarrow> if ch' = ch then Looking ip p else c | _ \<Rightarrow> c)"

definition repFinish :: "(provider_error, bool \<times> string) result \<Rightarrow> nat \<Rightarrow> Addr \<Rightarrow> ProviderConfig \<Rightarrow> int \<Rightarrow> Rep \<Rightarrow> Rep" where
  "repFinish answer i ip p asked s =
     (let e = verdict p asked answer in
      s\<lparr>repCache := (repCache s)(ip \<mapsto> e), repInFlight := (repInFlight s)(ip := None),
        callers := (\<lambda>j. map_option (wake i) (callers s j))(i \<mapsto> Answered (blocked e) (why e))\<rparr>)"

text \<open>\<open>SetConfig\<close> empties the cache.\<close>

definition repReset :: "Rep \<Rightarrow> Rep" where
  "repReset s = s\<lparr>repCache := Map.empty\<rparr>"

inductive rep_step :: "Rep \<Rightarrow> Rep \<Rightarrow> bool" where
  call: "callers s i = None \<Longrightarrow> rep_step s (s\<lparr>callers := (callers s)(i \<mapsto> Looking ip p)\<rparr>)"
| look: "callers s i = Some (Looking ip p) \<Longrightarrow> rep_step s (repLookup now i ip p s)"
| finish: "callers s i = Some (Querying ip p asked) \<Longrightarrow> rep_step s (repFinish answer i ip p asked s)"
| reset: "rep_step s (repReset s)"

inductive rep_reach :: "Rep \<Rightarrow> bool" where
  init: "rep_reach \<lparr>repCache = Map.empty, repInFlight = Map.empty, callers = Map.empty\<rparr>"
| step: "rep_reach s \<Longrightarrow> rep_step s s' \<Longrightarrow> rep_reach s'"

definition querying :: "Rep \<Rightarrow> nat \<Rightarrow> Addr \<Rightarrow> bool" where
  "querying s i ip \<longleftrightarrow> (\<exists>p t. callers s i = Some (Querying ip p t))"

definition rep_inv :: "Rep \<Rightarrow> bool" where
  "rep_inv s \<longleftrightarrow> (\<forall>i ip. querying s i ip \<longleftrightarrow> repInFlight s ip = Some i) \<and>
     (\<forall>i ip p ch. callers s i = Some (Waiting ip p ch) \<longrightarrow> querying s ch ip)"

lemma wake_simps [simp]: "wake ch (Looking ip p) = Looking ip p" "wake ch (Querying ip p t) = Querying ip p t"
  "wake ch (Answered b w) = Answered b w" "wake ch (Waiting ip p ch') = (if ch' = ch then Looking ip p else Waiting ip p ch')"
  by (simp_all add: wake_def)

lemma wake_eq [simp]: "wake ch c = Querying ip p t \<longleftrightarrow> c = Querying ip p t"
  "wake ch c = Waiting ip p ch' \<longleftrightarrow> c = Waiting ip p ch' \<and> ch' \<noteq> ch"
  by (cases c; auto)+

lemma rep_invD:
  assumes "rep_inv s"
  shows "querying s i ip \<longleftrightarrow> repInFlight s ip = Some i" "callers s i = Some (Waiting ip p ch) \<Longrightarrow> querying s ch ip"
  using assms unfolding rep_inv_def by blast+

lemma rep_lookup_inv:
  assumes inv: "rep_inv s" and c: "callers s i = Some (Looking ip p)"
  shows "rep_inv (repLookup now i ip p s)"
proof -
  note D = rep_invD [OF inv]
  have nq: "\<not> querying s i ip'" for ip' using c by (simp add: querying_def)
  have fl: "repInFlight s ip' \<noteq> Some i" for ip' using D(1) [of i ip'] nq by simp
  have q: "querying (s\<lparr>callers := (callers s)(i \<mapsto> x)\<rparr>) j ip' \<longleftrightarrow> (if j = i then (\<exists>p t. x = Querying ip' p t) else querying s j ip')" for x j ip'
    by (simp add: querying_def)
  have keep: "rep_inv (s\<lparr>callers := (callers s)(i \<mapsto> x)\<rparr>)"
    if x: "\<And>ip' p t. x \<noteq> Querying ip' p t" and w: "\<And>ip' p ch. x = Waiting ip' p ch \<Longrightarrow> querying s ch ip'" for x
    unfolding rep_inv_def
  proof (intro conjI allI impI)
    show "querying (s\<lparr>callers := (callers s)(i \<mapsto> x)\<rparr>) j ip' \<longleftrightarrow> repInFlight (s\<lparr>callers := (callers s)(i \<mapsto> x)\<rparr>) ip' = Some j" for j ip'
      unfolding q using x D(1) [of j ip'] fl by auto
    show "querying (s\<lparr>callers := (callers s)(i \<mapsto> x)\<rparr>) ch ip'" if "callers (s\<lparr>callers := (callers s)(i \<mapsto> x)\<rparr>) j = Some (Waiting ip' p' ch)"
      for j ip' p' ch
    proof -
      have "querying s ch ip'" using that w [of ip' p' ch] D(2) [of j ip' p' ch] by (simp split: if_splits)
      moreover then have "ch \<noteq> i" using nq by auto
      ultimately show ?thesis unfolding q by simp
    qed
  qed
  let ?n = "s\<lparr>repInFlight := (repInFlight s)(ip \<mapsto> i), callers := (callers s)(i \<mapsto> Querying ip p now)\<rparr>"
  have new: "rep_inv ?n" if none: "repInFlight s ip = None"
  proof -
    have qn: "querying ?n j ip' \<longleftrightarrow> (if j = i then ip' = ip else querying s j ip')" for j ip' by (auto simp: querying_def)
    show ?thesis
      unfolding rep_inv_def
    proof (intro conjI allI impI)
      show "querying ?n j ip' \<longleftrightarrow> repInFlight ?n ip' = Some j" for j ip'
        unfolding qn using D(1) [of j ip'] fl none by auto
      show "querying ?n ch ip'" if "callers ?n j = Some (Waiting ip' p' ch)" for j ip' p' ch
      proof -
        have "querying s ch ip'" using that D(2) [of j ip' p' ch] by (simp split: if_splits)
        moreover then have "ch \<noteq> i" using nq by auto
        ultimately show ?thesis unfolding qn by simp
      qed
    qed
  qed
  have wait: "rep_inv (s\<lparr>callers := (callers s)(i \<mapsto> Waiting ip p ch)\<rparr>)" if "repInFlight s ip = Some ch" for ch
    using that D(1) [of ch ip] by (intro keep) auto
  have "rep_inv (s\<lparr>callers := (callers s)(i \<mapsto> Answered b w)\<rparr>)" for b w by (intro keep) auto
  then show ?thesis using new wait by (simp add: repLookup_def split: option.splits)
qed

lemma rep_finish_inv:
  assumes inv: "rep_inv s" and c: "callers s i = Some (Querying ip p asked)"
  shows "rep_inv (repFinish answer i ip p asked s)" (is "rep_inv ?s")
proof -
  note D = rep_invD [OF inv]
  have qi: "querying s i ip' \<longleftrightarrow> ip' = ip" for ip' using c by (auto simp: querying_def)
  have q: "querying ?s j ip' \<longleftrightarrow> j \<noteq> i \<and> querying s j ip'" for j ip'
    by (auto simp: querying_def repFinish_def Let_def)
  have f: "repInFlight ?s ip' = (if ip' = ip then None else repInFlight s ip')" for ip' by (simp add: repFinish_def Let_def)
  show ?thesis
    unfolding rep_inv_def
  proof (intro conjI allI impI)
    show "querying ?s j ip' \<longleftrightarrow> repInFlight ?s ip' = Some j" for j ip'
      unfolding q f using D(1) [of j ip'] D(1) [of i ip'] qi [of ip'] by auto
    show "querying ?s ch ip'" if "callers ?s j = Some (Waiting ip' p' ch)" for j ip' p' ch
      using that D(2) [of j ip' p' ch] unfolding q by (auto simp: repFinish_def Let_def split: if_splits)
  qed
qed

lemma rep_reach_inv: "rep_reach s \<Longrightarrow> rep_inv s"
proof (induction rule: rep_reach.induct)
  case init
  then show ?case by (simp add: rep_inv_def querying_def)
next
  case (step s s')
  from step.hyps(2) step.IH show ?case
  proof (cases rule: rep_step.cases)
    case (call i ip p)
    have "querying s' j ip' = querying s j ip'" for j ip' using call by (auto simp: querying_def)
    then show ?thesis using step.IH call unfolding rep_inv_def by (auto split: if_splits)
  next
    case (look i ip p now)
    then show ?thesis using rep_lookup_inv step.IH by blast
  next
    case (finish i ip p asked answer)
    then show ?thesis using rep_finish_inv step.IH by blast
  next
    case reset
    then have "querying s' j ip = querying s j ip" for j ip by (simp add: repReset_def querying_def)
    moreover have "repInFlight s' = repInFlight s" "callers s' = callers s" using reset by (simp_all add: repReset_def)
    ultimately show ?thesis using step.IH unfolding rep_inv_def by metis
  qed
qed

text \<open>C33: One query per address. However the callers interleave, and also when the configuration is changed in between, at
  most one of them is asking the provider about an address; a caller that waits does so for a query about its own address
  that is still running, and the end of that query makes it look again. No caller waits for a channel nobody closes.\<close>

theorem single_flight:
  assumes "rep_reach s"
  shows "(querying s i ip \<and> querying s j ip \<longrightarrow> i = j) \<and>
    (callers s k = Some (Waiting ip p ch) \<longrightarrow>
       (\<exists>p' asked. callers s ch = Some (Querying ip p' asked) \<and>
          callers (repFinish answer ch ip p' asked s) k = Some (Looking ip p)))"
proof (intro conjI impI)
  note D = rep_invD [OF rep_reach_inv [OF assms]]
  show "i = j" if "querying s i ip \<and> querying s j ip" using D(1) [of i ip] D(1) [of j ip] that by simp
  assume w: "callers s k = Some (Waiting ip p ch)"
  then obtain p' asked where c: "callers s ch = Some (Querying ip p' asked)" using D(2) [OF w] by (auto simp: querying_def)
  then have "k \<noteq> ch" using w by auto
  then have "callers (repFinish answer ch ip p' asked s) k = Some (Looking ip p)" using w by (simp add: repFinish_def Let_def)
  then show "\<exists>p' asked. callers s ch = Some (Querying ip p' asked) \<and>
      callers (repFinish answer ch ip p' asked s) k = Some (Looking ip p)" using c by blast
qed

definition exRep :: Rep where
  "exRep = repLookup 5 2 (V4 1) emptyProvider (repLookup 5 1 (V4 1) emptyProvider
     \<lparr>repCache = Map.empty, repInFlight = Map.empty, callers = [1 \<mapsto> Looking (V4 1) emptyProvider, 2 \<mapsto> Looking (V4 1) emptyProvider]\<rparr>)"

lemma exRep_callers: "callers exRep = [1 \<mapsto> Querying (V4 1) emptyProvider 5, 2 \<mapsto> Waiting (V4 1) emptyProvider 1]"
  by (simp add: exRep_def repLookup_def)

lemma exRep_reach: "rep_reach exRep"
proof -
  let ?s0 = "\<lparr>repCache = Map.empty, repInFlight = Map.empty, callers = Map.empty\<rparr> :: Rep"
  let ?s1 = "?s0\<lparr>callers := (callers ?s0)(1 \<mapsto> Looking (V4 1) emptyProvider)\<rparr>"
  let ?s2 = "?s1\<lparr>callers := (callers ?s1)(2 \<mapsto> Looking (V4 1) emptyProvider)\<rparr>"
  have 1: "rep_reach ?s1" by (rule rep_reach.step [OF rep_reach.init rep_step.call]) simp
  have 2: "rep_reach ?s2" by (rule rep_reach.step [OF 1 rep_step.call]) simp
  have 3: "rep_reach (repLookup 5 1 (V4 1) emptyProvider ?s2)" by (rule rep_reach.step [OF 2 rep_step.look]) simp
  have "rep_reach (repLookup 5 2 (V4 1) emptyProvider (repLookup 5 1 (V4 1) emptyProvider ?s2))"
    by (rule rep_reach.step [OF 3 rep_step.look]) (simp add: repLookup_def)
  then show ?thesis by (simp add: exRep_def)
qed

theorem single_flight_witness:
  "\<exists>p' asked. callers exRep 1 = Some (Querying (V4 1) p' asked) \<and>
     callers (repFinish (Inr (False, '''')) 1 (V4 1) p' asked exRep) 2 = Some (Looking (V4 1) emptyProvider)"
proof -
  have "callers exRep 2 = Some (Waiting (V4 1) emptyProvider 1)" by (simp add: exRep_callers)
  then show ?thesis using single_flight [OF exRep_reach, of 1 "V4 1" 1 2 emptyProvider 1 "Inr (False, '''')"] by blast
qed

end
