(* ===== verification/Client_Proxies.thy ===== *)
theory Client_Proxies
  imports Go_Std
begin

text \<open>
  The proxies of a client: names with the user's prefix (\<open>pkg/naming\<close>), the health monitor (\<open>client/health\<close>), the
  wrapper that drives one proxy through its phases (\<open>client/proxy/proxy_wrapper.go\<close>), and the manager that keeps the
  wrappers in step with the configuration (\<open>client/proxy/proxy_manager.go\<close>). Times are given to the operations that
  read the clock; the outcome of a check and of the start of a proxy come from outside.
\<close>

section \<open>Names\<close>

definition AddUserPrefix :: "string \<Rightarrow> string \<Rightarrow> string" where
  "AddUserPrefix user name = (if user = '''' then name else user @ ''.'' @ name)"

definition StripUserPrefix :: "string \<Rightarrow> string \<Rightarrow> string" where
  "StripUserPrefix user name =
     (if user = '''' then name
      else if take (length user + 1) name = user @ ''.'' then drop (length user + 1) name else name)"

definition BuildTargetServerProxyName :: "string \<Rightarrow> string \<Rightarrow> string \<Rightarrow> string" where
  "BuildTargetServerProxyName localUser serverUser serverName =
     (if serverUser \<noteq> '''' then AddUserPrefix serverUser serverName else AddUserPrefix localUser serverName)"

lemma Strip_Add [simp]: "StripUserPrefix user (AddUserPrefix user name) = name"
  by (simp add: StripUserPrefix_def AddUserPrefix_def)

section \<open>Health monitor\<close>

record HealthCheckConfig =
  hcType :: string
  hcInterval :: int
  hcTimeout :: int
  hcMaxFailed :: int
  hcPath :: string
  hcHTTPHeaders :: "(string \<times> string) list"

record Monitor =
  checkType :: string
  interval :: duration
  timeout :: duration
  maxFailedTimes :: int
  addr :: string
  url :: string
  header :: "(string \<times> string) list"
  failedTimes :: nat
  statusOK :: bool
  cancelled :: bool

definition NewMonitor :: "HealthCheckConfig \<Rightarrow> string \<Rightarrow> Monitor" where
  "NewMonitor cfg a =
     \<lparr>checkType = hcType cfg,
      interval = (if hcInterval cfg \<le> 0 then 10 else hcInterval cfg) * Second,
      timeout = (if hcTimeout cfg \<le> 0 then 3 else hcTimeout cfg) * Second,
      maxFailedTimes = (if hcMaxFailed cfg \<le> 0 then 1 else hcMaxFailed cfg),
      addr = a,
      url = (if hcType cfg = ''http'' \<and> hcPath cfg \<noteq> ''''
             then ''http://'' @ a @ (if take 1 (hcPath cfg) = ''/'' then '''' else ''/'') @ hcPath cfg else ''''),
      header = hcHTTPHeaders cfg, failedTimes = 0, statusOK = False, cancelled = False\<rparr>"

text \<open>The answers of the network to a check: whether the address can be dialled, and the status of a GET with the headers
  set in the order they are configured in (\<open>Host\<close> among them names the host).\<close>

record probe =
  dials :: "string \<Rightarrow> bool"
  getStatus :: "string \<Rightarrow> (string \<times> string) list \<Rightarrow> int option"

definition doTCPCheck :: "probe \<Rightarrow> Monitor \<Rightarrow> bool" where
  "doTCPCheck pr m = (if addr m = '''' then True else dials pr (addr m))"

definition doHTTPCheck :: "probe \<Rightarrow> Monitor \<Rightarrow> bool" where
  "doHTTPCheck pr m = (case getStatus pr (url m) (header m) of None \<Rightarrow> False | Some st \<Rightarrow> st div 100 = 2)"

definition doCheck :: "probe \<Rightarrow> Monitor \<Rightarrow> bool" where
  "doCheck pr m = (if checkType m = ''tcp'' then doTCPCheck pr m else if checkType m = ''http'' then doHTTPCheck pr m else False)"

datatype health_event = StatusNormal | StatusFailed

text \<open>One round of \<open>checkWorker\<close> with the outcome of the check: the callback it makes, if any.\<close>

definition checkRound :: "bool \<Rightarrow> Monitor \<Rightarrow> health_event option \<times> Monitor" where
  "checkRound ok m =
     (if cancelled m then (None, m)
      else if ok then
        if \<not> statusOK m then (Some StatusNormal, m\<lparr>statusOK := True\<rparr>) else (None, m)
      else
        let m' = m\<lparr>failedTimes := failedTimes m + 1\<rparr> in
        if statusOK m' \<and> int (failedTimes m') \<ge> maxFailedTimes m' then (Some StatusFailed, m'\<lparr>statusOK := False\<rparr>)
        else (None, m'))"

fun checkRounds :: "bool list \<Rightarrow> Monitor \<Rightarrow> health_event list \<times> Monitor" where
  "checkRounds [] m = ([], m)"
| "checkRounds (ok # oks) m =
     (let (e, m1) = checkRound ok m; (es, m2) = checkRounds oks m1 in
      ((case e of Some x \<Rightarrow> [x] | None \<Rightarrow> []) @ es, m2))"

text \<open>A run of \<open>checkWorker\<close> on the answers of the network at each round.\<close>

definition checkWorker :: "probe list \<Rightarrow> Monitor \<Rightarrow> health_event list \<times> Monitor" where
  "checkWorker prs m = checkRounds (map (\<lambda>pr. doCheck pr m) prs) m"

section \<open>Wrapper\<close>

datatype phase = ProxyPhaseNew | ProxyPhaseWaitStart | ProxyPhaseStartErr | ProxyPhaseRunning | ProxyPhaseCheckFailed | ProxyPhaseClosed

text \<open>A proxy configuration: what the wrapper looks at, and the rest.\<close>

record 'c ProxyCfg =
  cfgName :: string
  cfgHealth :: HealthCheckConfig
  cfgLocalIP :: string
  cfgLocalPort :: int
  cfgRest :: 'c

record 'c Wrapper =
  Phase :: phase
  Err :: string
  Cfg :: "'c ProxyCfg"
  RemoteAddr :: string
  monitor :: "Monitor option"
  unhealthy :: bool
  lastSendStartMsg :: go_time
  lastStartErr :: go_time
  wireName :: string
  pxyClosed :: bool

text \<open>What a wrapper sends to the server.\<close>

datatype 'c event = StartProxyEvent string "'c ProxyCfg" | CloseProxyEvent string

definition waitResponseTimeout :: duration where "waitResponseTimeout = 20 * Second"
definition startErrTimeout :: duration where "startErrTimeout = 30 * Second"

definition NewWrapper :: "string \<Rightarrow> 'c ProxyCfg \<Rightarrow> 'c Wrapper" where
  "NewWrapper user cfg =
     (let mon = hcType (cfgHealth cfg) \<noteq> '''' \<and> cfgLocalPort cfg > 0 in
      \<lparr>Phase = ProxyPhaseNew, Err = '''', Cfg = cfg, RemoteAddr = '''',
       monitor = (if mon then Some (NewMonitor (cfgHealth cfg) (JoinHostPort (cfgLocalIP cfg) (Itoa (cfgLocalPort cfg)))) else None),
       unhealthy = mon, lastSendStartMsg = 0, lastStartErr = 0, wireName = AddUserPrefix user (cfgName cfg), pxyClosed = False\<rparr>)"

definition closeEvent :: "'c Wrapper \<Rightarrow> 'c event" where
  "closeEvent w = CloseProxyEvent (wireName w)"

text \<open>The answer of the server to a start message; \<open>runErr\<close> is the error of the proxy's own start, empty if none.\<close>

definition SetRunningStatus ::
    "go_time \<Rightarrow> string \<Rightarrow> string \<Rightarrow> string \<Rightarrow> 'c Wrapper \<Rightarrow> (string, unit) result \<times> 'c event list \<times> 'c Wrapper" where
  "SetRunningStatus now runErr remoteAddr respErr w =
     (if Phase w \<noteq> ProxyPhaseWaitStart then (Inl ''status not wait start, ignore start message'', [], w)
      else let w1 = w\<lparr>RemoteAddr := remoteAddr\<rparr> in
        if respErr \<noteq> '''' then
          (Inl respErr, [], w1\<lparr>Phase := ProxyPhaseStartErr, Err := respErr, lastStartErr := now\<rparr>)
        else if runErr \<noteq> '''' then
          (Inl runErr, [closeEvent w1], w1\<lparr>Phase := ProxyPhaseStartErr, Err := runErr, lastStartErr := now\<rparr>)
        else (Inr (), [], w1\<lparr>Phase := ProxyPhaseRunning, Err := ''''\<rparr>))"

text \<open>One round of \<open>checkWorker\<close>.\<close>

definition checkStatus :: "go_time \<Rightarrow> 'c Wrapper \<Rightarrow> 'c event list \<times> 'c Wrapper" where
  "checkStatus now w =
     (if \<not> unhealthy w then
        if Phase w = ProxyPhaseNew \<or> Phase w = ProxyPhaseCheckFailed \<or>
           Phase w = ProxyPhaseWaitStart \<and> now > lastSendStartMsg w + waitResponseTimeout \<or>
           Phase w = ProxyPhaseStartErr \<and> now > lastStartErr w + startErrTimeout
        then ([StartProxyEvent (wireName w) (Cfg w)], w\<lparr>Phase := ProxyPhaseWaitStart, lastSendStartMsg := now\<rparr>)
        else ([], w)
      else if Phase w = ProxyPhaseRunning \<or> Phase w = ProxyPhaseWaitStart
      then ([closeEvent w], w\<lparr>Phase := ProxyPhaseCheckFailed\<rparr>)
      else ([], w))"

definition Stop :: "'c Wrapper \<Rightarrow> 'c event list \<times> 'c Wrapper" where
  "Stop w = ([closeEvent w], w\<lparr>Phase := ProxyPhaseClosed, pxyClosed := True,
      monitor := map_option (\<lambda>m. m\<lparr>cancelled := True\<rparr>) (monitor w)\<rparr>)"

text \<open>A round of the monitor, with the callback setting the wrapper's health.\<close>

definition monitorRound :: "bool \<Rightarrow> 'c Wrapper \<Rightarrow> 'c Wrapper" where
  "monitorRound ok w =
     (case monitor w of None \<Rightarrow> w
      | Some m \<Rightarrow>
          (case checkRound ok m of
             (None, m') \<Rightarrow> w\<lparr>monitor := Some m'\<rparr>
           | (Some StatusNormal, m') \<Rightarrow> w\<lparr>monitor := Some m', unhealthy := False\<rparr>
           | (Some StatusFailed, m') \<Rightarrow> w\<lparr>monitor := Some m', unhealthy := True\<rparr>))"

text \<open>Whether a work connection is handed to the proxy; otherwise it is closed.\<close>

definition InWorkConn :: "'c Wrapper \<Rightarrow> bool" where
  "InWorkConn w \<longleftrightarrow> Phase w = ProxyPhaseRunning"

section \<open>Manager\<close>

record 'c Manager =
  proxies :: "string \<rightharpoonup> 'c Wrapper"
  mUser :: string
  msgs :: "'c event list"

definition StartProxy ::
    "go_time \<Rightarrow> string \<Rightarrow> string \<Rightarrow> string \<Rightarrow> string \<Rightarrow> 'c Manager \<Rightarrow> (string, unit) result \<times> 'c Manager" where
  "StartProxy now runErr name remoteAddr respErr pm =
     (case proxies pm name of None \<Rightarrow> (Inl (''proxy ['' @ name @ ''] not found''), pm)
      | Some w \<Rightarrow>
          (case SetRunningStatus now runErr remoteAddr respErr w of (r, es, w') \<Rightarrow>
             (r, pm\<lparr>proxies := (proxies pm)(name \<mapsto> w'), msgs := msgs pm @ es\<rparr>)))"

text \<open>\<open>handleNewProxyResp\<close> of the client's control.\<close>

definition handleNewProxyResp ::
    "go_time \<Rightarrow> string \<Rightarrow> string \<Rightarrow> string \<Rightarrow> string \<Rightarrow> 'c Manager \<Rightarrow> (string, unit) result \<times> 'c Manager" where
  "handleNewProxyResp now runErr proxyName remoteAddr respErr pm =
     StartProxy now runErr (StripUserPrefix (mUser pm) proxyName) remoteAddr respErr pm"

definition HandleWorkConn :: "string \<Rightarrow> 'c Manager \<Rightarrow> bool" where
  "HandleWorkConn name pm = (case proxies pm name of Some w \<Rightarrow> InWorkConn w | None \<Rightarrow> False)"

definition stopProxy :: "string \<Rightarrow> 'c Manager \<Rightarrow> 'c Manager" where
  "stopProxy name pm =
     (case proxies pm name of None \<Rightarrow> pm
      | Some w \<Rightarrow> pm\<lparr>proxies := (proxies pm)(name := None), msgs := msgs pm @ fst (Stop w)\<rparr>)"

text \<open>\<open>order\<close> is the order in which the map is walked.\<close>

definition CloseAll :: "string list \<Rightarrow> 'c Manager \<Rightarrow> 'c Manager" where
  "CloseAll order pm = fold stopProxy order pm"

definition keyBy :: "'c ProxyCfg list \<Rightarrow> string \<rightharpoonup> 'c ProxyCfg" where
  "keyBy cfgs = map_of (rev (map (\<lambda>c. (cfgName c, c)) cfgs))"

definition removeStale :: "(string \<rightharpoonup> 'c ProxyCfg) \<Rightarrow> string \<Rightarrow> 'c Manager \<Rightarrow> 'c Manager" where
  "removeStale cfgsMap name pm =
     (case proxies pm name of None \<Rightarrow> pm
      | Some w \<Rightarrow> if cfgsMap name \<noteq> Some (Cfg w) then stopProxy name pm else pm)"

definition addMissing :: "'c ProxyCfg \<Rightarrow> 'c Manager \<Rightarrow> 'c Manager" where
  "addMissing cfg pm =
     (if proxies pm (cfgName cfg) = None then pm\<lparr>proxies := (proxies pm)(cfgName cfg \<mapsto> NewWrapper (mUser pm) cfg)\<rparr> else pm)"

definition UpdateAll :: "string list \<Rightarrow> 'c ProxyCfg list \<Rightarrow> 'c Manager \<Rightarrow> 'c Manager" where
  "UpdateAll order cfgs pm = fold addMissing cfgs (fold (removeStale (keyBy cfgs)) order pm)"

section \<open>Health events\<close>

text \<open>The monitor reports changes only: its events alternate, and the status is that of the last event.\<close>

fun alternating :: "bool \<Rightarrow> health_event list \<Rightarrow> bool" where
  "alternating ok [] = True"
| "alternating ok (e # es) = (e = (if ok then StatusFailed else StatusNormal) \<and> alternating (\<not> ok) es)"

lemma checkRound_None: "checkRound ok m = (None, m') \<Longrightarrow> statusOK m' = statusOK m"
  by (auto simp: checkRound_def Let_def split: if_splits)

lemma checkRound_Some:
  "checkRound ok m = (Some e, m') \<Longrightarrow> e = (if statusOK m then StatusFailed else StatusNormal) \<and> statusOK m' = (\<not> statusOK m)"
  by (auto simp: checkRound_def Let_def split: if_splits)

lemma checkRounds_alternate: "alternating (statusOK m) (fst (checkRounds oks m))"
proof (induction oks arbitrary: m)
  case (Cons ok oks)
  obtain e m1 where r: "checkRound ok m = (e, m1)" by (cases "checkRound ok m")
  show ?case using Cons.IH [of m1] r by (cases e) (simp_all add: checkRound_None checkRound_Some split_beta)
qed simp

lemma checkWorker_alternates: "alternating (statusOK m) (fst (checkWorker prs m))"
  by (simp add: checkWorker_def checkRounds_alternate)

text \<open>The example configuration says that a proxy is taken down after \<open>maxFailed\<close> failures in a row. The counter is never
  set back: with a limit of three, two failures, a success and one more failure take it down.\<close>

lemma failures_accumulate:
  "fst (checkRounds [True, False, False, True, False]
     (NewMonitor \<lparr>hcType = ''tcp'', hcInterval = 0, hcTimeout = 0, hcMaxFailed = 3, hcPath = '''', hcHTTPHeaders = []\<rparr> ''a'')) = [StatusNormal, StatusFailed]"
  by (simp add: NewMonitor_def checkRound_def Let_def)

section \<open>Life of a wrapper\<close>

text \<open>The events sent so far with their times, along the rounds of both workers, the answers of the server and the
  final stop. A round of \<open>checkWorker\<close> reads the clock before it takes the lock, so an answer handled in between may be
  younger; \<open>t\<close> is the time of the last round.\<close>

inductive wrapper_run :: "string \<Rightarrow> 'c ProxyCfg \<Rightarrow> go_time \<Rightarrow> 'c Wrapper \<Rightarrow> (go_time \<times> 'c event) list \<Rightarrow> bool" for user cfg where
  new: "wrapper_run user cfg t (NewWrapper user cfg) []"
| check: "wrapper_run user cfg t w tr \<Longrightarrow> t \<le> now \<Longrightarrow> checkStatus now w = (es, w') \<Longrightarrow>
    wrapper_run user cfg now w' (tr @ map (Pair now) es)"
| answer: "wrapper_run user cfg t w tr \<Longrightarrow> t \<le> now \<Longrightarrow> SetRunningStatus now runErr remote respErr w = (r, es, w') \<Longrightarrow>
    wrapper_run user cfg t w' (tr @ map (Pair now) es)"
| health: "wrapper_run user cfg t w tr \<Longrightarrow> wrapper_run user cfg t (monitorRound ok w) tr"
| stop: "wrapper_run user cfg t w tr \<Longrightarrow> Phase w \<noteq> ProxyPhaseClosed \<Longrightarrow> Stop w = (es, w') \<Longrightarrow>
    wrapper_run user cfg t w' (tr @ map (Pair now) es)"

abbreviation start_of :: "string \<Rightarrow> 'c ProxyCfg \<Rightarrow> 'c event" where
  "start_of user cfg \<equiv> StartProxyEvent (AddUserPrefix user (cfgName cfg)) cfg"

abbreviation close_of :: "string \<Rightarrow> 'c ProxyCfg \<Rightarrow> 'c event" where
  "close_of user cfg \<equiv> CloseProxyEvent (AddUserPrefix user (cfgName cfg))"

text \<open>The last event sent in each phase.\<close>

definition phase_event :: "string \<Rightarrow> 'c ProxyCfg \<Rightarrow> phase \<Rightarrow> (go_time \<times> 'c event) list \<Rightarrow> bool" where
  "phase_event user cfg ph tr \<longleftrightarrow>
     (case ph of
        ProxyPhaseNew \<Rightarrow> tr = []
      | ProxyPhaseWaitStart \<Rightarrow> tr \<noteq> [] \<and> snd (last tr) = start_of user cfg
      | ProxyPhaseRunning \<Rightarrow> tr \<noteq> [] \<and> snd (last tr) = start_of user cfg
      | ProxyPhaseStartErr \<Rightarrow> tr \<noteq> [] \<and> snd (last tr) \<in> {start_of user cfg, close_of user cfg}
      | ProxyPhaseCheckFailed \<Rightarrow> tr \<noteq> [] \<and> snd (last tr) = close_of user cfg
      | ProxyPhaseClosed \<Rightarrow> tr \<noteq> [] \<and> snd (last tr) = close_of user cfg)"

text \<open>Two start messages with nothing between them are more than the response timeout apart.\<close>

definition spaced :: "string \<Rightarrow> 'c ProxyCfg \<Rightarrow> (go_time \<times> 'c event) list \<Rightarrow> bool" where
  "spaced user cfg tr \<longleftrightarrow> successively (\<lambda>a b. snd a = start_of user cfg \<and> snd b = start_of user cfg \<longrightarrow>
     fst b > fst a + waitResponseTimeout) tr"

definition wrapper_inv :: "string \<Rightarrow> 'c ProxyCfg \<Rightarrow> go_time \<Rightarrow> 'c Wrapper \<Rightarrow> (go_time \<times> 'c event) list \<Rightarrow> bool" where
  "wrapper_inv user cfg t w tr \<longleftrightarrow>
     Cfg w = cfg \<and> wireName w = AddUserPrefix user (cfgName cfg) \<and> phase_event user cfg (Phase w) tr \<and> spaced user cfg tr \<and>
     (tr \<noteq> [] \<and> snd (last tr) = start_of user cfg \<longrightarrow> fst (last tr) = lastSendStartMsg w \<and> lastSendStartMsg w \<le> t \<and>
        (Phase w = ProxyPhaseStartErr \<longrightarrow> lastSendStartMsg w \<le> lastStartErr w))"

lemma spaced_snoc:
  "spaced user cfg (tr @ [x]) \<longleftrightarrow> spaced user cfg tr \<and> (tr \<noteq> [] \<and> snd (last tr) = start_of user cfg \<and> snd x = start_of user cfg \<longrightarrow>
     fst x > fst (last tr) + waitResponseTimeout)"
  by (cases "tr = []") (auto simp: spaced_def successively_append_iff)

lemma spaced_single [simp]: "spaced user cfg [x]"
  by (simp add: spaced_def)

lemma monitorRound_fields:
  "Phase (monitorRound ok w) = Phase w" "Cfg (monitorRound ok w) = Cfg w" "wireName (monitorRound ok w) = wireName w"
  "lastSendStartMsg (monitorRound ok w) = lastSendStartMsg w" "lastStartErr (monitorRound ok w) = lastStartErr w"
  by (auto simp: monitorRound_def split: option.splits prod.splits health_event.splits)

text \<open>The guard of a start message.\<close>

definition start_due :: "go_time \<Rightarrow> 'c Wrapper \<Rightarrow> bool" where
  "start_due now w \<longleftrightarrow> Phase w = ProxyPhaseNew \<or> Phase w = ProxyPhaseCheckFailed \<or>
     Phase w = ProxyPhaseWaitStart \<and> now > lastSendStartMsg w + waitResponseTimeout \<or>
     Phase w = ProxyPhaseStartErr \<and> now > lastStartErr w + startErrTimeout"

lemma checkStatus_start:
  "\<not> unhealthy w \<Longrightarrow> start_due now w \<Longrightarrow>
     checkStatus now w = ([StartProxyEvent (wireName w) (Cfg w)], w\<lparr>Phase := ProxyPhaseWaitStart, lastSendStartMsg := now\<rparr>)"
  unfolding checkStatus_def start_due_def by presburger

lemma checkStatus_close:
  "unhealthy w \<Longrightarrow> Phase w = ProxyPhaseRunning \<or> Phase w = ProxyPhaseWaitStart \<Longrightarrow>
     checkStatus now w = ([closeEvent w], w\<lparr>Phase := ProxyPhaseCheckFailed\<rparr>)"
  unfolding checkStatus_def by presburger

lemma checkStatus_idle:
  "unhealthy w \<or> \<not> start_due now w \<Longrightarrow> \<not> (unhealthy w \<and> (Phase w = ProxyPhaseRunning \<or> Phase w = ProxyPhaseWaitStart)) \<Longrightarrow>
     checkStatus now w = ([], w)"
  unfolding checkStatus_def start_due_def by presburger

lemma start_due_spaced:
  assumes "wrapper_inv user cfg t w tr" "start_due now w" "tr \<noteq> []" "snd (last tr) = start_of user cfg"
  shows "now > fst (last tr) + waitResponseTimeout"
proof -
  have "waitResponseTimeout \<le> startErrTimeout" by (simp add: startErrTimeout_def waitResponseTimeout_def Second_def)
  then show ?thesis using assms unfolding wrapper_inv_def start_due_def phase_event_def by (cases "Phase w") auto
qed

lemma wrapper_check_inv:
  assumes i: "wrapper_inv user cfg t w tr" and "t \<le> now" "checkStatus now w = (es, w')"
  shows "wrapper_inv user cfg now w' (tr @ map (Pair now) es)"
proof (cases "\<not> unhealthy w \<and> start_due now w")
  case True
  then show ?thesis using assms start_due_spaced [OF i] checkStatus_start [of w now]
    by (auto simp: wrapper_inv_def phase_event_def spaced_snoc)
next
  case idle: False
  show ?thesis
  proof (cases "unhealthy w \<and> (Phase w = ProxyPhaseRunning \<or> Phase w = ProxyPhaseWaitStart)")
    case True
    then show ?thesis using assms checkStatus_close [of w now] by (auto simp: wrapper_inv_def phase_event_def spaced_snoc closeEvent_def)
  next
    case False
    then have "checkStatus now w = ([], w)" using idle by (intro checkStatus_idle) auto
    then show ?thesis using assms by (auto simp: wrapper_inv_def)
  qed
qed

lemma wrapper_answer_inv:
  assumes "wrapper_inv user cfg t w tr" "t \<le> now" "SetRunningStatus now runErr remote respErr w = (r, es, w')"
  shows "wrapper_inv user cfg t w' (tr @ map (Pair now) es)"
proof (cases "Phase w = ProxyPhaseWaitStart")
  case True
  then show ?thesis
    using assms by (auto simp: SetRunningStatus_def wrapper_inv_def phase_event_def spaced_snoc closeEvent_def Let_def split: if_splits)
next
  case False
  then have "es = []" "w' = w" using assms(3) by (simp_all add: SetRunningStatus_def)
  then show ?thesis using assms(1,2) by (auto simp: wrapper_inv_def)
qed

lemma wrapper_run_inv: "wrapper_run user cfg t w tr \<Longrightarrow> wrapper_inv user cfg t w tr"
proof (induction rule: wrapper_run.induct)
  case (new t)
  then show ?case by (simp add: wrapper_inv_def NewWrapper_def phase_event_def spaced_def Let_def)
next
  case (health t w tr ok)
  then show ?case by (auto simp: wrapper_inv_def monitorRound_fields)
next
  case (stop t w tr es w' now)
  then show ?case by (auto simp: Stop_def wrapper_inv_def phase_event_def spaced_snoc closeEvent_def)
qed (blast intro: wrapper_check_inv wrapper_answer_inv)+

text \<open>Start messages with no close message between them are more than the response timeout apart.\<close>

lemma trace_events:
  assumes "wrapper_run user cfg t w tr" "e \<in> set tr"
  shows "snd e = start_of user cfg \<or> snd e = close_of user cfg"
  using assms
proof (induction rule: wrapper_run.induct)
  case (check t w tr now es w')
  then have "Cfg w = cfg" "wireName w = AddUserPrefix user (cfgName cfg)"
    using wrapper_run_inv [OF check.hyps(1)] by (simp_all add: wrapper_inv_def)
  then show ?case using check by (auto simp: checkStatus_def closeEvent_def split: if_splits)
next
  case (answer t w tr now runErr remote respErr r es w')
  then have "wireName w = AddUserPrefix user (cfgName cfg)" using wrapper_run_inv [OF answer.hyps(1)] by (simp add: wrapper_inv_def)
  then show ?case using answer by (auto simp: SetRunningStatus_def closeEvent_def Let_def split: if_splits)
next
  case (stop t w tr es w' now)
  then have "wireName w = AddUserPrefix user (cfgName cfg)" using wrapper_run_inv [OF stop.hyps(1)] by (simp add: wrapper_inv_def)
  then show ?case using stop by (auto simp: Stop_def closeEvent_def split: if_splits)
qed auto

lemma spaced_infix: "spaced user cfg (xs @ ys @ zs) \<Longrightarrow> spaced user cfg ys"
  by (auto simp: spaced_def successively_append_iff)

lemma spaced_starts:
  assumes "spaced user cfg ((a, start_of user cfg) # ys @ [(b, start_of user cfg)])" "\<And>e. e \<in> set ys \<Longrightarrow> snd e = start_of user cfg"
  shows "a + waitResponseTimeout < b"
  using assms
proof (induction ys arbitrary: a)
  case Nil
  then show ?case by (simp add: spaced_def)
next
  case (Cons e ys)
  obtain c where e: "e = (c, start_of user cfg)" using Cons.prems(2) [of e] by (cases e) auto
  then have "c + waitResponseTimeout < b" using Cons by (simp add: spaced_def)
  moreover have "a + waitResponseTimeout < c" using Cons.prems(1) e by (simp add: spaced_def)
  ultimately show ?case by (simp add: waitResponseTimeout_def Second_def)
qed

lemma starts_apart:
  assumes "wrapper_run user cfg t w (xs @ (a, start_of user cfg) # ys @ (b, start_of user cfg) # zs)"
    "close_of user cfg \<notin> snd ` set ys"
  shows "a + waitResponseTimeout < b"
proof (rule spaced_starts)
  show "spaced user cfg ((a, start_of user cfg) # ys @ [(b, start_of user cfg)])"
    using wrapper_run_inv [OF assms(1)] spaced_infix [of user cfg xs "(a, start_of user cfg) # ys @ [(b, start_of user cfg)]" zs]
    by (simp add: wrapper_inv_def)
  show "snd e = start_of user cfg" if "e \<in> set ys" for e
    using trace_events [OF assms(1), of e] assms(2) that by force
qed

text \<open>C13: Phases and messages of a proxy. In every run of a client's proxy, whatever the health checks, the server's answers
  and their timing: while the proxy waits for or has the server's consent, the last message sent is its start message; once
  its check has failed or it is closed, the last message sent is its close message. Two start messages with no close message
  between them are more than the response timeout apart (after a close message the next start message may follow at once, when
  the health check recovers). A closed proxy sends nothing more, stays closed and serves no connection.\<close>

theorem proxy_phase_messages:
  assumes "wrapper_run user cfg t w tr"
  shows "phase_event user cfg (Phase w) tr \<and>
    (\<forall>xs a ys b zs. tr = xs @ (a, start_of user cfg) # ys @ (b, start_of user cfg) # zs \<and> close_of user cfg \<notin> snd ` set ys \<longrightarrow>
       a + waitResponseTimeout < b) \<and>
    (Phase w = ProxyPhaseClosed \<longrightarrow>
       checkStatus now w = ([], w) \<and> (\<exists>e. SetRunningStatus now runErr remote respErr w = (Inl e, [], w)) \<and> \<not> InWorkConn w)"
proof (intro conjI allI impI; (elim conjE)?)
  show "phase_event user cfg (Phase w) tr" using wrapper_run_inv [OF assms] by (simp add: wrapper_inv_def)
  show "a + waitResponseTimeout < b"
    if "tr = xs @ (a, start_of user cfg) # ys @ (b, start_of user cfg) # zs" "close_of user cfg \<notin> snd ` set ys" for xs a ys b zs
    using starts_apart assms that by blast
qed (auto simp: checkStatus_def SetRunningStatus_def InWorkConn_def)

definition exCfg :: "unit ProxyCfg" where
  "exCfg = \<lparr>cfgName = ''web'', cfgHealth = \<lparr>hcType = '''', hcInterval = 0, hcTimeout = 0, hcMaxFailed = 0, hcPath = '''', hcHTTPHeaders = []\<rparr>,
     cfgLocalIP = ''127.0.0.1'', cfgLocalPort = 80, cfgRest = ()\<rparr>"

definition exClosed :: "unit Wrapper" where
  "exClosed = snd (Stop (snd (checkStatus 5 (NewWrapper ''u'' exCfg))))"

theorem proxy_phase_messages_witness:
  "phase_event ''u'' exCfg (Phase exClosed) [(5, start_of ''u'' exCfg), (6, close_of ''u'' exCfg)] \<and>
   checkStatus 7 exClosed = ([], exClosed)"
proof -
  have c: "checkStatus 5 (NewWrapper ''u'' exCfg) = ([start_of ''u'' exCfg], snd (checkStatus 5 (NewWrapper ''u'' exCfg)))"
    by (simp add: checkStatus_def NewWrapper_def exCfg_def)
  have ph: "Phase (snd (checkStatus 5 (NewWrapper ''u'' exCfg))) = ProxyPhaseWaitStart"
    "wireName (snd (checkStatus 5 (NewWrapper ''u'' exCfg))) = AddUserPrefix ''u'' (cfgName exCfg)"
    by (simp_all add: checkStatus_def NewWrapper_def exCfg_def)
  have s: "Stop (snd (checkStatus 5 (NewWrapper ''u'' exCfg))) = ([close_of ''u'' exCfg], exClosed)"
    by (simp add: exClosed_def Stop_def closeEvent_def ph)
  have "wrapper_run ''u'' exCfg 5 (snd (checkStatus 5 (NewWrapper ''u'' exCfg))) ([] @ map (Pair 5) [start_of ''u'' exCfg])"
    by (rule wrapper_run.check [OF wrapper_run.new [of _ _ 0] _ c]) simp
  from wrapper_run.stop [OF this _ s, of 6] ph
  have r: "wrapper_run ''u'' exCfg 5 exClosed [(5, start_of ''u'' exCfg), (6, close_of ''u'' exCfg)]" by simp
  have "Phase exClosed = ProxyPhaseClosed" by (simp add: exClosed_def Stop_def)
  then show ?thesis using proxy_phase_messages [OF r, of 7] by blast
qed

section \<open>Reconciliation\<close>

text \<open>A proxy is stale when it is no longer configured, or configured differently.\<close>

definition stale :: "(string \<rightharpoonup> 'c ProxyCfg) \<Rightarrow> 'c Manager \<Rightarrow> string \<Rightarrow> bool" where
  "stale cfgsMap pm n \<longleftrightarrow> (case proxies pm n of Some w \<Rightarrow> cfgsMap n \<noteq> Some (Cfg w) | None \<Rightarrow> False)"

definition closing :: "'c Manager \<Rightarrow> string \<Rightarrow> 'c event list" where
  "closing pm n = (case proxies pm n of Some w \<Rightarrow> [closeEvent w] | None \<Rightarrow> [])"

lemma removeStale_eq:
  "removeStale cm n pm = (if stale cm pm n then pm\<lparr>proxies := (proxies pm)(n := None), msgs := msgs pm @ closing pm n\<rparr> else pm)"
  by (simp add: removeStale_def stale_def closing_def stopProxy_def Stop_def split: option.splits)

lemma removeStale_fields:
  "proxies (removeStale cm n pm) = (if stale cm pm n then (proxies pm)(n := None) else proxies pm)"
  "msgs (removeStale cm n pm) = msgs pm @ (if stale cm pm n then closing pm n else [])"
  "mUser (removeStale cm n pm) = mUser pm"
  by (simp_all add: removeStale_eq)

lemma removeStale_other:
  "m \<noteq> n \<Longrightarrow> stale cm (removeStale cm n pm) m = stale cm pm m" "m \<noteq> n \<Longrightarrow> closing (removeStale cm n pm) m = closing pm m"
  by (simp_all add: stale_def closing_def removeStale_fields)

lemma removeStale_fold_user: "mUser (fold (removeStale cm) order pm) = mUser pm"
  by (induction order arbitrary: pm) (simp_all add: removeStale_fields)

lemma removeStale_fold_proxies:
  "distinct order \<Longrightarrow> proxies (fold (removeStale cm) order pm) n = (if n \<in> set order \<and> stale cm pm n then None else proxies pm n)"
proof (induction order arbitrary: pm)
  case (Cons x order)
  have "stale cm (removeStale cm x pm) n = stale cm pm n" if "n \<in> set order"
    using that Cons.prems by (intro removeStale_other) auto
  then show ?case using Cons by (auto simp: removeStale_fields)
qed simp

lemma removeStale_fold_msgs:
  "distinct order \<Longrightarrow> msgs (fold (removeStale cm) order pm) = msgs pm @ concat (map (closing pm) (filter (stale cm pm) order))"
proof (induction order arbitrary: pm)
  case (Cons x order)
  have "filter (stale cm (removeStale cm x pm)) order = filter (stale cm pm) order"
    using Cons.prems by (intro filter_cong refl removeStale_other) auto
  moreover have "concat (map (closing (removeStale cm x pm)) (filter (stale cm pm) order)) = concat (map (closing pm) (filter (stale cm pm) order))"
    using Cons.prems by (intro arg_cong [where f = concat] map_cong refl removeStale_other) auto
  ultimately show ?case using Cons by (simp add: removeStale_fields)
qed simp

lemma addMissing_fields:
  "msgs (addMissing c pm) = msgs pm" "mUser (addMissing c pm) = mUser pm"
  "proxies (addMissing c pm) = (if proxies pm (cfgName c) = None then (proxies pm)(cfgName c \<mapsto> NewWrapper (mUser pm) c) else proxies pm)"
  by (simp_all add: addMissing_def)

lemma addMissing_fold_msgs: "msgs (fold addMissing cfgs pm) = msgs pm"
  by (induction cfgs arbitrary: pm) (simp_all add: addMissing_fields)

lemma keyBy_Cons: "cfgName c \<notin> cfgName ` set cfgs \<Longrightarrow> keyBy (c # cfgs) = (keyBy cfgs)(cfgName c \<mapsto> c)"
proof -
  assume "cfgName c \<notin> cfgName ` set cfgs"
  then have "keyBy cfgs (cfgName c) = None" by (auto simp: keyBy_def map_of_eq_None_iff image_image)
  then show ?thesis by (auto simp: keyBy_def fun_eq_iff map_add_def split: option.splits)
qed

lemma addMissing_fold_proxies:
  "distinct (map cfgName cfgs) \<Longrightarrow>
   proxies (fold addMissing cfgs pm) n =
     (case proxies pm n of Some w \<Rightarrow> Some w | None \<Rightarrow> map_option (NewWrapper (mUser pm)) (keyBy cfgs n))"
proof (induction cfgs arbitrary: pm)
  case (Cons c cfgs)
  then show ?case by (auto simp: addMissing_fields keyBy_Cons split: option.splits)
qed (simp add: keyBy_def split: option.splits)

text \<open>Reloading the configuration. Whatever the order in which the map of proxies is walked, afterwards there is exactly one
  proxy per configured name; a proxy whose configuration is unchanged is the same object in the same phase, one that is
  new or whose configuration changed starts afresh, and exactly the proxies that are gone or changed have been told to the
  server as closed, once each.\<close>

theorem UpdateAll_reconciles:
  assumes "distinct (map cfgName cfgs)" "distinct order" "set order = dom (proxies pm)"
  shows "proxies (UpdateAll order cfgs pm) n =
      (case keyBy cfgs n of None \<Rightarrow> None
       | Some c \<Rightarrow> (case proxies pm n of Some w \<Rightarrow> if Cfg w = c then Some w else Some (NewWrapper (mUser pm) c)
                    | None \<Rightarrow> Some (NewWrapper (mUser pm) c))) \<and>
    msgs (UpdateAll order cfgs pm) = msgs pm @ concat (map (closing pm) (filter (stale (keyBy cfgs) pm) order))"
proof -
  have "n \<in> set order \<longleftrightarrow> proxies pm n \<noteq> None" using assms(3) by blast
  then show ?thesis
    using removeStale_fold_proxies [OF assms(2), of "keyBy cfgs" pm n]
    by (auto simp: UpdateAll_def addMissing_fold_proxies [OF assms(1)] addMissing_fold_msgs removeStale_fold_msgs [OF assms(2)]
      removeStale_fold_user stale_def split: option.splits)
qed

definition exManager :: "unit Manager" where
  "exManager = \<lparr>proxies = [''web'' \<mapsto> NewWrapper ''u'' exCfg, ''old'' \<mapsto> NewWrapper ''u'' (exCfg\<lparr>cfgName := ''old''\<rparr>)], mUser = ''u'', msgs = []\<rparr>"

theorem UpdateAll_reconciles_witness:
  "proxies (UpdateAll [''old'', ''web''] [exCfg] exManager) ''web'' = Some (NewWrapper ''u'' exCfg) \<and>
   msgs (UpdateAll [''old'', ''web''] [exCfg] exManager) = [CloseProxyEvent ''u.old'']"
proof -
  have k: "keyBy [exCfg] = [''web'' \<mapsto> exCfg]" by (simp add: keyBy_def exCfg_def)
  have c: "Cfg (NewWrapper u c) = c" "wireName (NewWrapper u c) = AddUserPrefix u (cfgName c)" for u and c :: "unit ProxyCfg"
    by (simp_all add: NewWrapper_def Let_def)
  have d: "set [''old'', ''web''] = dom (proxies exManager)" by (auto simp: exManager_def)
  show ?thesis
    using UpdateAll_reconciles [OF _ _ d, of "[exCfg]" "''web''"]
    by (simp add: k c exManager_def stale_def closing_def closeEvent_def AddUserPrefix_def)
qed

end
