(* ===== verification/Config_Types.thy ===== *)
theory Config_Types
  imports Ports Go_Std
begin

text \<open>
  Values of the configuration files: bandwidths and port ranges (\<open>pkg/config/types/types.go\<close>), lists of numbers
  (\<open>util.ParseRangeNumbers\<close>, used by the template functions of \<open>pkg/config/template.go\<close>), with the round trips of their
  text forms.
\<close>

section \<open>Bandwidth\<close>

record BandwidthQuantity =
  bq_s :: string
  bq_i :: int

definition MB :: int where "MB = 1024 * 1024"
definition KB :: int where "KB = 1024"

definition zeroBandwidth :: BandwidthQuantity where
  "zeroBandwidth = \<lparr>bq_s = '''', bq_i = 0\<rparr>"

datatype bandwidth_error = UnitNotSupport | BadFloat

definition CutSuffix :: "string \<Rightarrow> string \<Rightarrow> string option" where
  "CutSuffix s suf =
     (if length suf \<le> length s \<and> drop (length s - length suf) s = suf then Some (take (length s - length suf) s) else None)"

text \<open>\<open>toBytes\<close> stands for \<open>strconv.ParseFloat\<close> followed by the conversion of the product with the unit to an integer.\<close>

definition UnmarshalString ::
    "(string \<Rightarrow> int \<Rightarrow> int option) \<Rightarrow> string \<Rightarrow> BandwidthQuantity \<Rightarrow> bandwidth_error option \<times> BandwidthQuantity" where
  "UnmarshalString toBytes s0 q =
     (let s = TrimSpace s0;
          parsed = (\<lambda>fstr base. case toBytes fstr base of None \<Rightarrow> (Some BadFloat, q) | Some i \<Rightarrow> (None, \<lparr>bq_s = s, bq_i = i\<rparr>))
      in if s = '''' then (None, q)
         else case CutSuffix s ''MB'' of
           Some fstr \<Rightarrow> parsed fstr MB
         | None \<Rightarrow> (case CutSuffix s ''KB'' of Some fstr \<Rightarrow> parsed fstr KB | None \<Rightarrow> (Some UnitNotSupport, q)))"

definition NewBandwidthQuantity :: "(string \<Rightarrow> int \<Rightarrow> int option) \<Rightarrow> string \<Rightarrow> bandwidth_error option \<times> BandwidthQuantity" where
  "NewBandwidthQuantity toBytes s = UnmarshalString toBytes s zeroBandwidth"

definition bqString :: "BandwidthQuantity \<Rightarrow> string" where
  "bqString q = bq_s q"

section \<open>Port ranges\<close>

datatype range_error = BadNumber string | BadRange

definition rangeString :: "PortsRange \<Rightarrow> string" where
  "rangeString v = (if pr_Single v > 0 then Itoa (pr_Single v) else Itoa (pr_Start v) @ ''-'' @ Itoa (pr_End v))"

definition PortsRangeSlice_String :: "PortsRange list \<Rightarrow> string" where
  "PortsRangeSlice_String p = (if p = [] then '''' else Join (CHR '','') (map rangeString p))"

definition parseNumber :: "string \<Rightarrow> (range_error, int) result" where
  "parseNumber s = (case ParseInt (TrimSpace s) of None \<Rightarrow> Inl (BadNumber (TrimSpace s)) | Some n \<Rightarrow> Inr n)"

text \<open>One element of the list: a number, or two numbers in order.\<close>

datatype number_range = SingleNumber int | NumberRange int int

definition parseRange :: "string \<Rightarrow> (range_error, number_range) result" where
  "parseRange numRangeStr =
     (case Split (CHR ''-'') numRangeStr of
        [a] \<Rightarrow> (case parseNumber a of Inl e \<Rightarrow> Inl e | Inr n \<Rightarrow> Inr (SingleNumber n))
      | [a, b] \<Rightarrow>
          (case parseNumber a of Inl e \<Rightarrow> Inl e
           | Inr minNum \<Rightarrow>
               (case parseNumber b of Inl e \<Rightarrow> Inl e
                | Inr maxNum \<Rightarrow> if maxNum < minNum then Inl BadRange else Inr (NumberRange minNum maxNum)))
      | _ \<Rightarrow> Inl BadRange)"

fun parseRanges :: "string list \<Rightarrow> (range_error, number_range list) result" where
  "parseRanges [] = Inr []"
| "parseRanges (s # ss) =
     (case parseRange s of Inl e \<Rightarrow> Inl e
      | Inr r \<Rightarrow> (case parseRanges ss of Inl e \<Rightarrow> Inl e | Inr rs \<Rightarrow> Inr (r # rs)))"

definition toPortsRange :: "number_range \<Rightarrow> PortsRange" where
  "toPortsRange r =
     (case r of SingleNumber n \<Rightarrow> \<lparr>pr_Start = 0, pr_End = 0, pr_Single = n\<rparr>
      | NumberRange a b \<Rightarrow> \<lparr>pr_Start = a, pr_End = b, pr_Single = 0\<rparr>)"

definition NewPortsRangeSliceFromString :: "string \<Rightarrow> (range_error, PortsRange list) result" where
  "NewPortsRangeSliceFromString str =
     (case parseRanges (Split (CHR '','') (TrimSpace str)) of Inl e \<Rightarrow> Inl e | Inr rs \<Rightarrow> Inr (map toPortsRange rs))"

text \<open>The conversion of an old configuration file drops the error.\<close>

definition legacyAllowPorts :: "string \<Rightarrow> PortsRange list" where
  "legacyAllowPorts str = (case NewPortsRangeSliceFromString str of Inl _ \<Rightarrow> [] | Inr rs \<Rightarrow> rs)"

section \<open>Number lists\<close>

text \<open>The loop over a range counts in 64 bits: with the largest number as upper bound it does not end, which is \<open>None\<close>.\<close>

definition rangeNumbers :: "number_range \<Rightarrow> int list option" where
  "rangeNumbers r = (case r of SingleNumber n \<Rightarrow> Some [n] | NumberRange a b \<Rightarrow> if b \<ge> 2 ^ 63 - 1 then None else Some [a..b])"

fun expandRanges :: "string list \<Rightarrow> (range_error, int list) result option" where
  "expandRanges [] = Some (Inr [])"
| "expandRanges (s # ss) =
     (case parseRange s of Inl e \<Rightarrow> Some (Inl e)
      | Inr r \<Rightarrow>
          (case rangeNumbers r of None \<Rightarrow> None
           | Some xs \<Rightarrow>
               (case expandRanges ss of None \<Rightarrow> None
                | Some (Inl e) \<Rightarrow> Some (Inl e)
                | Some (Inr ys) \<Rightarrow> Some (Inr (xs @ ys)))))"

definition ParseRangeNumbers :: "string \<Rightarrow> (range_error, int list) result option" where
  "ParseRangeNumbers rangeStr = expandRanges (Split (CHR '','') (TrimSpace rangeStr))"

datatype pair_error = PairRange range_error | NotInPairs

definition parseNumberRangePair :: "string \<Rightarrow> string \<Rightarrow> (pair_error, (int \<times> int) list) result option" where
  "parseNumberRangePair firstRangeStr secondRangeStr =
     (case ParseRangeNumbers firstRangeStr of None \<Rightarrow> None
      | Some (Inl e) \<Rightarrow> Some (Inl (PairRange e))
      | Some (Inr xs) \<Rightarrow>
          (case ParseRangeNumbers secondRangeStr of None \<Rightarrow> None
           | Some (Inl e) \<Rightarrow> Some (Inl (PairRange e))
           | Some (Inr ys) \<Rightarrow> Some (if length xs \<noteq> length ys then Inl NotInPairs else Inr (zip xs ys))))"

section \<open>Round trips\<close>

lemma TrimSpace_idem [simp]: "TrimSpace (TrimSpace s) = TrimSpace s"
proof -
  define t where "t = dropWhile isSpace s"
  define u where "u = dropWhile isSpace (rev t)"
  have u: "u = [] \<or> \<not> isSpace (hd u)" unfolding u_def using hd_dropWhile by blast
  have l: "rev u = [] \<or> \<not> isSpace (hd (rev u))"
  proof (cases u rule: rev_cases)
    case (snoc us x)
    then have "rev t = takeWhile isSpace (rev t) @ us @ [x]" unfolding u_def by (metis takeWhile_dropWhile_id)
    then have "t = x # rev us @ rev (takeWhile isSpace (rev t))" by (metis rev_append rev_rev_ident rev_singleton_conv append_Cons append_Nil append_assoc)
    then have "hd t = x" "t \<noteq> []" by (metis list.sel(1), metis list.distinct(1))
    then have "\<not> isSpace x" unfolding t_def using hd_dropWhile by blast
    then show ?thesis using snoc by simp
  qed simp
  have d: "dropWhile isSpace xs = xs" if "xs = [] \<or> \<not> isSpace (hd xs)" for xs using that by (cases xs) auto
  have "TrimSpace s = rev u" by (simp add: TrimSpace_def t_def u_def)
  then show ?thesis using d [OF l] d [OF u] by (simp add: TrimSpace_def)
qed

text \<open>A bandwidth read from text can be written and read again; this is what the server does with what the client sends.\<close>

definition bandwidth_ok :: "(string \<Rightarrow> int \<Rightarrow> int option) \<Rightarrow> BandwidthQuantity \<Rightarrow> bool" where
  "bandwidth_ok toBytes q \<longleftrightarrow> NewBandwidthQuantity toBytes (bqString q) = (None, q)"

lemma bandwidth_ok_zero: "bandwidth_ok toBytes zeroBandwidth"
  by (simp add: bandwidth_ok_def NewBandwidthQuantity_def UnmarshalString_def zeroBandwidth_def bqString_def TrimSpace_def Let_def)

lemma bandwidth_ok_read:
  assumes "NewBandwidthQuantity toBytes s = (None, q)"
  shows "bandwidth_ok toBytes q"
proof (cases "TrimSpace s = ''''")
  case True
  then have "q = zeroBandwidth" using assms by (simp add: NewBandwidthQuantity_def UnmarshalString_def)
  then show ?thesis by (simp add: bandwidth_ok_zero)
next
  case False
  then have "bq_s q = TrimSpace s"
    using assms by (auto simp: NewBandwidthQuantity_def UnmarshalString_def Let_def split: option.splits)
  then show ?thesis using assms by (simp add: bandwidth_ok_def bqString_def NewBandwidthQuantity_def UnmarshalString_def)
qed

text \<open>Which ranges have a text form: single ports above zero, and ranges in order with nonnegative bounds.\<close>

definition range_ok :: "PortsRange \<Rightarrow> bool" where
  "range_ok r \<longleftrightarrow>
     (if pr_Single r > 0 then pr_Start r = 0 \<and> pr_End r = 0 \<and> pr_Single r < 2 ^ 63
      else pr_Single r = 0 \<and> 0 \<le> pr_Start r \<and> pr_Start r \<le> pr_End r \<and> pr_End r < 2 ^ 63)"

lemma Itoa_chars: "0 \<le> n \<Longrightarrow> c \<in> set (Itoa n) \<Longrightarrow> isDigit c"
  using natDigits_digit by (auto simp: Itoa_def)

lemma digit_plain: "isDigit c \<Longrightarrow> c \<noteq> CHR '','' \<and> c \<noteq> CHR ''-'' \<and> \<not> isSpace c"
  by (auto simp: isDigit_def isSpace_def)

lemma Itoa_plain: "0 \<le> n \<Longrightarrow> CHR '','' \<notin> set (Itoa n) \<and> CHR ''-'' \<notin> set (Itoa n)"
  using Itoa_chars digit_plain by blast

lemma parseNumber_Itoa: "0 \<le> n \<Longrightarrow> n < 2 ^ 63 \<Longrightarrow> parseNumber (Itoa n) = Inr n"
proof -
  assume n: "0 \<le> n" "n < 2 ^ 63"
  have "TrimSpace (Itoa n) = Itoa n" using Itoa_chars [OF n(1)] digit_plain by (intro TrimSpace_id) blast
  moreover have "ParseInt (Itoa n) = Some n" using n by (intro ParseInt_Itoa) (simp add: int64_def)
  ultimately show ?thesis by (simp add: parseNumber_def)
qed

lemma parseRange_rangeString: "range_ok r \<Longrightarrow> \<exists>x. parseRange (rangeString r) = Inr x \<and> toPortsRange x = r"
proof -
  assume r: "range_ok r"
  show ?thesis
  proof (cases "pr_Single r > 0")
    case True
    then show ?thesis using r Itoa_plain [of "pr_Single r"]
      by (simp add: range_ok_def rangeString_def parseRange_def Split_no_sep parseNumber_Itoa toPortsRange_def)
  next
    case False
    then show ?thesis using r Itoa_plain [of "pr_Start r"] Itoa_plain [of "pr_End r"]
      by (simp add: range_ok_def rangeString_def parseRange_def Split_append_sep Split_no_sep parseNumber_Itoa toPortsRange_def)
  qed
qed

lemma parseRanges_rangeString:
  "\<forall>r \<in> set rs. range_ok r \<Longrightarrow> \<exists>xs. parseRanges (map rangeString rs) = Inr xs \<and> map toPortsRange xs = rs"
proof (induction rs)
  case (Cons r rs)
  then obtain x xs where "parseRange (rangeString r) = Inr x" "toPortsRange x = r"
    "parseRanges (map rangeString rs) = Inr xs" "map toPortsRange xs = rs"
    using parseRange_rangeString [of r] by auto
  then show ?case by simp
qed simp

lemma rangeString_plain:
  "range_ok r \<Longrightarrow> CHR '','' \<notin> set (rangeString r) \<and> (\<forall>c \<in> set (rangeString r). \<not> isSpace c)"
proof -
  assume r: "range_ok r"
  have "0 \<le> pr_Single r" "\<not> pr_Single r > 0 \<Longrightarrow> 0 \<le> pr_Start r \<and> 0 \<le> pr_End r" using r by (auto simp: range_ok_def split: if_splits)
  then have "isDigit c \<or> c = CHR ''-''" if "c \<in> set (rangeString r)" for c
    using that Itoa_chars [of "pr_Single r" c] Itoa_chars [of "pr_Start r" c] Itoa_chars [of "pr_End r" c]
    by (auto simp: rangeString_def split: if_splits)
  moreover have "\<not> isSpace (CHR ''-'')" by (simp add: isSpace_def)
  moreover have "CHR '','' \<noteq> CHR ''-''" by simp
  ultimately show ?thesis using digit_plain by blast
qed

lemma set_Join: "set (Join c ss) \<subseteq> insert c (\<Union> (set ` set ss))"
  by (induction c ss rule: Join.induct) auto

text \<open>The flag for the allowed ports. Its text form reads back as the same ranges, so that what the program shows for
  the setting and what it accepts for it agree; the ports a manager then offers are those the ranges name.\<close>

theorem ports_text_roundtrip:
  assumes "p \<noteq> []" "\<forall>r \<in> set p. range_ok r"
  shows "NewPortsRangeSliceFromString (PortsRangeSlice_String p) = Inr p \<and>
    pm_freePorts (newManagerWithClock (legacyAllowPorts (PortsRangeSlice_String p))) = (\<Union>r \<in> set p. rangePorts r)"
proof -
  have sp: "\<not> isSpace (CHR '','')" by (simp add: isSpace_def)
  have "TrimSpace (Join (CHR '','') (map rangeString p)) = Join (CHR '','') (map rangeString p)"
    using set_Join [of "CHR '',''" "map rangeString p"] rangeString_plain assms(2) sp by (intro TrimSpace_id) force
  moreover have "Split (CHR '','') (Join (CHR '','') (map rangeString p)) = map rangeString p"
    using assms rangeString_plain by (intro Split_Join) auto
  ultimately have r: "NewPortsRangeSliceFromString (PortsRangeSlice_String p) = Inr p"
    using parseRanges_rangeString [OF assms(2)] assms(1) by (auto simp: NewPortsRangeSliceFromString_def PortsRangeSlice_String_def)
  have add: "addRanges rs free = free \<union> (\<Union>r \<in> set rs. rangePorts r)" for rs free
    by (induction rs arbitrary: free) auto
  show ?thesis using r assms(1) by (simp add: legacyAllowPorts_def newManagerWithClock_def allowedPorts_def add)
qed

theorem ports_text_roundtrip_witness:
  "NewPortsRangeSliceFromString (PortsRangeSlice_String [\<lparr>pr_Start = 1000, pr_End = 2000, pr_Single = 0\<rparr>, \<lparr>pr_Start = 0, pr_End = 0, pr_Single = 80\<rparr>])
     = Inr [\<lparr>pr_Start = 1000, pr_End = 2000, pr_Single = 0\<rparr>, \<lparr>pr_Start = 0, pr_End = 0, pr_Single = 80\<rparr>]"
  using ports_text_roundtrip [of "[\<lparr>pr_Start = 1000, pr_End = 2000, pr_Single = 0\<rparr>, \<lparr>pr_Start = 0, pr_End = 0, pr_Single = 80\<rparr>]"]
  by (simp add: range_ok_def)

text \<open>An old configuration file whose \<open>allow_ports\<close> cannot be read opens every port.\<close>

lemma legacy_allow_ports_open:
  "NewPortsRangeSliceFromString str = Inl e \<Longrightarrow> pm_freePorts (newManagerWithClock (legacyAllowPorts str)) = {MinPort .. MaxPort}"
  by (simp add: legacyAllowPorts_def newManagerWithClock_def allowedPorts_def)

text \<open>The numbers of the template functions are those the ranges name, in the order of the text.\<close>

lemma expandRanges_numbers:
  "expandRanges ss = Some (Inr ns) \<Longrightarrow> \<exists>rs. parseRanges ss = Inr rs \<and>
     ns = concat (map (\<lambda>r. case r of SingleNumber n \<Rightarrow> [n] | NumberRange a b \<Rightarrow> [a..b]) rs)"
  by (induction ss arbitrary: ns)
    (force simp: rangeNumbers_def split: sum.splits option.splits number_range.splits if_splits)+

end
