(* ===== verification/Proxy_Config.thy ===== *)
theory Proxy_Config
  imports Config_Types Client_Proxies
begin

text \<open>
  Proxy configurations (\<open>pkg/config/v1/proxy.go\<close>, \<open>proxy_plugin.go\<close>), the message a client sends for one
  (\<open>msg.NewProxy\<close>), and the configuration the server builds from it (\<open>config.NewProxyConfigurerFromMsg\<close>). A Go map of strings
  is a list of pairs; \<open>nil\<close> and empty slices and maps are not told apart.
\<close>

type_synonym string_map = "(string \<times> string) list"

definition EmptyOr :: "'a \<Rightarrow> 'a \<Rightarrow> 'a \<Rightarrow> 'a" where
  "EmptyOr zero v fallback = (if v = zero then fallback else v)"

section \<open>Plugins\<close>

record plugin_http =
  pl_LocalAddr :: string
  pl_HostHeaderRewrite :: string
  pl_RequestHeaders :: string_map

record plugin_https = plugin_http +
  pl_EnableHTTP2 :: "bool option"
  pl_CrtPath :: string
  pl_KeyPath :: string

datatype ClientPluginOptions =
    HTTP2HTTPSPluginOptions plugin_http
  | HTTPProxyPluginOptions string string
  | HTTPS2HTTPPluginOptions plugin_https
  | HTTPS2HTTPSPluginOptions plugin_https
  | HTTP2HTTPPluginOptions plugin_http
  | Socks5PluginOptions string string
  | StaticFilePluginOptions (pl_LocalPath: string) (pl_StripPrefix: string) (pl_User: string) (pl_Password: string)
  | UnixDomainSocketPluginOptions (pl_UnixPath: string)
  | TLS2RawPluginOptions (pl_RawAddr: string) (pl_RawCrtPath: string) (pl_RawKeyPath: string)
  | VirtualNetPluginOptions

definition http2Default :: "plugin_https \<Rightarrow> plugin_https" where
  "http2Default p = p\<lparr>pl_EnableHTTP2 := EmptyOr None (pl_EnableHTTP2 p) (Some True)\<rparr>"

fun pluginComplete :: "ClientPluginOptions \<Rightarrow> ClientPluginOptions" where
  "pluginComplete (HTTPS2HTTPPluginOptions p) = HTTPS2HTTPPluginOptions (http2Default p)"
| "pluginComplete (HTTPS2HTTPSPluginOptions p) = HTTPS2HTTPSPluginOptions (http2Default p)"
| "pluginComplete p = p"

section \<open>Configurations\<close>

record ProxyTransport =
  UseEncryption :: bool
  UseCompression :: bool
  BandwidthLimit :: BandwidthQuantity
  BandwidthLimitMode :: string
  ProxyProtocolVersion :: string

record LoadBalancerConfig =
  lb_Group :: string
  lb_GroupKey :: string

record ProxyBaseConfig =
  pb_Name :: string
  pb_Type :: string
  pb_Enabled :: "bool option"
  pb_Annotations :: string_map
  pb_Transport :: ProxyTransport
  pb_Metadatas :: string_map
  pb_LoadBalancer :: LoadBalancerConfig
  pb_HealthCheck :: HealthCheckConfig
  pb_LocalIP :: string
  pb_LocalPort :: int
  pb_PluginType :: string
  pb_Plugin :: "ClientPluginOptions option"

record DomainConfig =
  CustomDomains :: "string list"
  SubDomain :: string

record http_options =
  ho_Locations :: "string list"
  ho_HTTPUser :: string
  ho_HTTPPassword :: string
  ho_HostHeaderRewrite :: string
  ho_RequestHeaders :: string_map
  ho_ResponseHeaders :: string_map
  ho_RouteByHTTPUser :: string

record mux_options =
  mo_HTTPUser :: string
  mo_HTTPPassword :: string
  mo_RouteByHTTPUser :: string
  mo_Multiplexer :: string

record secret_options =
  Secretkey :: string
  AllowUsers :: "string list"

text \<open>The \<open>NatTraversal\<close> pointer is the option of its only field.\<close>

datatype ProxyConfigurer =
    TCPProxyConfig ProxyBaseConfig (RemotePort: int)
  | UDPProxyConfig ProxyBaseConfig (RemotePort: int)
  | TCPUDPProxyConfig ProxyBaseConfig (RemotePort: int) (LocalPortUDP: int)
  | HTTPProxyConfig ProxyBaseConfig (Domains: DomainConfig) http_options
  | HTTPSProxyConfig ProxyBaseConfig (Domains: DomainConfig)
  | MCProxyConfig ProxyBaseConfig (Domains: DomainConfig) (RemotePort: int)
  | PEProxyConfig ProxyBaseConfig (RemotePort: int) (ForcedHosts: string_map)
  | TCPMuxProxyConfig ProxyBaseConfig (Domains: DomainConfig) mux_options
  | STCPProxyConfig ProxyBaseConfig secret_options
  | XTCPProxyConfig ProxyBaseConfig secret_options "bool option"
  | XUDPProxyConfig ProxyBaseConfig secret_options "bool option"
  | XTCPXUDPProxyConfig ProxyBaseConfig secret_options (LocalPortUDP: int) "bool option"
  | SUDPProxyConfig ProxyBaseConfig secret_options
  | STCPSUDPProxyConfig ProxyBaseConfig secret_options (LocalPortUDP: int)

fun GetBaseConfig :: "ProxyConfigurer \<Rightarrow> ProxyBaseConfig" where
  "GetBaseConfig (TCPProxyConfig b _) = b"
| "GetBaseConfig (UDPProxyConfig b _) = b"
| "GetBaseConfig (TCPUDPProxyConfig b _ _) = b"
| "GetBaseConfig (HTTPProxyConfig b _ _) = b"
| "GetBaseConfig (HTTPSProxyConfig b _) = b"
| "GetBaseConfig (MCProxyConfig b _ _) = b"
| "GetBaseConfig (PEProxyConfig b _ _) = b"
| "GetBaseConfig (TCPMuxProxyConfig b _ _) = b"
| "GetBaseConfig (STCPProxyConfig b _) = b"
| "GetBaseConfig (XTCPProxyConfig b _ _) = b"
| "GetBaseConfig (XUDPProxyConfig b _ _) = b"
| "GetBaseConfig (XTCPXUDPProxyConfig b _ _ _) = b"
| "GetBaseConfig (SUDPProxyConfig b _) = b"
| "GetBaseConfig (STCPSUDPProxyConfig b _ _) = b"

text \<open>An update through the pointer \<open>GetBaseConfig\<close> returns.\<close>

fun mapBase :: "(ProxyBaseConfig \<Rightarrow> ProxyBaseConfig) \<Rightarrow> ProxyConfigurer \<Rightarrow> ProxyConfigurer" where
  "mapBase f (TCPProxyConfig b p) = TCPProxyConfig (f b) p"
| "mapBase f (UDPProxyConfig b p) = UDPProxyConfig (f b) p"
| "mapBase f (TCPUDPProxyConfig b p l) = TCPUDPProxyConfig (f b) p l"
| "mapBase f (HTTPProxyConfig b d h) = HTTPProxyConfig (f b) d h"
| "mapBase f (HTTPSProxyConfig b d) = HTTPSProxyConfig (f b) d"
| "mapBase f (MCProxyConfig b d p) = MCProxyConfig (f b) d p"
| "mapBase f (PEProxyConfig b p h) = PEProxyConfig (f b) p h"
| "mapBase f (TCPMuxProxyConfig b d m) = TCPMuxProxyConfig (f b) d m"
| "mapBase f (STCPProxyConfig b s) = STCPProxyConfig (f b) s"
| "mapBase f (XTCPProxyConfig b s n) = XTCPProxyConfig (f b) s n"
| "mapBase f (XUDPProxyConfig b s n) = XUDPProxyConfig (f b) s n"
| "mapBase f (XTCPXUDPProxyConfig b s l n) = XTCPXUDPProxyConfig (f b) s l n"
| "mapBase f (SUDPProxyConfig b s) = SUDPProxyConfig (f b) s"
| "mapBase f (STCPSUDPProxyConfig b s l) = STCPSUDPProxyConfig (f b) s l"

definition baseComplete :: "ProxyBaseConfig \<Rightarrow> ProxyBaseConfig" where
  "baseComplete c =
     c\<lparr>pb_LocalIP := EmptyOr '''' (pb_LocalIP c) ''127.0.0.1'',
       pb_Transport := (pb_Transport c)\<lparr>BandwidthLimitMode := EmptyOr '''' (BandwidthLimitMode (pb_Transport c)) ''client''\<rparr>,
       pb_Plugin := map_option pluginComplete (pb_Plugin c)\<rparr>"

definition Complete :: "ProxyConfigurer \<Rightarrow> ProxyConfigurer" where
  "Complete c = mapBase baseComplete c"

section \<open>Types\<close>

definition zeroTransport :: ProxyTransport where
  "zeroTransport = \<lparr>UseEncryption = False, UseCompression = False, BandwidthLimit = zeroBandwidth, BandwidthLimitMode = '''',
     ProxyProtocolVersion = ''''\<rparr>"

definition zeroHealth :: HealthCheckConfig where
  "zeroHealth = \<lparr>hcType = '''', hcInterval = 0, hcTimeout = 0, hcMaxFailed = 0, hcPath = '''', hcHTTPHeaders = []\<rparr>"

definition zeroBase :: "string \<Rightarrow> ProxyBaseConfig" where
  "zeroBase t =
     \<lparr>pb_Name = '''', pb_Type = t, pb_Enabled = None, pb_Annotations = [], pb_Transport = zeroTransport, pb_Metadatas = [],
      pb_LoadBalancer = \<lparr>lb_Group = '''', lb_GroupKey = ''''\<rparr>, pb_HealthCheck = zeroHealth, pb_LocalIP = '''', pb_LocalPort = 0,
      pb_PluginType = '''', pb_Plugin = None\<rparr>"

definition zeroDomains :: DomainConfig where
  "zeroDomains = \<lparr>CustomDomains = [], SubDomain = ''''\<rparr>"

definition zeroHTTP :: http_options where
  "zeroHTTP = \<lparr>ho_Locations = [], ho_HTTPUser = '''', ho_HTTPPassword = '''', ho_HostHeaderRewrite = '''', ho_RequestHeaders = [],
     ho_ResponseHeaders = [], ho_RouteByHTTPUser = ''''\<rparr>"

definition zeroMux :: mux_options where
  "zeroMux = \<lparr>mo_HTTPUser = '''', mo_HTTPPassword = '''', mo_RouteByHTTPUser = '''', mo_Multiplexer = ''''\<rparr>"

definition zeroSecret :: secret_options where
  "zeroSecret = \<lparr>Secretkey = '''', AllowUsers = []\<rparr>"

definition proxyConfigTypeMap :: "(string \<times> (ProxyBaseConfig \<Rightarrow> ProxyConfigurer)) list" where
  "proxyConfigTypeMap =
     [(''tcp'', \<lambda>b. TCPProxyConfig b 0),
      (''udp'', \<lambda>b. UDPProxyConfig b 0),
      (''http'', \<lambda>b. HTTPProxyConfig b zeroDomains zeroHTTP),
      (''https'', \<lambda>b. HTTPSProxyConfig b zeroDomains),
      (''tcpmux'', \<lambda>b. TCPMuxProxyConfig b zeroDomains zeroMux),
      (''stcp'', \<lambda>b. STCPProxyConfig b zeroSecret),
      (''xtcp'', \<lambda>b. XTCPProxyConfig b zeroSecret None),
      (''sudp'', \<lambda>b. SUDPProxyConfig b zeroSecret),
      (''xudp'', \<lambda>b. XUDPProxyConfig b zeroSecret None),
      (''tcp+udp'', \<lambda>b. TCPUDPProxyConfig b 0 0),
      (''stcp+sudp'', \<lambda>b. STCPSUDPProxyConfig b zeroSecret 0),
      (''xtcp+xudp'', \<lambda>b. XTCPXUDPProxyConfig b zeroSecret 0 None),
      (''mc'', \<lambda>b. MCProxyConfig b zeroDomains 0),
      (''pe'', \<lambda>b. PEProxyConfig b 0 [])]"

definition NewProxyConfigurerByType :: "string \<Rightarrow> ProxyConfigurer option" where
  "NewProxyConfigurerByType t = map_option (\<lambda>v. v (zeroBase t)) (map_of proxyConfigTypeMap t)"

section \<open>The message\<close>

record NewProxyMsg =
  np_ProxyName :: string
  np_ProxyType :: string
  np_UseEncryption :: bool
  np_UseCompression :: bool
  np_BandwidthLimit :: string
  np_BandwidthLimitMode :: string
  np_Group :: string
  np_GroupKey :: string
  np_Metas :: string_map
  np_Annotations :: string_map
  np_RemotePort :: int
  np_CustomDomains :: "string list"
  np_SubDomain :: string
  np_Locations :: "string list"
  np_HTTPUser :: string
  np_HTTPPwd :: string
  np_HostHeaderRewrite :: string
  np_Headers :: string_map
  np_ResponseHeaders :: string_map
  np_RouteByHTTPUser :: string
  np_Sk :: string
  np_AllowUsers :: "string list"
  np_Multiplexer :: string

definition emptyNewProxy :: NewProxyMsg where
  "emptyNewProxy =
     \<lparr>np_ProxyName = '''', np_ProxyType = '''', np_UseEncryption = False, np_UseCompression = False, np_BandwidthLimit = '''',
      np_BandwidthLimitMode = '''', np_Group = '''', np_GroupKey = '''', np_Metas = [], np_Annotations = [], np_RemotePort = 0,
      np_CustomDomains = [], np_SubDomain = '''', np_Locations = [], np_HTTPUser = '''', np_HTTPPwd = '''',
      np_HostHeaderRewrite = '''', np_Headers = [], np_ResponseHeaders = [], np_RouteByHTTPUser = '''', np_Sk = '''',
      np_AllowUsers = [], np_Multiplexer = ''''\<rparr>"

definition baseMarshal :: "ProxyBaseConfig \<Rightarrow> NewProxyMsg \<Rightarrow> NewProxyMsg" where
  "baseMarshal c m =
     m\<lparr>np_ProxyName := pb_Name c, np_ProxyType := pb_Type c, np_UseEncryption := UseEncryption (pb_Transport c),
       np_UseCompression := UseCompression (pb_Transport c), np_BandwidthLimit := bqString (BandwidthLimit (pb_Transport c)),
       np_BandwidthLimitMode :=
         (if BandwidthLimitMode (pb_Transport c) \<noteq> ''client'' then BandwidthLimitMode (pb_Transport c) else np_BandwidthLimitMode m),
       np_Group := lb_Group (pb_LoadBalancer c), np_GroupKey := lb_GroupKey (pb_LoadBalancer c),
       np_Metas := pb_Metadatas c, np_Annotations := pb_Annotations c\<rparr>"

definition domainMarshal :: "DomainConfig \<Rightarrow> NewProxyMsg \<Rightarrow> NewProxyMsg" where
  "domainMarshal d m = m\<lparr>np_CustomDomains := CustomDomains d, np_SubDomain := SubDomain d\<rparr>"

definition secretMarshal :: "secret_options \<Rightarrow> NewProxyMsg \<Rightarrow> NewProxyMsg" where
  "secretMarshal s m = m\<lparr>np_Sk := Secretkey s, np_AllowUsers := AllowUsers s\<rparr>"

definition httpMarshal :: "http_options \<Rightarrow> NewProxyMsg \<Rightarrow> NewProxyMsg" where
  "httpMarshal h m =
     m\<lparr>np_Locations := ho_Locations h, np_HostHeaderRewrite := ho_HostHeaderRewrite h, np_HTTPUser := ho_HTTPUser h,
       np_HTTPPwd := ho_HTTPPassword h, np_Headers := ho_RequestHeaders h, np_ResponseHeaders := ho_ResponseHeaders h,
       np_RouteByHTTPUser := ho_RouteByHTTPUser h\<rparr>"

definition muxMarshal :: "mux_options \<Rightarrow> NewProxyMsg \<Rightarrow> NewProxyMsg" where
  "muxMarshal x m =
     m\<lparr>np_Multiplexer := mo_Multiplexer x, np_HTTPUser := mo_HTTPUser x, np_HTTPPwd := mo_HTTPPassword x,
       np_RouteByHTTPUser := mo_RouteByHTTPUser x\<rparr>"

definition TCP_MarshalToMsg :: "ProxyBaseConfig \<Rightarrow> int \<Rightarrow> NewProxyMsg \<Rightarrow> NewProxyMsg" where
  "TCP_MarshalToMsg b p m = (baseMarshal b m)\<lparr>np_RemotePort := p\<rparr>"

definition UDP_MarshalToMsg :: "ProxyBaseConfig \<Rightarrow> int \<Rightarrow> NewProxyMsg \<Rightarrow> NewProxyMsg" where
  "UDP_MarshalToMsg b p m = (baseMarshal b m)\<lparr>np_RemotePort := p\<rparr>"

definition TCPUDP_MarshalToMsg :: "ProxyBaseConfig \<Rightarrow> int \<Rightarrow> NewProxyMsg \<Rightarrow> NewProxyMsg" where
  "TCPUDP_MarshalToMsg b p m = (baseMarshal b m)\<lparr>np_RemotePort := p\<rparr>"

definition HTTP_MarshalToMsg :: "ProxyBaseConfig \<Rightarrow> DomainConfig \<Rightarrow> http_options \<Rightarrow> NewProxyMsg \<Rightarrow> NewProxyMsg" where
  "HTTP_MarshalToMsg b d h m = httpMarshal h (domainMarshal d (baseMarshal b m))"

definition HTTPS_MarshalToMsg :: "ProxyBaseConfig \<Rightarrow> DomainConfig \<Rightarrow> NewProxyMsg \<Rightarrow> NewProxyMsg" where
  "HTTPS_MarshalToMsg b d m = domainMarshal d (baseMarshal b m)"

definition MC_MarshalToMsg :: "ProxyBaseConfig \<Rightarrow> DomainConfig \<Rightarrow> int \<Rightarrow> NewProxyMsg \<Rightarrow> NewProxyMsg" where
  "MC_MarshalToMsg b d p m = (domainMarshal d (baseMarshal b m))\<lparr>np_RemotePort := p\<rparr>"

definition PE_MarshalToMsg :: "ProxyBaseConfig \<Rightarrow> int \<Rightarrow> NewProxyMsg \<Rightarrow> NewProxyMsg" where
  "PE_MarshalToMsg b p m = (baseMarshal b m)\<lparr>np_RemotePort := p\<rparr>"

definition TCPMux_MarshalToMsg :: "ProxyBaseConfig \<Rightarrow> DomainConfig \<Rightarrow> mux_options \<Rightarrow> NewProxyMsg \<Rightarrow> NewProxyMsg" where
  "TCPMux_MarshalToMsg b d x m = muxMarshal x (domainMarshal d (baseMarshal b m))"

definition STCP_MarshalToMsg :: "ProxyBaseConfig \<Rightarrow> secret_options \<Rightarrow> NewProxyMsg \<Rightarrow> NewProxyMsg" where
  "STCP_MarshalToMsg b s m = secretMarshal s (baseMarshal b m)"

definition XTCP_MarshalToMsg :: "ProxyBaseConfig \<Rightarrow> secret_options \<Rightarrow> NewProxyMsg \<Rightarrow> NewProxyMsg" where
  "XTCP_MarshalToMsg b s m = secretMarshal s (baseMarshal b m)"

definition XUDP_MarshalToMsg :: "ProxyBaseConfig \<Rightarrow> secret_options \<Rightarrow> NewProxyMsg \<Rightarrow> NewProxyMsg" where
  "XUDP_MarshalToMsg b s m = secretMarshal s (baseMarshal b m)"

definition XTCPXUDP_MarshalToMsg :: "ProxyBaseConfig \<Rightarrow> secret_options \<Rightarrow> NewProxyMsg \<Rightarrow> NewProxyMsg" where
  "XTCPXUDP_MarshalToMsg b s m = secretMarshal s (baseMarshal b m)"

definition SUDP_MarshalToMsg :: "ProxyBaseConfig \<Rightarrow> secret_options \<Rightarrow> NewProxyMsg \<Rightarrow> NewProxyMsg" where
  "SUDP_MarshalToMsg b s m = secretMarshal s (baseMarshal b m)"

definition STCPSUDP_MarshalToMsg :: "ProxyBaseConfig \<Rightarrow> secret_options \<Rightarrow> NewProxyMsg \<Rightarrow> NewProxyMsg" where
  "STCPSUDP_MarshalToMsg b s m = secretMarshal s (baseMarshal b m)"

fun MarshalToMsg :: "ProxyConfigurer \<Rightarrow> NewProxyMsg \<Rightarrow> NewProxyMsg" where
  "MarshalToMsg (TCPProxyConfig b p) m = TCP_MarshalToMsg b p m"
| "MarshalToMsg (UDPProxyConfig b p) m = UDP_MarshalToMsg b p m"
| "MarshalToMsg (TCPUDPProxyConfig b p l) m = TCPUDP_MarshalToMsg b p m"
| "MarshalToMsg (HTTPProxyConfig b d h) m = HTTP_MarshalToMsg b d h m"
| "MarshalToMsg (HTTPSProxyConfig b d) m = HTTPS_MarshalToMsg b d m"
| "MarshalToMsg (MCProxyConfig b d p) m = MC_MarshalToMsg b d p m"
| "MarshalToMsg (PEProxyConfig b p h) m = PE_MarshalToMsg b p m"
| "MarshalToMsg (TCPMuxProxyConfig b d x) m = TCPMux_MarshalToMsg b d x m"
| "MarshalToMsg (STCPProxyConfig b s) m = STCP_MarshalToMsg b s m"
| "MarshalToMsg (XTCPProxyConfig b s n) m = XTCP_MarshalToMsg b s m"
| "MarshalToMsg (XUDPProxyConfig b s n) m = XUDP_MarshalToMsg b s m"
| "MarshalToMsg (XTCPXUDPProxyConfig b s l n) m = XTCPXUDP_MarshalToMsg b s m"
| "MarshalToMsg (SUDPProxyConfig b s) m = SUDP_MarshalToMsg b s m"
| "MarshalToMsg (STCPSUDPProxyConfig b s l) m = STCPSUDP_MarshalToMsg b s m"

text \<open>The message the client's wrapper sends when it starts a proxy.\<close>

definition startMsg :: "string \<Rightarrow> ProxyConfigurer \<Rightarrow> NewProxyMsg" where
  "startMsg wire c = (MarshalToMsg c emptyNewProxy)\<lparr>np_ProxyName := wire\<rparr>"

definition baseUnmarshal :: "(string \<Rightarrow> int \<Rightarrow> int option) \<Rightarrow> NewProxyMsg \<Rightarrow> ProxyBaseConfig \<Rightarrow> ProxyBaseConfig" where
  "baseUnmarshal toBytes m c =
     c\<lparr>pb_Name := np_ProxyName m, pb_Type := np_ProxyType m,
       pb_Transport := (pb_Transport c)
         \<lparr>UseEncryption := np_UseEncryption m, UseCompression := np_UseCompression m,
          BandwidthLimit :=
            (if np_BandwidthLimit m \<noteq> '''' then snd (NewBandwidthQuantity toBytes (np_BandwidthLimit m)) else BandwidthLimit (pb_Transport c)),
          BandwidthLimitMode :=
            (if np_BandwidthLimitMode m \<noteq> '''' then np_BandwidthLimitMode m else BandwidthLimitMode (pb_Transport c))\<rparr>,
       pb_LoadBalancer := \<lparr>lb_Group = np_Group m, lb_GroupKey = np_GroupKey m\<rparr>,
       pb_Metadatas := np_Metas m, pb_Annotations := np_Annotations m\<rparr>"

definition domainUnmarshal :: "NewProxyMsg \<Rightarrow> DomainConfig" where
  "domainUnmarshal m = \<lparr>CustomDomains = np_CustomDomains m, SubDomain = np_SubDomain m\<rparr>"

definition secretUnmarshal :: "NewProxyMsg \<Rightarrow> secret_options" where
  "secretUnmarshal m = \<lparr>Secretkey = np_Sk m, AllowUsers = np_AllowUsers m\<rparr>"

definition httpUnmarshal :: "NewProxyMsg \<Rightarrow> http_options" where
  "httpUnmarshal m =
     \<lparr>ho_Locations = np_Locations m, ho_HTTPUser = np_HTTPUser m, ho_HTTPPassword = np_HTTPPwd m,
      ho_HostHeaderRewrite = np_HostHeaderRewrite m, ho_RequestHeaders = np_Headers m, ho_ResponseHeaders = np_ResponseHeaders m,
      ho_RouteByHTTPUser = np_RouteByHTTPUser m\<rparr>"

definition muxUnmarshal :: "NewProxyMsg \<Rightarrow> mux_options" where
  "muxUnmarshal m =
     \<lparr>mo_HTTPUser = np_HTTPUser m, mo_HTTPPassword = np_HTTPPwd m, mo_RouteByHTTPUser = np_RouteByHTTPUser m,
      mo_Multiplexer = np_Multiplexer m\<rparr>"

definition TCP_UnmarshalFromMsg :: "(string \<Rightarrow> int \<Rightarrow> int option) \<Rightarrow> NewProxyMsg \<Rightarrow> ProxyBaseConfig \<Rightarrow> ProxyConfigurer" where
  "TCP_UnmarshalFromMsg tb m b = TCPProxyConfig (baseUnmarshal tb m b) (np_RemotePort m)"

definition UDP_UnmarshalFromMsg :: "(string \<Rightarrow> int \<Rightarrow> int option) \<Rightarrow> NewProxyMsg \<Rightarrow> ProxyBaseConfig \<Rightarrow> ProxyConfigurer" where
  "UDP_UnmarshalFromMsg tb m b = UDPProxyConfig (baseUnmarshal tb m b) (np_RemotePort m)"

definition TCPUDP_UnmarshalFromMsg :: "(string \<Rightarrow> int \<Rightarrow> int option) \<Rightarrow> NewProxyMsg \<Rightarrow> ProxyBaseConfig \<Rightarrow> int \<Rightarrow> ProxyConfigurer" where
  "TCPUDP_UnmarshalFromMsg tb m b l = TCPUDPProxyConfig (baseUnmarshal tb m b) (np_RemotePort m) l"

definition HTTP_UnmarshalFromMsg :: "(string \<Rightarrow> int \<Rightarrow> int option) \<Rightarrow> NewProxyMsg \<Rightarrow> ProxyBaseConfig \<Rightarrow> ProxyConfigurer" where
  "HTTP_UnmarshalFromMsg tb m b = HTTPProxyConfig (baseUnmarshal tb m b) (domainUnmarshal m) (httpUnmarshal m)"

definition HTTPS_UnmarshalFromMsg :: "(string \<Rightarrow> int \<Rightarrow> int option) \<Rightarrow> NewProxyMsg \<Rightarrow> ProxyBaseConfig \<Rightarrow> ProxyConfigurer" where
  "HTTPS_UnmarshalFromMsg tb m b = HTTPSProxyConfig (baseUnmarshal tb m b) (domainUnmarshal m)"

definition MC_UnmarshalFromMsg :: "(string \<Rightarrow> int \<Rightarrow> int option) \<Rightarrow> NewProxyMsg \<Rightarrow> ProxyBaseConfig \<Rightarrow> ProxyConfigurer" where
  "MC_UnmarshalFromMsg tb m b = MCProxyConfig (baseUnmarshal tb m b) (domainUnmarshal m) (np_RemotePort m)"

definition PE_UnmarshalFromMsg :: "(string \<Rightarrow> int \<Rightarrow> int option) \<Rightarrow> NewProxyMsg \<Rightarrow> ProxyBaseConfig \<Rightarrow> string_map \<Rightarrow> ProxyConfigurer" where
  "PE_UnmarshalFromMsg tb m b h = PEProxyConfig (baseUnmarshal tb m b) (np_RemotePort m) h"

definition TCPMux_UnmarshalFromMsg :: "(string \<Rightarrow> int \<Rightarrow> int option) \<Rightarrow> NewProxyMsg \<Rightarrow> ProxyBaseConfig \<Rightarrow> ProxyConfigurer" where
  "TCPMux_UnmarshalFromMsg tb m b = TCPMuxProxyConfig (baseUnmarshal tb m b) (domainUnmarshal m) (muxUnmarshal m)"

definition STCP_UnmarshalFromMsg :: "(string \<Rightarrow> int \<Rightarrow> int option) \<Rightarrow> NewProxyMsg \<Rightarrow> ProxyBaseConfig \<Rightarrow> ProxyConfigurer" where
  "STCP_UnmarshalFromMsg tb m b = STCPProxyConfig (baseUnmarshal tb m b) (secretUnmarshal m)"

definition XTCP_UnmarshalFromMsg :: "(string \<Rightarrow> int \<Rightarrow> int option) \<Rightarrow> NewProxyMsg \<Rightarrow> ProxyBaseConfig \<Rightarrow> bool option \<Rightarrow> ProxyConfigurer" where
  "XTCP_UnmarshalFromMsg tb m b n = XTCPProxyConfig (baseUnmarshal tb m b) (secretUnmarshal m) n"

definition XUDP_UnmarshalFromMsg :: "(string \<Rightarrow> int \<Rightarrow> int option) \<Rightarrow> NewProxyMsg \<Rightarrow> ProxyBaseConfig \<Rightarrow> bool option \<Rightarrow> ProxyConfigurer" where
  "XUDP_UnmarshalFromMsg tb m b n = XUDPProxyConfig (baseUnmarshal tb m b) (secretUnmarshal m) n"

definition XTCPXUDP_UnmarshalFromMsg :: "(string \<Rightarrow> int \<Rightarrow> int option) \<Rightarrow> NewProxyMsg \<Rightarrow> ProxyBaseConfig \<Rightarrow> int \<Rightarrow> bool option \<Rightarrow> ProxyConfigurer" where
  "XTCPXUDP_UnmarshalFromMsg tb m b l n = XTCPXUDPProxyConfig (baseUnmarshal tb m b) (secretUnmarshal m) l n"

definition SUDP_UnmarshalFromMsg :: "(string \<Rightarrow> int \<Rightarrow> int option) \<Rightarrow> NewProxyMsg \<Rightarrow> ProxyBaseConfig \<Rightarrow> ProxyConfigurer" where
  "SUDP_UnmarshalFromMsg tb m b = SUDPProxyConfig (baseUnmarshal tb m b) (secretUnmarshal m)"

definition STCPSUDP_UnmarshalFromMsg :: "(string \<Rightarrow> int \<Rightarrow> int option) \<Rightarrow> NewProxyMsg \<Rightarrow> ProxyBaseConfig \<Rightarrow> int \<Rightarrow> ProxyConfigurer" where
  "STCPSUDP_UnmarshalFromMsg tb m b l = STCPSUDPProxyConfig (baseUnmarshal tb m b) (secretUnmarshal m) l"

fun UnmarshalFromMsg :: "(string \<Rightarrow> int \<Rightarrow> int option) \<Rightarrow> NewProxyMsg \<Rightarrow> ProxyConfigurer \<Rightarrow> ProxyConfigurer" where
  "UnmarshalFromMsg tb m (TCPProxyConfig b _) = TCP_UnmarshalFromMsg tb m b"
| "UnmarshalFromMsg tb m (UDPProxyConfig b _) = UDP_UnmarshalFromMsg tb m b"
| "UnmarshalFromMsg tb m (TCPUDPProxyConfig b _ l) = TCPUDP_UnmarshalFromMsg tb m b l"
| "UnmarshalFromMsg tb m (HTTPProxyConfig b _ _) = HTTP_UnmarshalFromMsg tb m b"
| "UnmarshalFromMsg tb m (HTTPSProxyConfig b _) = HTTPS_UnmarshalFromMsg tb m b"
| "UnmarshalFromMsg tb m (MCProxyConfig b _ _) = MC_UnmarshalFromMsg tb m b"
| "UnmarshalFromMsg tb m (PEProxyConfig b _ h) = PE_UnmarshalFromMsg tb m b h"
| "UnmarshalFromMsg tb m (TCPMuxProxyConfig b _ _) = TCPMux_UnmarshalFromMsg tb m b"
| "UnmarshalFromMsg tb m (STCPProxyConfig b _) = STCP_UnmarshalFromMsg tb m b"
| "UnmarshalFromMsg tb m (XTCPProxyConfig b _ n) = XTCP_UnmarshalFromMsg tb m b n"
| "UnmarshalFromMsg tb m (XUDPProxyConfig b _ n) = XUDP_UnmarshalFromMsg tb m b n"
| "UnmarshalFromMsg tb m (XTCPXUDPProxyConfig b _ l n) = XTCPXUDP_UnmarshalFromMsg tb m b l n"
| "UnmarshalFromMsg tb m (SUDPProxyConfig b _) = SUDP_UnmarshalFromMsg tb m b"
| "UnmarshalFromMsg tb m (STCPSUDPProxyConfig b _ l) = STCPSUDP_UnmarshalFromMsg tb m b l"

lemmas type_marshal_defs =
  TCP_MarshalToMsg_def UDP_MarshalToMsg_def TCPUDP_MarshalToMsg_def HTTP_MarshalToMsg_def HTTPS_MarshalToMsg_def MC_MarshalToMsg_def PE_MarshalToMsg_def TCPMux_MarshalToMsg_def STCP_MarshalToMsg_def XTCP_MarshalToMsg_def XUDP_MarshalToMsg_def XTCPXUDP_MarshalToMsg_def SUDP_MarshalToMsg_def STCPSUDP_MarshalToMsg_def

lemmas type_unmarshal_defs =
  TCP_UnmarshalFromMsg_def UDP_UnmarshalFromMsg_def TCPUDP_UnmarshalFromMsg_def HTTP_UnmarshalFromMsg_def HTTPS_UnmarshalFromMsg_def MC_UnmarshalFromMsg_def PE_UnmarshalFromMsg_def TCPMux_UnmarshalFromMsg_def STCP_UnmarshalFromMsg_def XTCP_UnmarshalFromMsg_def XUDP_UnmarshalFromMsg_def XTCPXUDP_UnmarshalFromMsg_def SUDP_UnmarshalFromMsg_def STCPSUDP_UnmarshalFromMsg_def

end
