(* ===== verification/Config_Validation.thy ===== *)
theory Config_Validation
  imports Proxy_Config Routers
begin

text \<open>
  The checks of proxy configurations on both sides (\<open>pkg/config/v1/validation/proxy.go\<close>, \<open>plugin.go\<close>, \<open>common.go\<close>), the
  configuration the server makes of a message (\<open>config.NewProxyConfigurerFromMsg\<close>), and what passes from client to server.
  \<open>IsQualifiedName\<close> of the Kubernetes library is the parameter \<open>qualified\<close>: the complaints about a name.
\<close>

section \<open>Checks\<close>

datatype config_error =
    NameEmpty
  | BadAnnotations "(string \<times> string) list" "nat option"
  | BadProxyProtocol string
  | BadBandwidthMode
  | BadPort string int
  | BadHealthType string
  | HealthPathEmpty
  | PluginError string string
  | NoDomain
  | BadMultiplexer string
  | RemotePortRequired
  | ForcedHostsEmpty
  | DomainReserved string string
  | SubdomainDisabled
  | SubdomainChars
  | FeatureDisabled string
  | UnknownType string

type_synonym check = "(config_error, unit) result"

abbreviation pass :: check where "pass \<equiv> Inr ()"

definition andThen :: "check \<Rightarrow> check \<Rightarrow> check" where
  "andThen a b = (case a of Inl e \<Rightarrow> Inl e | Inr _ \<Rightarrow> b)"

definition guard :: "bool \<Rightarrow> config_error \<Rightarrow> check" where
  "guard ok e = (if ok then pass else Inl e)"

definition TotalAnnotationSizeLimitB :: nat where
  "TotalAnnotationSizeLimitB = 256 * 1024"

definition annotationsSize :: "string_map \<Rightarrow> nat" where
  "annotationsSize as = sum_list (map (\<lambda>(k, v). length k + length v) as)"

definition ValidateAnnotationsSize :: "string_map \<Rightarrow> nat option" where
  "ValidateAnnotationsSize as = (if annotationsSize as > TotalAnnotationSizeLimitB then Some (annotationsSize as) else None)"

definition ValidateAnnotations :: "(string \<Rightarrow> string list) \<Rightarrow> string_map \<Rightarrow> check" where
  "ValidateAnnotations qualified as =
     (if as = [] then pass
      else let errs = concat (map (\<lambda>(k, v). map (Pair k) (qualified (ToLower k))) as); sz = ValidateAnnotationsSize as
           in if errs = [] \<and> sz = None then pass else Inl (BadAnnotations errs sz))"

definition ValidatePort :: "int \<Rightarrow> string \<Rightarrow> check" where
  "ValidatePort port fieldPath = (if 0 \<le> port \<and> port \<le> 65535 then pass else Inl (BadPort fieldPath port))"

fun ValidateClientPluginOptions :: "ClientPluginOptions \<Rightarrow> string option" where
  "ValidateClientPluginOptions (HTTP2HTTPSPluginOptions p) = (if pl_LocalAddr p = '''' then Some ''localAddr is required'' else None)"
| "ValidateClientPluginOptions (HTTPS2HTTPPluginOptions p) = (if pl_LocalAddr p = '''' then Some ''localAddr is required'' else None)"
| "ValidateClientPluginOptions (HTTPS2HTTPSPluginOptions p) = (if pl_LocalAddr p = '''' then Some ''localAddr is required'' else None)"
| "ValidateClientPluginOptions (StaticFilePluginOptions path _ _ _) = (if path = '''' then Some ''localPath is required'' else None)"
| "ValidateClientPluginOptions (UnixDomainSocketPluginOptions path) = (if path = '''' then Some ''unixPath is required'' else None)"
| "ValidateClientPluginOptions (TLS2RawPluginOptions a _ _) = (if a = '''' then Some ''localAddr is required'' else None)"
| "ValidateClientPluginOptions _ = None"

definition validatePlugin :: "ProxyBaseConfig \<Rightarrow> check" where
  "validatePlugin c =
     (case pb_Plugin c of None \<Rightarrow> pass
      | Some p \<Rightarrow> (case ValidateClientPluginOptions p of None \<Rightarrow> pass | Some e \<Rightarrow> Inl (PluginError (pb_PluginType c) e)))"

definition validateProxyBaseConfigForClient :: "(string \<Rightarrow> string list) \<Rightarrow> ProxyBaseConfig \<Rightarrow> check" where
  "validateProxyBaseConfigForClient qualified c =
     andThen (guard (pb_Name c \<noteq> '''') NameEmpty)
    (andThen (ValidateAnnotations qualified (pb_Annotations c))
    (andThen (guard (ProxyProtocolVersion (pb_Transport c) \<in> {'''', ''v1'', ''v2''}) (BadProxyProtocol (ProxyProtocolVersion (pb_Transport c))))
    (andThen (guard (BandwidthLimitMode (pb_Transport c) \<in> {''client'', ''server''}) BadBandwidthMode)
    (andThen (if pb_PluginType c = '''' then ValidatePort (pb_LocalPort c) ''localPort'' else pass)
    (andThen (guard (hcType (pb_HealthCheck c) \<in> {'''', ''tcp'', ''http''}) (BadHealthType (hcType (pb_HealthCheck c))))
    (andThen (guard (\<not> (hcType (pb_HealthCheck c) = ''http'' \<and> hcPath (pb_HealthCheck c) = '''')) HealthPathEmpty)
    (if pb_PluginType c \<noteq> '''' then validatePlugin c else pass)))))))"

definition validateProxyBaseConfigForServer :: "(string \<Rightarrow> string list) \<Rightarrow> ProxyBaseConfig \<Rightarrow> check" where
  "validateProxyBaseConfigForServer qualified c = ValidateAnnotations qualified (pb_Annotations c)"

definition validateDomainConfigForClient :: "DomainConfig \<Rightarrow> check" where
  "validateDomainConfigForClient c = guard (\<not> (SubDomain c = '''' \<and> CustomDomains c = [])) NoDomain"

record ServerConfig =
  SubDomainHost :: string
  VhostHTTPPort :: int
  VhostHTTPSPort :: int
  TCPMuxHTTPConnectPort :: int

definition HasSuffix :: "string \<Rightarrow> string \<Rightarrow> bool" where
  "HasSuffix s suf \<longleftrightarrow> CutSuffix s suf \<noteq> None"

definition domainReserved :: "string \<Rightarrow> string \<Rightarrow> bool" where
  "domainReserved host domain \<longleftrightarrow>
     host \<noteq> '''' \<and> length (Split (CHR ''.'') host) < length (Split (CHR ''.'') domain) \<and> HasSuffix domain (''.'' @ host)"

definition validateDomainConfigForServer :: "DomainConfig \<Rightarrow> ServerConfig \<Rightarrow> check" where
  "validateDomainConfigForServer c s =
     (case find (domainReserved (SubDomainHost s)) (CustomDomains c) of
        Some domain \<Rightarrow> Inl (DomainReserved domain (SubDomainHost s))
      | None \<Rightarrow>
          if SubDomain c \<noteq> '''' then
            if SubDomainHost s = '''' then Inl SubdomainDisabled
            else if CHR ''.'' \<in> set (SubDomain c) \<or> CHR ''*'' \<in> set (SubDomain c) then Inl SubdomainChars
            else pass
          else pass)"

fun validateForClient :: "ProxyConfigurer \<Rightarrow> check" where
  "validateForClient (TCPMuxProxyConfig _ d x) =
     andThen (validateDomainConfigForClient d) (guard (mo_Multiplexer x = ''httpconnect'') (BadMultiplexer (mo_Multiplexer x)))"
| "validateForClient (HTTPProxyConfig _ d _) = validateDomainConfigForClient d"
| "validateForClient (HTTPSProxyConfig _ d) = validateDomainConfigForClient d"
| "validateForClient (MCProxyConfig _ d p) = (if p = 0 then Inl RemotePortRequired else validateDomainConfigForClient d)"
| "validateForClient (PEProxyConfig _ p h) = (if p = 0 then Inl RemotePortRequired else guard (h \<noteq> []) ForcedHostsEmpty)"
| "validateForClient _ = pass"

definition ValidateProxyConfigurerForClient :: "(string \<Rightarrow> string list) \<Rightarrow> ProxyConfigurer \<Rightarrow> check" where
  "ValidateProxyConfigurerForClient qualified c =
     andThen (validateProxyBaseConfigForClient qualified (GetBaseConfig c)) (validateForClient c)"

fun validateForServer :: "ProxyConfigurer \<Rightarrow> ServerConfig \<Rightarrow> check" where
  "validateForServer (TCPMuxProxyConfig _ d x) s =
     (if mo_Multiplexer x = ''httpconnect'' \<and> TCPMuxHTTPConnectPort s = 0 then Inl (FeatureDisabled ''tcpmux'')
      else validateDomainConfigForServer d s)"
| "validateForServer (HTTPProxyConfig _ d _) s =
     (if VhostHTTPPort s = 0 then Inl (FeatureDisabled ''http'') else validateDomainConfigForServer d s)"
| "validateForServer (HTTPSProxyConfig _ d) s =
     (if VhostHTTPSPort s = 0 then Inl (FeatureDisabled ''https'') else validateDomainConfigForServer d s)"
| "validateForServer (MCProxyConfig _ d p) s = (if p = 0 then Inl RemotePortRequired else validateDomainConfigForServer d s)"
| "validateForServer (PEProxyConfig _ p _) s = (if p = 0 then Inl RemotePortRequired else pass)"
| "validateForServer _ s = pass"

definition ValidateProxyConfigurerForServer :: "(string \<Rightarrow> string list) \<Rightarrow> ProxyConfigurer \<Rightarrow> ServerConfig \<Rightarrow> check" where
  "ValidateProxyConfigurerForServer qualified c s =
     andThen (validateProxyBaseConfigForServer qualified (GetBaseConfig c)) (validateForServer c s)"

section \<open>The server's configuration\<close>

definition NewProxyConfigurerFromMsg ::
    "(string \<Rightarrow> int \<Rightarrow> int option) \<Rightarrow> (string \<Rightarrow> string list) \<Rightarrow> NewProxyMsg \<Rightarrow> ServerConfig \<Rightarrow> (config_error, ProxyConfigurer) result" where
  "NewProxyConfigurerFromMsg toBytes qualified m0 serverCfg =
     (let m = m0\<lparr>np_ProxyType := EmptyOr '''' (np_ProxyType m0) ''tcp''\<rparr> in
      case NewProxyConfigurerByType (np_ProxyType m) of
        None \<Rightarrow> Inl (UnknownType (np_ProxyType m))
      | Some c0 \<Rightarrow>
          let c = Complete (UnmarshalFromMsg toBytes m c0) in
          (case ValidateProxyConfigurerForServer qualified c serverCfg of Inl e \<Rightarrow> Inl e | Inr _ \<Rightarrow> Inr c))"

text \<open>\<open>buildDomains\<close> of the server's proxies: the names a proxy is registered under.\<close>

definition buildDomains :: "string \<Rightarrow> DomainConfig \<Rightarrow> string list" where
  "buildDomains host d =
     filter (\<lambda>x. x \<noteq> '''') (CustomDomains d) @ (if SubDomain d \<noteq> '''' then [SubDomain d @ ''.'' @ host] else [])"

section \<open>From client to server\<close>

text \<open>What the server is told of a configuration: what concerns the client only has its zero value there.\<close>

definition serverBase :: "string \<Rightarrow> ProxyBaseConfig \<Rightarrow> ProxyBaseConfig" where
  "serverBase wire b =
     (zeroBase (pb_Type b))
       \<lparr>pb_Name := wire, pb_Annotations := pb_Annotations b, pb_Metadatas := pb_Metadatas b, pb_LoadBalancer := pb_LoadBalancer b,
        pb_LocalIP := ''127.0.0.1'',
        pb_Transport := (pb_Transport b)\<lparr>ProxyProtocolVersion := ''''\<rparr>\<rparr>"

fun serverView :: "string \<Rightarrow> ProxyConfigurer \<Rightarrow> ProxyConfigurer" where
  "serverView w (TCPProxyConfig b p) = TCPProxyConfig (serverBase w b) p"
| "serverView w (UDPProxyConfig b p) = UDPProxyConfig (serverBase w b) p"
| "serverView w (TCPUDPProxyConfig b p _) = TCPUDPProxyConfig (serverBase w b) p 0"
| "serverView w (HTTPProxyConfig b d h) = HTTPProxyConfig (serverBase w b) d h"
| "serverView w (HTTPSProxyConfig b d) = HTTPSProxyConfig (serverBase w b) d"
| "serverView w (MCProxyConfig b d p) = MCProxyConfig (serverBase w b) d p"
| "serverView w (PEProxyConfig b p _) = PEProxyConfig (serverBase w b) p []"
| "serverView w (TCPMuxProxyConfig b d m) = TCPMuxProxyConfig (serverBase w b) d m"
| "serverView w (STCPProxyConfig b s) = STCPProxyConfig (serverBase w b) s"
| "serverView w (XTCPProxyConfig b s _) = XTCPProxyConfig (serverBase w b) s None"
| "serverView w (XUDPProxyConfig b s _) = XUDPProxyConfig (serverBase w b) s None"
| "serverView w (XTCPXUDPProxyConfig b s _ _) = XTCPXUDPProxyConfig (serverBase w b) s 0 None"
| "serverView w (SUDPProxyConfig b s) = SUDPProxyConfig (serverBase w b) s"
| "serverView w (STCPSUDPProxyConfig b s _) = STCPSUDPProxyConfig (serverBase w b) s 0"

fun typeName :: "ProxyConfigurer \<Rightarrow> string" where
  "typeName (TCPProxyConfig _ _) = ''tcp''"
| "typeName (UDPProxyConfig _ _) = ''udp''"
| "typeName (TCPUDPProxyConfig _ _ _) = ''tcp+udp''"
| "typeName (HTTPProxyConfig _ _ _) = ''http''"
| "typeName (HTTPSProxyConfig _ _) = ''https''"
| "typeName (MCProxyConfig _ _ _) = ''mc''"
| "typeName (PEProxyConfig _ _ _) = ''pe''"
| "typeName (TCPMuxProxyConfig _ _ _) = ''tcpmux''"
| "typeName (STCPProxyConfig _ _) = ''stcp''"
| "typeName (XTCPProxyConfig _ _ _) = ''xtcp''"
| "typeName (XUDPProxyConfig _ _ _) = ''xudp''"
| "typeName (XTCPXUDPProxyConfig _ _ _ _) = ''xtcp+xudp''"
| "typeName (SUDPProxyConfig _ _) = ''sudp''"
| "typeName (STCPSUDPProxyConfig _ _ _) = ''stcp+sudp''"

text \<open>A configuration as the client holds it when it starts a proxy: of the type its constructor says, completed, with
  a bandwidth that was read from text.\<close>

definition client_ready :: "(string \<Rightarrow> int \<Rightarrow> int option) \<Rightarrow> ProxyConfigurer \<Rightarrow> bool" where
  "client_ready toBytes c \<longleftrightarrow>
     pb_Type (GetBaseConfig c) = typeName c \<and> BandwidthLimitMode (pb_Transport (GetBaseConfig c)) \<noteq> '''' \<and>
     bandwidth_ok toBytes (BandwidthLimit (pb_Transport (GetBaseConfig c)))"

text \<open>Decoding by type and completing a configuration gives such a configuration.\<close>

lemma typeName_mapBase [simp]: "typeName (mapBase f c) = typeName c"
  by (cases c) simp_all

lemma GetBase_mapBase [simp]: "GetBaseConfig (mapBase f c) = f (GetBaseConfig c)"
  by (cases c) simp_all

lemma Complete_mode: "BandwidthLimitMode (pb_Transport (GetBaseConfig (Complete c))) \<noteq> ''''"
  by (simp add: Complete_def baseComplete_def EmptyOr_def)

lemma Complete_idem: "Complete (Complete c) = Complete c"
proof -
  have p: "pluginComplete (pluginComplete p) = pluginComplete p" for p
    by (cases p) (simp_all add: http2Default_def EmptyOr_def)
  have b: "baseComplete (baseComplete b) = baseComplete b" for b
    by (simp add: baseComplete_def EmptyOr_def option.map_comp comp_def p)
  show ?thesis by (cases c) (simp_all add: Complete_def b)
qed

lemma ByType_typeName: "NewProxyConfigurerByType t = Some c \<Longrightarrow> typeName c = t \<and> pb_Type (GetBaseConfig c) = t"
  by (auto simp: NewProxyConfigurerByType_def proxyConfigTypeMap_def zeroBase_def split: if_splits)

lemma ByType_known: "\<exists>c0. NewProxyConfigurerByType (typeName c) = Some c0"
  by (cases c) (simp_all add: NewProxyConfigurerByType_def proxyConfigTypeMap_def)

text \<open>The base part of a message and of a configuration correspond.\<close>

definition carries :: "string \<Rightarrow> ProxyBaseConfig \<Rightarrow> NewProxyMsg \<Rightarrow> bool" where
  "carries wire b m \<longleftrightarrow>
     np_ProxyName m = wire \<and> np_ProxyType m = pb_Type b \<and> np_UseEncryption m = UseEncryption (pb_Transport b) \<and>
     np_UseCompression m = UseCompression (pb_Transport b) \<and> np_BandwidthLimit m = bqString (BandwidthLimit (pb_Transport b)) \<and>
     np_BandwidthLimitMode m =
       (if BandwidthLimitMode (pb_Transport b) \<noteq> ''client'' then BandwidthLimitMode (pb_Transport b) else '''') \<and>
     np_Group m = lb_Group (pb_LoadBalancer b) \<and> np_GroupKey m = lb_GroupKey (pb_LoadBalancer b) \<and>
     np_Metas m = pb_Metadatas b \<and> np_Annotations m = pb_Annotations b"

lemmas marshal_defs = baseMarshal_def domainMarshal_def secretMarshal_def httpMarshal_def muxMarshal_def emptyNewProxy_def type_marshal_defs type_unmarshal_defs

lemma startMsg_carries: "carries wire (GetBaseConfig c) (startMsg wire c)"
  by (cases c) (simp_all add: carries_def startMsg_def marshal_defs)

lemma baseUnmarshal_serverBase:
  assumes "carries wire b m" "bandwidth_ok toBytes (BandwidthLimit (pb_Transport b))" "BandwidthLimitMode (pb_Transport b) \<noteq> ''''"
  shows "baseComplete (baseUnmarshal toBytes m (zeroBase (pb_Type b))) = serverBase wire b"
proof -
  have bw: "(if bqString q \<noteq> '''' then snd (NewBandwidthQuantity toBytes (bqString q)) else zeroBandwidth) = q"
    if "bandwidth_ok toBytes q" for q
  proof (cases "bqString q = ''''")
    case True
    then show ?thesis using that bandwidth_ok_zero [of toBytes]
      by (simp add: bandwidth_ok_def zeroBandwidth_def bqString_def)
  next
    case False
    then show ?thesis using that by (simp add: bandwidth_ok_def)
  qed
  show ?thesis using assms(1,3) bw [OF assms(2)]
    by (auto simp: carries_def baseUnmarshal_def baseComplete_def serverBase_def zeroBase_def zeroTransport_def EmptyOr_def)
qed


lemma UnmarshalFromMsg_serverView:
  assumes r: "client_ready toBytes c" and n: "NewProxyConfigurerByType (typeName c) = Some c0"
  shows "Complete (UnmarshalFromMsg toBytes (startMsg wire c) c0) = serverView wire c"
proof -
  have b: "baseComplete (baseUnmarshal toBytes (startMsg wire c) (zeroBase (typeName c))) = serverBase wire (GetBaseConfig c)"
    using r baseUnmarshal_serverBase [OF startMsg_carries] by (metis client_ready_def)
  show ?thesis using n b
    by (cases c)
      (auto simp: NewProxyConfigurerByType_def proxyConfigTypeMap_def Complete_def startMsg_def marshal_defs domainUnmarshal_def
        httpUnmarshal_def muxUnmarshal_def secretUnmarshal_def)
qed

lemma roundtrip_eq:
  assumes "client_ready toBytes c"
  shows "NewProxyConfigurerFromMsg toBytes qualified (startMsg wire c) serverCfg =
    (case ValidateProxyConfigurerForServer qualified (serverView wire c) serverCfg of
       Inl e \<Rightarrow> Inl e | Inr _ \<Rightarrow> Inr (serverView wire c))"
proof -
  have t: "np_ProxyType (startMsg wire c) = typeName c"
    using startMsg_carries [of wire c] assms by (simp add: carries_def client_ready_def)
  have ne: "typeName c \<noteq> ''''" by (cases c) simp_all
  have "(startMsg wire c)\<lparr>np_ProxyType := EmptyOr '''' (np_ProxyType (startMsg wire c)) ''tcp''\<rparr> = startMsg wire c"
    using ne t by (simp add: EmptyOr_def)
  then show ?thesis
    using ByType_known [of c] UnmarshalFromMsg_serverView [OF assms] t by (auto simp: NewProxyConfigurerFromMsg_def Let_def)
qed

text \<open>C14: A configuration travels. For every type of proxy, the server turns the client's start message back into the
  client's configuration under the name on the wire, with exactly the fields that concern the client alone at their zero
  values, and then applies its own checks to it.\<close>

theorem config_message_roundtrip:
  assumes "client_ready toBytes c"
  shows "NewProxyConfigurerFromMsg toBytes qualified (startMsg wire c) serverCfg =
    (case ValidateProxyConfigurerForServer qualified (serverView wire c) serverCfg of
       Inl e \<Rightarrow> Inl e | Inr _ \<Rightarrow> Inr (serverView wire c))"
  using assms by (rule roundtrip_eq)

definition exProxy :: ProxyConfigurer where
  "exProxy = Complete (HTTPProxyConfig ((zeroBase ''http'')\<lparr>pb_Name := ''web'', pb_LocalPort := 8080\<rparr>)
     \<lparr>CustomDomains = [''www.example.org''], SubDomain = ''shop''\<rparr> zeroHTTP)"

definition exServer :: ServerConfig where
  "exServer = \<lparr>SubDomainHost = ''frp.example.com'', VhostHTTPPort = 80, VhostHTTPSPort = 0, TCPMuxHTTPConnectPort = 0\<rparr>"

lemma exProxy_ready: "client_ready toBytes exProxy"
  using Complete_mode
  by (simp add: client_ready_def exProxy_def Complete_def baseComplete_def zeroBase_def zeroTransport_def bandwidth_ok_zero EmptyOr_def)

theorem config_message_roundtrip_witness:
  "NewProxyConfigurerFromMsg (\<lambda>_ _. None) (\<lambda>_. []) (startMsg ''u.web'' exProxy) exServer = Inr (serverView ''u.web'' exProxy)"
proof -
  have "ValidateProxyConfigurerForServer (\<lambda>_. []) (serverView ''u.web'' exProxy) exServer = pass"
    by (simp add: exProxy_def Complete_def exServer_def ValidateProxyConfigurerForServer_def andThen_def
      validateProxyBaseConfigForServer_def ValidateAnnotations_def serverBase_def baseComplete_def zeroBase_def
      validateDomainConfigForServer_def domainReserved_def HasSuffix_def CutSuffix_def)
  then show ?thesis using config_message_roundtrip [OF exProxy_ready] by simp
qed

section \<open>Refusals\<close>

lemma andThen_pass [simp]: "andThen a b = pass \<longleftrightarrow> a = pass \<and> b = pass"
  by (simp add: andThen_def split: sum.splits)

lemma andThen_Inl: "andThen a b = Inl e \<longleftrightarrow> a = Inl e \<or> a = pass \<and> b = Inl e"
  by (auto simp: andThen_def split: sum.splits)

lemma guard_pass [simp]: "guard ok e = pass \<longleftrightarrow> ok"
  by (simp add: guard_def)

lemma guard_Inl [simp]: "guard ok e = Inl e' \<longleftrightarrow> \<not> ok \<and> e' = e"
  by (auto simp: guard_def)

lemma serverView_base [simp]: "GetBaseConfig (serverView wire c) = serverBase wire (GetBaseConfig c)"
  by (cases c) simp_all

lemma serverBase_annotations [simp]: "pb_Annotations (serverBase wire b) = pb_Annotations b"
  by (simp add: serverBase_def)

text \<open>The reasons the server may have for refusing a configuration the client has checked: a feature that is switched off, a
  subdomain where the server has no subdomain host, a subdomain with a dot or an asterisk, and a custom domain below the
  subdomain host.\<close>

fun domainsOf :: "ProxyConfigurer \<Rightarrow> DomainConfig option" where
  "domainsOf (TCPMuxProxyConfig _ d _) = Some d"
| "domainsOf (HTTPProxyConfig _ d _) = Some d"
| "domainsOf (HTTPSProxyConfig _ d) = Some d"
| "domainsOf (MCProxyConfig _ d _) = Some d"
| "domainsOf _ = None"

fun featureOff :: "ProxyConfigurer \<Rightarrow> ServerConfig \<Rightarrow> string option" where
  "featureOff (TCPMuxProxyConfig _ _ _) s = (if TCPMuxHTTPConnectPort s = 0 then Some ''tcpmux'' else None)"
| "featureOff (HTTPProxyConfig _ _ _) s = (if VhostHTTPPort s = 0 then Some ''http'' else None)"
| "featureOff (HTTPSProxyConfig _ _) s = (if VhostHTTPSPort s = 0 then Some ''https'' else None)"
| "featureOff _ s = None"

definition domainReason :: "ServerConfig \<Rightarrow> DomainConfig \<Rightarrow> config_error \<Rightarrow> bool" where
  "domainReason s d e \<longleftrightarrow>
     (case e of
        SubdomainDisabled \<Rightarrow> SubDomain d \<noteq> [] \<and> SubDomainHost s = []
      | SubdomainChars \<Rightarrow> SubDomainHost s \<noteq> [] \<and> (CHR ''.'' \<in> set (SubDomain d) \<or> CHR ''*'' \<in> set (SubDomain d))
      | DomainReserved x h \<Rightarrow> x \<in> set (CustomDomains d) \<and> h = SubDomainHost s \<and> domainReserved h x
      | _ \<Rightarrow> False)"

definition serverReason :: "ServerConfig \<Rightarrow> ProxyConfigurer \<Rightarrow> config_error \<Rightarrow> bool" where
  "serverReason s c e \<longleftrightarrow> (\<exists>t. e = FeatureDisabled t \<and> featureOff c s = Some t) \<or> (\<exists>d. domainsOf c = Some d \<and> domainReason s d e)"

lemma domain_refusal: "validateDomainConfigForServer d s = Inl e \<Longrightarrow> domainReason s d e"
  by (auto simp: validateDomainConfigForServer_def domainReason_def split: option.splits if_splits dest: find_prop)

lemma domain_refused: "domainReason s d e \<Longrightarrow> validateDomainConfigForServer d s \<noteq> pass"
  by (auto simp: validateDomainConfigForServer_def domainReason_def find_None_iff split: option.splits if_splits config_error.splits)

lemma view_refusal:
  assumes "validateForClient c = pass"
  shows "validateForServer (serverView wire c) s = Inl e \<Longrightarrow> serverReason s c e"
    and "serverReason s c e \<Longrightarrow> validateForServer (serverView wire c) s \<noteq> pass"
  using assms by (cases c; auto split: if_splits dest: domain_refusal domain_refused simp: serverReason_def)+

text \<open>C34: The server's reasons. A configuration that passed the client's checks is refused by the server only because the
  feature it needs is switched off, because it asks for a subdomain where the server has no subdomain host, because its
  subdomain contains a dot or an asterisk (which the client does not check), or because one of its custom domains lies below
  the subdomain host that the server keeps for itself; and whenever one of these holds it is refused.\<close>

theorem server_refusals:
  assumes "client_ready toBytes c" "ValidateProxyConfigurerForClient qualified c = pass"
  shows "(NewProxyConfigurerFromMsg toBytes qualified (startMsg wire c) serverCfg = Inl e \<longrightarrow> serverReason serverCfg c e) \<and>
    (serverReason serverCfg c e \<longrightarrow> (\<exists>e'. NewProxyConfigurerFromMsg toBytes qualified (startMsg wire c) serverCfg = Inl e'))"
proof -
  have v: "NewProxyConfigurerFromMsg toBytes qualified (startMsg wire c) serverCfg =
      (case ValidateProxyConfigurerForServer qualified (serverView wire c) serverCfg of Inl e \<Rightarrow> Inl e | Inr _ \<Rightarrow> Inr (serverView wire c))"
    by (rule roundtrip_eq [OF assms(1)])
  have "ValidateAnnotations qualified (pb_Annotations (GetBaseConfig c)) = pass" and c: "validateForClient c = pass"
    using assms(2) by (simp_all add: ValidateProxyConfigurerForClient_def validateProxyBaseConfigForClient_def)
  then have "ValidateProxyConfigurerForServer qualified (serverView wire c) serverCfg = validateForServer (serverView wire c) serverCfg"
    by (simp add: ValidateProxyConfigurerForServer_def validateProxyBaseConfigForServer_def andThen_def)
  then show ?thesis using v view_refusal [OF c, where wire = wire and s = serverCfg] by (auto split: sum.splits)
qed

theorem server_refusals_witness:
  "NewProxyConfigurerFromMsg (\<lambda>_ _. None) (\<lambda>_. []) (startMsg ''u.web'' exProxy) (exServer\<lparr>VhostHTTPPort := 0\<rparr>) = Inl (FeatureDisabled ''http'') \<and>
   serverReason (exServer\<lparr>VhostHTTPPort := 0\<rparr>) exProxy (FeatureDisabled ''http'')"
proof -
  have c: "ValidateProxyConfigurerForClient (\<lambda>_. []) exProxy = pass"
    by (simp add: ValidateProxyConfigurerForClient_def validateProxyBaseConfigForClient_def exProxy_def Complete_def baseComplete_def
      zeroBase_def zeroTransport_def zeroHealth_def EmptyOr_def ValidateAnnotations_def ValidatePort_def validateDomainConfigForClient_def)
  have f: "NewProxyConfigurerFromMsg (\<lambda>_ _. None) (\<lambda>_. []) (startMsg ''u.web'' exProxy) (exServer\<lparr>VhostHTTPPort := 0\<rparr>) = Inl (FeatureDisabled ''http'')"
    by (simp add: roundtrip_eq [OF exProxy_ready])
      (simp add: exProxy_def Complete_def exServer_def ValidateProxyConfigurerForServer_def andThen_def
      validateProxyBaseConfigForServer_def ValidateAnnotations_def serverBase_def baseComplete_def zeroBase_def)
  show ?thesis using f server_refusals [OF exProxy_ready c] by blast
qed

section \<open>The subdomain host\<close>

lemma HasSuffix_append [simp]: "HasSuffix (x @ suf) suf"
  by (simp add: HasSuffix_def CutSuffix_def)

lemma HasSuffixE: "HasSuffix s suf \<Longrightarrow> \<exists>x. s = x @ suf"
  by (auto simp: HasSuffix_def CutSuffix_def split: if_splits) (metis append_take_drop_id)

lemma Split_length: "length (Split c s) = Suc (length (filter (\<lambda>x. x = c) s))"
  by (induction s) (auto split: list.splits)

lemma domainReserved_iff: "domainReserved host d \<longleftrightarrow> host \<noteq> '''' \<and> HasSuffix d (''.'' @ host)"
  by (auto simp: domainReserved_def Split_length dest!: HasSuffixE)

lemma accepted_domains:
  assumes "validateDomainConfigForServer d s = pass"
  shows "c \<in> set (CustomDomains d) \<Longrightarrow> \<not> domainReserved (SubDomainHost s) c"
    "SubDomain d \<noteq> '''' \<Longrightarrow> SubDomainHost s \<noteq> '''' \<and> CHR ''.'' \<notin> set (SubDomain d) \<and> CHR ''*'' \<notin> set (SubDomain d)"
  using assms by (auto simp: validateDomainConfigForServer_def find_None_iff split: option.splits if_splits)

text \<open>Names below the subdomain host. Of the names a proxy the server accepts is registered under, those below the
  server's subdomain host come from the proxy's subdomain setting and have one label more than the host, as long as the
  custom domains are written in lower case.\<close>

theorem subdomain_names_reserved:
  assumes "validateDomainConfigForServer d s = pass" "SubDomainHost s \<noteq> ''''" "\<forall>c \<in> set (CustomDomains d). ToLower c = c"
    "n \<in> set (buildDomains (SubDomainHost s) d)" "HasSuffix (ToLower n) (''.'' @ SubDomainHost s)"
  shows "n = SubDomain d @ ''.'' @ SubDomainHost s \<and> CHR ''.'' \<notin> set (SubDomain d) \<and> CHR ''*'' \<notin> set (SubDomain d)"
  using assms accepted_domains [OF assms(1)] by (auto simp: buildDomains_def domainReserved_iff split: if_splits)

theorem subdomain_names_reserved_witness:
  "''shop.frp.example.com'' \<in> set (buildDomains (SubDomainHost exServer) (Domains exProxy)) \<and>
   CHR ''.'' \<notin> set (SubDomain (Domains exProxy))"
proof -
  have d: "Domains exProxy = \<lparr>CustomDomains = [''www.example.org''], SubDomain = ''shop''\<rparr>" by (simp add: exProxy_def Complete_def)
  have h: "SubDomainHost exServer = ''frp.example.com''" by (simp add: exServer_def)
  have v: "validateDomainConfigForServer (Domains exProxy) exServer = pass"
    unfolding d by (simp add: h validateDomainConfigForServer_def domainReserved_def HasSuffix_def CutSuffix_def)
  have m: "''shop.frp.example.com'' \<in> set (buildDomains (SubDomainHost exServer) (Domains exProxy))"
    unfolding d h by (simp add: buildDomains_def)
  have l: "ToLower ''www.example.org'' = ''www.example.org''" "ToLower ''shop.frp.example.com'' = ''shop.frp.example.com''"
    by code_simp+
  have s: "HasSuffix (ToLower ''shop.frp.example.com'') (''.'' @ SubDomainHost exServer)"
    unfolding l h by code_simp
  show ?thesis using subdomain_names_reserved [OF v _ _ m s] m by (simp add: d h l)
qed

text \<open>Upper case gets around the reservation. The check compares letters as they are written and the routing table
  compares them in lower case, so a custom domain with a capital letter in the host part is accepted, takes the name of
  another client's subdomain, and that client is then refused.\<close>

theorem reserved_domain_case:
  "validateDomainConfigForServer \<lparr>CustomDomains = [''shop.FRP.example.com''], SubDomain = ''''\<rparr> exServer = pass \<and>
   validateDomainConfigForServer \<lparr>CustomDomains = [], SubDomain = ''shop''\<rparr> exServer = pass \<and>
   (\<exists>r. Add ''shop.FRP.example.com'' '''' '''' (0::nat) NewRouters = Inr r \<and>
      Add (hd (buildDomains (SubDomainHost exServer) \<lparr>CustomDomains = [], SubDomain = ''shop''\<rparr>)) '''' '''' 1 r = Inl ErrRouterConfigConflict)"
proof -
  have l: "ToLower ''shop.FRP.example.com'' = ''shop.frp.example.com''" "ToLower ''shop.frp.example.com'' = ''shop.frp.example.com''"
    by code_simp+
  have "exist NewRouters (ToLower ''shop.FRP.example.com'') '''' '''' = None" by (simp add: exist_def)
  then obtain r where r: "Add ''shop.FRP.example.com'' '''' '''' (0::nat) NewRouters = Inr r"
    by (metis Add_Inl old.sum.exhaust)
  have "exist r (ToLower ''shop.frp.example.com'') '''' '''' \<noteq> None"
    by (simp add: exist_def Add_routesOf [OF r] l current_def sortRouters_def)
  then have "Add ''shop.frp.example.com'' '''' '''' 1 r = Inl ErrRouterConfigConflict" by (simp add: Add_Inl)
  then show ?thesis using r
    by (simp add: exServer_def validateDomainConfigForServer_def domainReserved_def HasSuffix_def CutSuffix_def buildDomains_def)
qed

end
