(* ===== verification/Admission.thy ===== *)
theory Admission
  imports Firewall
begin

text \<open>
  What decides whether a user's traffic enters a tunnel on the server: the chain of server plugins
  (\<open>pkg/plugin/server/manager.go\<close>), the checks of a proxy on its two paths and the cache of their verdicts
  (\<open>server/proxy/proxy.go\<close>), and the count of peers (\<open>server/proxy/peer.go\<close>). What a plugin answers is part of the plugin.
\<close>

section \<open>Server plugins\<close>

datatype plugin_op = OpLogin | OpNewProxy | OpCloseProxy | OpPing | OpNewWorkConn | OpNewUserConn

text \<open>A failed request, or a response with its flags, reason and content.\<close>

datatype 'c plugin_answer = SendFailed | Response (Reject: bool) (RejectReason: string) (Unchange: bool) (Content: 'c)

text \<open>\<open>pluginPort\<close> is the port of the plugin's address if that resolves to this host, and zero otherwise.\<close>

record 'c Plugin =
  pluginName :: string
  IsSupport :: "plugin_op set"
  Handle :: "plugin_op \<Rightarrow> 'c \<Rightarrow> 'c plugin_answer"
  pluginPort :: int

record 'c PluginManager =
  loginPlugins :: "'c Plugin list"
  newProxyPlugins :: "'c Plugin list"
  closeProxyPlugins :: "'c Plugin list"
  pingPlugins :: "'c Plugin list"
  newWorkConnPlugins :: "'c Plugin list"
  newUserConnPlugins :: "'c Plugin list"
  pmLocalIPs :: "string set"
  selfPorts :: "int set"

definition NewPluginManager :: "string set \<Rightarrow> 'c PluginManager" where
  "NewPluginManager ips =
     \<lparr>loginPlugins = [], newProxyPlugins = [], closeProxyPlugins = [], pingPlugins = [], newWorkConnPlugins = [],
      newUserConnPlugins = [], pmLocalIPs = ips, selfPorts = {}\<rparr>"

definition appendIf :: "plugin_op \<Rightarrow> 'c Plugin \<Rightarrow> 'c Plugin list \<Rightarrow> 'c Plugin list" where
  "appendIf op p ps = (if op \<in> IsSupport p then ps @ [p] else ps)"

definition Register :: "'c Plugin \<Rightarrow> 'c PluginManager \<Rightarrow> 'c PluginManager" where
  "Register p m =
     m\<lparr>selfPorts := (if pluginPort p \<noteq> 0 then insert (pluginPort p) (selfPorts m) else selfPorts m),
       loginPlugins := appendIf OpLogin p (loginPlugins m),
       newProxyPlugins := appendIf OpNewProxy p (newProxyPlugins m),
       closeProxyPlugins := appendIf OpCloseProxy p (closeProxyPlugins m),
       pingPlugins := appendIf OpPing p (pingPlugins m),
       newWorkConnPlugins := appendIf OpNewWorkConn p (newWorkConnPlugins m),
       newUserConnPlugins := appendIf OpNewUserConn p (newUserConnPlugins m)\<rparr>"

definition IsLocalAddr :: "string \<Rightarrow> string set \<Rightarrow> bool" where
  "IsLocalAddr remoteAddr ips \<longleftrightarrow> (case SplitHostPort remoteAddr of Inr (h, _) \<Rightarrow> h | Inl _ \<Rightarrow> remoteAddr) \<in> ips"

definition IsSelfCall :: "string \<Rightarrow> int \<Rightarrow> 'c PluginManager \<Rightarrow> bool" where
  "IsSelfCall remoteAddr port m \<longleftrightarrow> port \<in> selfPorts m \<and> IsLocalAddr remoteAddr (pmLocalIPs m)"

definition HasNewUserConnPlugins :: "'c PluginManager \<Rightarrow> bool" where
  "HasNewUserConnPlugins m \<longleftrightarrow> newUserConnPlugins m \<noteq> []"

datatype plugin_error = PluginSend plugin_op | PluginReject string

fun handleMutableContent :: "'c Plugin list \<Rightarrow> plugin_op \<Rightarrow> 'c \<Rightarrow> (plugin_error, 'c) result" where
  "handleMutableContent [] op content = Inr content"
| "handleMutableContent (p # ps) op content =
     (case Handle p op content of
        SendFailed \<Rightarrow> Inl (PluginSend op)
      | Response rej msg0 unch new \<Rightarrow>
          if rej then Inl (PluginReject msg0)
          else handleMutableContent ps op (if unch then content else new))"

definition Login :: "'c PluginManager \<Rightarrow> 'c \<Rightarrow> (plugin_error, 'c) result" where
  "Login m = handleMutableContent (loginPlugins m) OpLogin"

definition NewProxy :: "'c PluginManager \<Rightarrow> 'c \<Rightarrow> (plugin_error, 'c) result" where
  "NewProxy m = handleMutableContent (newProxyPlugins m) OpNewProxy"

definition Ping :: "'c PluginManager \<Rightarrow> 'c \<Rightarrow> (plugin_error, 'c) result" where
  "Ping m = handleMutableContent (pingPlugins m) OpPing"

definition NewWorkConn :: "'c PluginManager \<Rightarrow> 'c \<Rightarrow> (plugin_error, 'c) result" where
  "NewWorkConn m = handleMutableContent (newWorkConnPlugins m) OpNewWorkConn"

definition NewUserConn :: "'c PluginManager \<Rightarrow> 'c \<Rightarrow> (plugin_error, 'c) result" where
  "NewUserConn m = handleMutableContent (newUserConnPlugins m) OpNewUserConn"

text \<open>\<open>CloseProxy\<close> asks every plugin and collects the names of those that could not be reached.\<close>

definition CloseProxyHook :: "'c PluginManager \<Rightarrow> 'c \<Rightarrow> (string list, unit) result" where
  "CloseProxyHook m content =
     (let errs = map pluginName (filter (\<lambda>p. Handle p OpCloseProxy content = SendFailed) (closeProxyPlugins m))
      in if errs = [] then Inr () else Inl errs)"

section \<open>Admission\<close>

record NewUserConnContent =
  nu_User :: string
  nu_ProxyName :: string
  nu_ProxyType :: string
  nu_RemoteAddr :: string

text \<open>A firewall with what its provider answers, as seen at one moment.\<close>

type_synonym fw_view = "string \<Rightarrow> int \<Rightarrow> bool \<times> string"

definition fwView :: "(Addr \<Rightarrow> ProviderConfig \<Rightarrow> bool \<times> string) \<Rightarrow> int \<Rightarrow> Firewall \<Rightarrow> fw_view" where
  "fwView provider_check now f remoteAddr port = Allow provider_check now remoteAddr port f"

text \<open>The owner, name and type of a proxy, as the checks use them.\<close>

record proxy_id =
  pid_user :: string
  pid_name :: string
  pid_type :: string

definition userConn :: "proxy_id \<Rightarrow> string \<Rightarrow> NewUserConnContent" where
  "userConn pid remoteAddr = \<lparr>nu_User = pid_user pid, nu_ProxyName = pid_name pid, nu_ProxyType = pid_type pid, nu_RemoteAddr = remoteAddr\<rparr>"

text \<open>What becomes of a TCP connection: refused, given up, or joined with a work connection through these layers.\<close>

datatype layer = Encryption | Compression | RateLimit

datatype user_conn =
    RejectedByFirewall string | RejectedByPlugin plugin_error | NoWorkConn | EncryptionFailed | Joined "layer list"

record user_transport =
  ut_UseEncryption :: bool
  ut_UseCompression :: bool
  ut_limiter :: bool

text \<open>\<open>handleUserTCPConnection\<close> up to the joining of the connections; \<open>workConn\<close> tells whether a work connection is had, and
  \<open>encOk\<close> whether \<open>libio.WithEncryption\<close> succeeds.\<close>

definition handleUserTCPConnection ::
    "fw_view option \<Rightarrow> NewUserConnContent PluginManager \<Rightarrow> bool \<Rightarrow> user_transport \<Rightarrow> bool \<Rightarrow> proxy_id \<Rightarrow> string \<Rightarrow> int \<Rightarrow> user_conn" where
  "handleUserTCPConnection fw m workConn tr encOk pid remoteAddr dstPort =
     (case (case fw of None \<Rightarrow> None | Some f \<Rightarrow> (case f remoteAddr dstPort of (ok, msg0) \<Rightarrow> if ok then None else Some msg0)) of
        Some msg0 \<Rightarrow> RejectedByFirewall msg0
      | None \<Rightarrow>
          (case (if \<not> IsSelfCall remoteAddr dstPort m then NewUserConn m (userConn pid remoteAddr) else Inr (userConn pid remoteAddr)) of
             Inl e \<Rightarrow> RejectedByPlugin e
           | Inr _ \<Rightarrow>
               if \<not> workConn then NoWorkConn
               else if ut_UseEncryption tr \<and> \<not> encOk then EncryptionFailed
               else Joined ((if ut_UseEncryption tr then [Encryption] else []) @ (if ut_UseCompression tr then [Compression] else []) @
                 (if ut_limiter tr then [RateLimit] else []))))"

section \<open>The cache of verdicts\<close>

record verdict =
  vd_ok :: bool
  vd_exp :: go_time

type_synonym verdict_cache = "string \<rightharpoonup> verdict"

definition admitVerdictTTL :: duration where "admitVerdictTTL = 2 * Second"
definition admitVerdictMax :: nat where "admitVerdictMax = 4096"

text \<open>The two critical sections of a cached call: the lookup, and the store after the check has run.\<close>

definition cacheLookup :: "go_time \<Rightarrow> string \<Rightarrow> verdict_cache \<Rightarrow> bool option" where
  "cacheLookup now a cache = (case cache a of Some v \<Rightarrow> if vd_exp v > now then Some (vd_ok v) else None | None \<Rightarrow> None)"

definition cacheStore :: "go_time \<Rightarrow> duration \<Rightarrow> string \<Rightarrow> bool \<Rightarrow> verdict_cache \<Rightarrow> verdict_cache" where
  "cacheStore now ttl a ok cache =
     (if card (dom cache) \<ge> admitVerdictMax then Map.empty else cache)(a \<mapsto> \<lparr>vd_ok = ok, vd_exp = now + ttl\<rparr>)"

section \<open>The filter of the other paths\<close>

text \<open>The closure \<open>check\<close> of \<open>newAdmitFilter\<close>; \<open>hookPlugins\<close> is what it has found when the filter was made.\<close>

definition admitCheck ::
    "fw_view option \<Rightarrow> bool \<Rightarrow> NewUserConnContent PluginManager \<Rightarrow> proxy_id \<Rightarrow> int \<Rightarrow> string \<Rightarrow> bool" where
  "admitCheck fw hookPlugins m pid port remoteAddr =
     (if (case fw of None \<Rightarrow> False | Some f \<Rightarrow> \<not> fst (f remoteAddr port)) then False
      else if hookPlugins \<and> \<not> IsSelfCall remoteAddr port m
      then is_ok (NewUserConn m (userConn pid remoteAddr)) else True)"

text \<open>The function that \<open>newAdmitFilter\<close> returns: its check, as it comes out at a given time, and its lifetime of verdicts. The
  firewall and the plugins answer differently as time goes by; there is no filter when neither of them is there.\<close>

record admit_filter =
  af_check :: "go_time \<Rightarrow> string \<Rightarrow> bool"
  af_ttl :: duration

definition fwAt :: "(go_time \<Rightarrow> fw_view) option \<Rightarrow> go_time \<Rightarrow> fw_view option" where
  "fwAt fw t = map_option (\<lambda>f. f t) fw"

definition newAdmitFilter ::
    "(go_time \<Rightarrow> fw_view) option \<Rightarrow> (go_time \<Rightarrow> NewUserConnContent PluginManager) \<Rightarrow> go_time \<Rightarrow> proxy_id \<Rightarrow> int \<Rightarrow> duration \<Rightarrow>
     admit_filter option" where
  "newAdmitFilter fw m made pid port ttl =
     (let hookPlugins = HasNewUserConnPlugins (m made)
      in if fw = None \<and> \<not> hookPlugins then None
         else Some \<lparr>af_check = (\<lambda>t. admitCheck (fwAt fw t) hookPlugins (m t) pid port), af_ttl = ttl\<rparr>)"

text \<open>A call of that function: \<open>now\<close> is the time it has read, \<open>t\<close> the time its check runs at, if it runs, and \<open>others\<close> what other
  calls make of the cache while it runs.\<close>

definition admitCall ::
    "admit_filter \<Rightarrow> go_time \<Rightarrow> go_time \<Rightarrow> (verdict_cache \<Rightarrow> verdict_cache) \<Rightarrow> string \<Rightarrow> verdict_cache \<Rightarrow> bool \<times> verdict_cache" where
  "admitCall flt now t others remoteAddr cache =
     (if af_ttl flt \<le> 0 then (af_check flt t remoteAddr, cache)
      else case cacheLookup now remoteAddr cache of
             Some ok \<Rightarrow> (ok, cache)
           | None \<Rightarrow>
               let ok = af_check flt t remoteAddr
               in (ok, cacheStore now (af_ttl flt) remoteAddr ok (others cache)))"

definition newUDPAdmitFilter ::
    "(go_time \<Rightarrow> fw_view) option \<Rightarrow> (go_time \<Rightarrow> NewUserConnContent PluginManager) \<Rightarrow> go_time \<Rightarrow> proxy_id \<Rightarrow> int \<Rightarrow> admit_filter option" where
  "newUDPAdmitFilter fw m made pid port = newAdmitFilter fw m made pid port admitVerdictTTL"

definition newHTTPAdmitFilter ::
    "(go_time \<Rightarrow> fw_view) option \<Rightarrow> (go_time \<Rightarrow> NewUserConnContent PluginManager) \<Rightarrow> go_time \<Rightarrow> proxy_id \<Rightarrow> int \<Rightarrow> admit_filter option" where
  "newHTTPAdmitFilter fw m made pid port =
     newAdmitFilter fw m made pid port (if HasNewUserConnPlugins (m made) then admitVerdictTTL else 0)"

section \<open>Peers\<close>

record peerTracker =
  refs :: "string \<rightharpoonup> int"
  opened :: nat
  closed :: nat

definition newPeerTracker :: peerTracker where
  "newPeerTracker = \<lparr>refs = Map.empty, opened = 0, closed = 0\<rparr>"

definition peerIP :: "string \<Rightarrow> string" where
  "peerIP remoteAddr = (case SplitHostPort remoteAddr of Inr (host, _) \<Rightarrow> host | Inl _ \<Rightarrow> remoteAddr)"

definition peerAcquire :: "string \<Rightarrow> peerTracker \<Rightarrow> peerTracker" where
  "peerAcquire remoteAddr t =
     (let ip = peerIP remoteAddr; n = (case refs t ip of Some k \<Rightarrow> k | None \<Rightarrow> 0) + 1
      in t\<lparr>refs := (refs t)(ip \<mapsto> n), opened := (if n = 1 then opened t + 1 else opened t)\<rparr>)"

definition peerRelease :: "string \<Rightarrow> peerTracker \<Rightarrow> peerTracker" where
  "peerRelease remoteAddr t =
     (let ip = peerIP remoteAddr
      in case refs t ip of None \<Rightarrow> t
         | Some k \<Rightarrow>
             if k - 1 \<le> 0 then t\<lparr>refs := (refs t)(ip := None), closed := closed t + 1\<rparr>
             else t\<lparr>refs := (refs t)(ip \<mapsto> k - 1)\<rparr>)"

section \<open>Who gets in\<close>

text \<open>A chain of plugins accepts a content when each accepts it as the ones before have left it.\<close>

inductive accepts :: "plugin_op \<Rightarrow> 'c Plugin list \<Rightarrow> 'c \<Rightarrow> 'c \<Rightarrow> bool" for op where
  none: "accepts op [] c c"
| kept: "Handle p op c = Response False msg0 True x \<Longrightarrow> accepts op ps c c' \<Longrightarrow> accepts op (p # ps) c c'"
| changed: "Handle p op c = Response False msg0 False x \<Longrightarrow> accepts op ps x c' \<Longrightarrow> accepts op (p # ps) c c'"

inductive_simps accepts_Cons: "accepts op (p # ps) c c'"

lemma accepts_Nil [simp]: "accepts op [] c c' \<longleftrightarrow> c' = c"
  by (auto intro: accepts.intros elim: accepts.cases)

lemma handleMutableContent_accepts: "handleMutableContent ps op c = Inr c' \<longleftrightarrow> accepts op ps c c'"
proof (induction ps arbitrary: c)
  case (Cons p ps)
  show ?case
  proof (cases "Handle p op c")
    case SendFailed
    then show ?thesis by (simp add: accepts_Cons)
  next
    case (Response rej msg0 unch new)
    then show ?thesis by (cases rej; cases unch) (simp_all add: accepts_Cons Cons.IH)
  qed
qed (auto simp: eq_commute)

lemma Register_lists:
  "newUserConnPlugins (fold Register ps (NewPluginManager ips)) = filter (\<lambda>p. OpNewUserConn \<in> IsSupport p) ps"
proof -
  have "newUserConnPlugins (fold Register ps m) = newUserConnPlugins m @ filter (\<lambda>p. OpNewUserConn \<in> IsSupport p) ps" for m
    by (induction ps arbitrary: m) (simp_all add: Register_def appendIf_def)
  then show ?thesis by (simp add: NewPluginManager_def)
qed

text \<open>The rule: the firewall, if there is one, allows the source on the port, and unless the server is calling a plugin of its
  own, every plugin for user connections accepts it in turn.\<close>

definition admits :: "fw_view option \<Rightarrow> NewUserConnContent PluginManager \<Rightarrow> proxy_id \<Rightarrow> int \<Rightarrow> string \<Rightarrow> bool" where
  "admits fw m pid port a \<longleftrightarrow> (case fw of None \<Rightarrow> True | Some f \<Rightarrow> fst (f a port)) \<and>
     (IsSelfCall a port m \<or> (\<exists>c. accepts OpNewUserConn (newUserConnPlugins m) (userConn pid a) c))"

text \<open>The plugins of a server are registered once, before it serves anybody; what they answer depends on the time.\<close>

definition managerAt :: "string set \<Rightarrow> (go_time \<Rightarrow> 'c Plugin list) \<Rightarrow> go_time \<Rightarrow> 'c PluginManager" where
  "managerAt ips ps t = fold Register (ps t) (NewPluginManager ips)"

lemma managerAt_has:
  assumes "map IsSupport (ps t) = map IsSupport (ps made)"
  shows "HasNewUserConnPlugins (managerAt ips ps t) \<longleftrightarrow> HasNewUserConnPlugins (managerAt ips ps made)"
proof -
  have has: "HasNewUserConnPlugins (managerAt ips ps t) \<longleftrightarrow> (\<exists>s \<in> set (map IsSupport (ps t)). OpNewUserConn \<in> s)" for t
    by (auto simp: HasNewUserConnPlugins_def managerAt_def Register_lists filter_empty_conv)
  show ?thesis unfolding has assms ..
qed

lemma NewUserConn_ok: "is_ok (NewUserConn m (userConn pid a)) \<longleftrightarrow> (\<exists>c. accepts OpNewUserConn (newUserConnPlugins m) (userConn pid a) c)"
  by (simp add: NewUserConn_def is_ok_iff handleMutableContent_accepts)

lemma admitCheck_admits: "admitCheck fw (HasNewUserConnPlugins m) m pid port a \<longleftrightarrow> admits fw m pid port a"
  by (auto simp: admitCheck_def admits_def NewUserConn_ok HasNewUserConnPlugins_def split: option.splits)

lemma handleUserTCPConnection_joined:
  "(\<exists>ls. handleUserTCPConnection fw m workConn tr encOk pid a port = Joined ls) \<longleftrightarrow>
     workConn \<and> (ut_UseEncryption tr \<longrightarrow> encOk) \<and> admits fw m pid port a"
proof -
  have "(\<exists>ls. handleUserTCPConnection fw m workConn tr encOk pid a port = Joined ls) \<longleftrightarrow>
      workConn \<and> (ut_UseEncryption tr \<longrightarrow> encOk) \<and>
      (case fw of None \<Rightarrow> True | Some f \<Rightarrow> fst (f a port)) \<and> (IsSelfCall a port m \<or> is_ok (NewUserConn m (userConn pid a)))"
    by (cases fw; cases "NewUserConn m (userConn pid a)") (auto simp: handleUserTCPConnection_def split: prod.splits)
  then show ?thesis by (simp add: admits_def NewUserConn_ok)
qed

text \<open>The caches a filter may have at time \<open>T\<close>: each verdict in it was stored by a call that read the clock before its check ran.\<close>

inductive admit_run :: "admit_filter \<Rightarrow> go_time \<Rightarrow> verdict_cache \<Rightarrow> bool" for flt where
  new: "admit_run flt T Map.empty"
| store: "admit_run flt T cache \<Longrightarrow> now \<le> t \<Longrightarrow> t \<le> T' \<Longrightarrow> T \<le> T' \<Longrightarrow>
    admit_run flt T' (cacheStore now (af_ttl flt) a (af_check flt t a) cache)"

lemma admit_run_later: "admit_run flt T cache \<Longrightarrow> T \<le> T' \<Longrightarrow> admit_run flt T' cache"
  by (induction rule: admit_run.cases) (auto intro: admit_run.intros order_trans)

lemma admitCall_run:
  assumes "admit_run flt T cache" "now \<le> t" "t \<le> T'" "T \<le> T'" "admit_run flt T' (others cache)"
  shows "admit_run flt T' (snd (admitCall flt now t others a cache))"
  using admit_run_later [OF assms(1,4)] admit_run.store [OF assms(5,2,3) order_refl]
  by (auto simp: admitCall_def Let_def split: option.splits)

lemma admit_run_fresh:
  "admit_run flt T cache \<Longrightarrow> cache a = Some v \<Longrightarrow> \<exists>t. vd_exp v - af_ttl flt \<le> t \<and> t \<le> T \<and> vd_ok v = af_check flt t a"
proof (induction arbitrary: a v rule: admit_run.induct)
  case (store T cache now t T' b)
  show ?case
  proof (cases "a = b")
    case True
    then show ?thesis using store.prems store.hyps by (intro exI [of _ t]) (auto simp: cacheStore_def)
  next
    case False
    then have "cache a = Some v" using store.prems by (auto simp: cacheStore_def split: if_splits)
    then show ?thesis using store.IH store.hyps by fastforce
  qed
qed simp

lemma admitCall_recent:
  assumes "admit_run flt T cache" "now \<le> T" "T \<le> t"
  shows "\<exists>t'. (af_ttl flt \<le> 0 \<longrightarrow> t' = t) \<and> (af_ttl flt > 0 \<longrightarrow> now - af_ttl flt < t') \<and> t' \<le> t \<and>
     fst (admitCall flt now t others a cache) = af_check flt t' a"
proof (cases "af_ttl flt > 0 \<and> cacheLookup now a cache \<noteq> None")
  case True
  then obtain v where v: "cache a = Some v" "vd_exp v > now" by (auto simp: cacheLookup_def split: option.splits if_splits)
  from admit_run_fresh [OF assms(1) v(1)] obtain t'
    where "vd_exp v - af_ttl flt \<le> t'" "t' \<le> T" "vd_ok v = af_check flt t' a" by blast
  then show ?thesis using True v assms by (intro exI [of _ t']) (auto simp: admitCall_def cacheLookup_def)
next
  case False
  then show ?thesis using assms by (intro exI [of _ t]) (auto simp: admitCall_def Let_def)
qed

lemma newAdmitFilter_rule:
  assumes sup: "\<And>t. map IsSupport (ps t) = map IsSupport (ps made)" and T: "now \<le> T" "T \<le> t"
  shows "case newAdmitFilter fw (managerAt ips ps) made pid port ttl of
      None \<Rightarrow> admits (fwAt fw t) (managerAt ips ps t) pid port a
    | Some flt \<Rightarrow> admit_run flt T cache \<longrightarrow>
        (\<exists>t'. (ttl \<le> 0 \<longrightarrow> t' = t) \<and> (ttl > 0 \<longrightarrow> now - ttl < t') \<and> t' \<le> t \<and>
           fst (admitCall flt now t others a cache) = admits (fwAt fw t') (managerAt ips ps t') pid port a)"
proof -
  have has: "HasNewUserConnPlugins (managerAt ips ps t) \<longleftrightarrow> HasNewUserConnPlugins (managerAt ips ps made)" for t
    by (rule managerAt_has) (rule sup)
  have chk: "admitCheck (fwAt fw t) (HasNewUserConnPlugins (managerAt ips ps made)) (managerAt ips ps t) pid port a \<longleftrightarrow>
      admits (fwAt fw t) (managerAt ips ps t) pid port a" for t a
    unfolding has [of t, symmetric] by (rule admitCheck_admits)
  show ?thesis
  proof (cases "newAdmitFilter fw (managerAt ips ps) made pid port ttl")
    case None
    then have "fw = None" "newUserConnPlugins (managerAt ips ps t) = []"
      using has [of t] by (auto simp: newAdmitFilter_def Let_def HasNewUserConnPlugins_def split: if_splits)
    then show ?thesis using None by (simp add: admits_def fwAt_def)
  next
    case (Some flt)
    then have "af_ttl flt = ttl" "\<And>t a. af_check flt t a = admits (fwAt fw t) (managerAt ips ps t) pid port a"
      using chk by (auto simp: newAdmitFilter_def Let_def split: if_splits)
    then show ?thesis using Some admitCall_recent [of flt T cache now t others a] T by simp
  qed
qed

text \<open>C35: One rule for all paths. A TCP connection is joined to a tunnel exactly when the rule admits its source at that time,
  a work connection is there, and its encryption, if any, can be set up; the rule being that the firewall, if there is one,
  allows the source on that port and, unless the server is calling a plugin of its own, every plugin registered for user
  connections accepts it in turn. The filters of the UDP and of the HTTP path decide by the same rule: where there is no
  filter, the rule admits everybody; otherwise the answer to a call, cached or not, is what the rule says at some time less
  than the lifetime of a verdict before the call and not after it, and for HTTP without plugins, where nothing is cached, at
  the time of the check itself. The firewall and the plugins may change their minds at any time; which plugins there are is
  fixed.\<close>

theorem admission_paths_agree:
  assumes "\<And>t. map IsSupport (ps t) = map IsSupport (ps made)" "now \<le> T" "T \<le> t"
  shows "((\<exists>ls. handleUserTCPConnection (fwAt fw t) (managerAt ips ps t) workConn tr encOk pid a port = Joined ls) \<longleftrightarrow>
      workConn \<and> (ut_UseEncryption tr \<longrightarrow> encOk) \<and> admits (fwAt fw t) (managerAt ips ps t) pid port a) \<and>
    (case newUDPAdmitFilter fw (managerAt ips ps) made pid port of
       None \<Rightarrow> admits (fwAt fw t) (managerAt ips ps t) pid port a
     | Some flt \<Rightarrow> admit_run flt T cache \<longrightarrow>
         (\<exists>t'. now - admitVerdictTTL < t' \<and> t' \<le> t \<and>
            fst (admitCall flt now t others a cache) = admits (fwAt fw t') (managerAt ips ps t') pid port a)) \<and>
    (case newHTTPAdmitFilter fw (managerAt ips ps) made pid port of
       None \<Rightarrow> admits (fwAt fw t) (managerAt ips ps t) pid port a
     | Some flt \<Rightarrow> admit_run flt T cache \<longrightarrow>
         (\<exists>t'. now - admitVerdictTTL < t' \<and> t' \<le> t \<and> (\<not> HasNewUserConnPlugins (managerAt ips ps made) \<longrightarrow> t' = t) \<and>
            fst (admitCall flt now t others a cache) = admits (fwAt fw t') (managerAt ips ps t') pid port a))"
proof (intro conjI)
  have ttl: "admitVerdictTTL > 0" by (simp add: admitVerdictTTL_def Second_def)
  note r = newAdmitFilter_rule [where ps = ps and made = made and fw = fw and ips = ips and pid = pid and port = port and a = a
      and cache = cache and others = others, OF assms]
  show "(\<exists>ls. handleUserTCPConnection (fwAt fw t) (managerAt ips ps t) workConn tr encOk pid a port = Joined ls) \<longleftrightarrow>
      workConn \<and> (ut_UseEncryption tr \<longrightarrow> encOk) \<and> admits (fwAt fw t) (managerAt ips ps t) pid port a"
    by (rule handleUserTCPConnection_joined)
  show "case newUDPAdmitFilter fw (managerAt ips ps) made pid port of
       None \<Rightarrow> admits (fwAt fw t) (managerAt ips ps t) pid port a
     | Some flt \<Rightarrow> admit_run flt T cache \<longrightarrow>
         (\<exists>t'. now - admitVerdictTTL < t' \<and> t' \<le> t \<and>
            fst (admitCall flt now t others a cache) = admits (fwAt fw t') (managerAt ips ps t') pid port a)"
    using r [of admitVerdictTTL] ttl unfolding newUDPAdmitFilter_def by (auto split: option.splits)
  show "case newHTTPAdmitFilter fw (managerAt ips ps) made pid port of
       None \<Rightarrow> admits (fwAt fw t) (managerAt ips ps t) pid port a
     | Some flt \<Rightarrow> admit_run flt T cache \<longrightarrow>
         (\<exists>t'. now - admitVerdictTTL < t' \<and> t' \<le> t \<and> (\<not> HasNewUserConnPlugins (managerAt ips ps made) \<longrightarrow> t' = t) \<and>
            fst (admitCall flt now t others a cache) = admits (fwAt fw t') (managerAt ips ps t') pid port a)"
  proof (cases "HasNewUserConnPlugins (managerAt ips ps made)")
    case True
    then show ?thesis using r [of admitVerdictTTL] ttl unfolding newHTTPAdmitFilter_def by (auto split: option.splits)
  next
    case False
    then show ?thesis using r [of 0] ttl assms unfolding newHTTPAdmitFilter_def by (auto split: option.splits)
  qed
qed

text \<open>A server with one plugin that turns everybody away from second 6 on, and a UDP packet at second 5 that finds the verdict
  of second 4.\<close>

definition exAdmitPlugins :: "go_time \<Rightarrow> NewUserConnContent Plugin list" where
  "exAdmitPlugins t = [\<lparr>pluginName = ''p'', IsSupport = {OpNewUserConn}, Handle = (\<lambda>_ c. Response (t \<ge> 6 * Second) ''no'' True c), pluginPort = 0\<rparr>]"

definition exPid :: proxy_id where
  "exPid = \<lparr>pid_user = ''ann'', pid_name = ''dns'', pid_type = ''udp''\<rparr>"

definition exFilter :: admit_filter where
  "exFilter = \<lparr>af_check = (\<lambda>t. admitCheck None True (managerAt {} exAdmitPlugins t) exPid 53), af_ttl = admitVerdictTTL\<rparr>"

definition exVerdicts :: verdict_cache where
  "exVerdicts = cacheStore (4 * Second) (af_ttl exFilter) ''9.9.9.9:1'' (af_check exFilter (4 * Second) ''9.9.9.9:1'') Map.empty"

lemma exAdmit_list: "newUserConnPlugins (managerAt {} exAdmitPlugins t) = exAdmitPlugins t"
  unfolding managerAt_def Register_lists by (simp add: exAdmitPlugins_def)

lemma exFilter_eq: "newUDPAdmitFilter None (managerAt {} exAdmitPlugins) 0 exPid 53 = Some exFilter"
  by (simp add: newUDPAdmitFilter_def newAdmitFilter_def Let_def HasNewUserConnPlugins_def exAdmit_list exFilter_def fwAt_def)
    (simp add: exAdmitPlugins_def)

lemma exVerdicts_run: "admit_run exFilter (5 * Second) exVerdicts"
  unfolding exVerdicts_def by (rule admit_run.store [OF admit_run.new [of _ 0]]) (simp_all add: Second_def)

theorem admission_paths_agree_witness:
  "(\<exists>t'. 5 * Second - admitVerdictTTL < t' \<and> t' \<le> 7 * Second \<and>
      fst (admitCall exFilter (5 * Second) (7 * Second) id ''9.9.9.9:1'' exVerdicts) =
      admits None (managerAt {} exAdmitPlugins t') exPid 53 ''9.9.9.9:1'') \<and>
   (\<nexists>ls. handleUserTCPConnection None (managerAt {} exAdmitPlugins (7 * Second)) True
      \<lparr>ut_UseEncryption = False, ut_UseCompression = True, ut_limiter = False\<rparr> False exPid ''9.9.9.9:1'' 53 = Joined ls)"
proof -
  have sup: "map IsSupport (exAdmitPlugins t) = map IsSupport (exAdmitPlugins 0)" for t by (simp add: exAdmitPlugins_def)
  have no: "\<not> admits None (managerAt {} exAdmitPlugins (7 * Second)) exPid 53 ''9.9.9.9:1''"
    unfolding admits_def exAdmit_list
    by (simp add: exAdmitPlugins_def accepts_Cons Second_def IsSelfCall_def managerAt_def Register_def NewPluginManager_def)
  have le: "5 * Second \<le> 5 * Second" "5 * Second \<le> 7 * Second" by (simp_all add: Second_def)
  show ?thesis
    using admission_paths_agree [where ps = exAdmitPlugins and made = 0 and fw = None and ips = "{}" and pid = exPid and port = 53 and a = "''9.9.9.9:1''"
        and workConn = True and encOk = False and others = id and cache = exVerdicts
        and tr = "\<lparr>ut_UseEncryption = False, ut_UseCompression = True, ut_limiter = False\<rparr>", OF sup le]
      no exVerdicts_run
    by (simp add: exFilter_eq) (simp add: fwAt_def)
qed

section \<open>Verdicts\<close>

text \<open>The caches that arise: any number of callers store verdicts, each with the time it read the clock at.\<close>

inductive cache_run :: "duration \<Rightarrow> verdict_cache \<Rightarrow> (go_time \<times> string \<times> bool) set \<Rightarrow> bool" for ttl where
  new: "cache_run ttl Map.empty {}"
| store: "cache_run ttl cache checks \<Longrightarrow> cache_run ttl (cacheStore now ttl a ok cache) (insert (now, a, ok) checks)"

lemma cacheStore_dom: "dom (cacheStore now ttl a ok cache) = insert a (if card (dom cache) \<ge> admitVerdictMax then {} else dom cache)"
  by (simp add: cacheStore_def)

lemma cache_run_dom: "cache_run ttl cache checks \<Longrightarrow> finite (dom cache) \<and> card (dom cache) \<le> admitVerdictMax"
proof (induction rule: cache_run.induct)
  case (store cache checks now a ok)
  let ?D = "if card (dom cache) \<ge> admitVerdictMax then {} else dom cache"
  have "finite ?D" "card ?D < admitVerdictMax" using store by (auto simp: admitVerdictMax_def)
  then have "card (insert a ?D) \<le> admitVerdictMax" using card_insert_le_m1 by (cases "a \<in> ?D") (simp_all add: insert_absorb card_insert_if)
  then show ?case using \<open>finite ?D\<close> by (simp add: cacheStore_dom)
qed simp

lemma cache_run_fresh:
  "cache_run ttl cache checks \<Longrightarrow> cache a = Some v \<Longrightarrow> (vd_exp v - ttl, a, vd_ok v) \<in> checks"
  by (induction arbitrary: a v rule: cache_run.induct) (auto simp: cacheStore_def split: if_splits)

text \<open>C36: Cached verdicts. However many callers use the cache at once, it never holds more than its maximum of sources, and
  a verdict answered from it is that of a check of the same source started less than the lifetime ago.\<close>

theorem verdict_cache_bounded:
  assumes "cache_run ttl cache checks"
  shows "finite (dom cache) \<and> card (dom cache) \<le> admitVerdictMax \<and>
    (\<forall>ok. cacheLookup now a cache = Some ok \<longrightarrow> (\<exists>t. (t, a, ok) \<in> checks \<and> now < t + ttl))"
proof -
  have "\<exists>t. (t, a, ok) \<in> checks \<and> now < t + ttl" if "cacheLookup now a cache = Some ok" for ok
  proof -
    obtain v where "cache a = Some v" "vd_exp v > now" "vd_ok v = ok"
      using \<open>cacheLookup now a cache = Some ok\<close> by (auto simp: cacheLookup_def split: option.splits if_splits)
    then show ?thesis using cache_run_fresh [OF assms] by (intro exI [of _ "vd_exp v - ttl"]) auto
  qed
  then show ?thesis using cache_run_dom [OF assms] by blast
qed

theorem verdict_cache_bounded_witness:
  "cacheLookup 6 ''a'' (cacheStore 5 2 ''a'' True Map.empty) = Some True \<and> card (dom (cacheStore 5 2 ''a'' True Map.empty)) \<le> admitVerdictMax"
proof -
  have "cache_run 2 (cacheStore 5 2 ''a'' True Map.empty) {(5, ''a'', True)}"
    by (rule cache_run.store [OF cache_run.new])
  from verdict_cache_bounded [OF this] have "card (dom (cacheStore 5 2 ''a'' True Map.empty)) \<le> admitVerdictMax" by blast
  then show ?thesis by (simp add: cacheLookup_def cacheStore_def admitVerdictMax_def)
qed

section \<open>Counting peers\<close>

datatype peer_use = Use string | Unuse string

fun runPeers :: "peer_use list \<Rightarrow> peerTracker \<Rightarrow> peerTracker" where
  "runPeers [] t = t"
| "runPeers (Use a # us) t = runPeers us (peerAcquire a t)"
| "runPeers (Unuse a # us) t = runPeers us (peerRelease a t)"

text \<open>What is to be counted: the uses of each address, where giving up what is not used has no effect.\<close>

fun usesOf :: "peer_use list \<Rightarrow> (string \<Rightarrow> nat) \<Rightarrow> string \<Rightarrow> nat" where
  "usesOf [] u = u"
| "usesOf (Use a # us) u = usesOf us (u(peerIP a := Suc (u (peerIP a))))"
| "usesOf (Unuse a # us) u = usesOf us (u(peerIP a := u (peerIP a) - 1))"

definition peer_rel :: "peerTracker \<Rightarrow> (string \<Rightarrow> nat) \<Rightarrow> bool" where
  "peer_rel t u \<longleftrightarrow> (\<forall>ip. refs t ip = (if u ip = 0 then None else Some (int (u ip)))) \<and> finite {ip. u ip > 0} \<and>
     opened t = closed t + card {ip. u ip > 0}"

lemma upd_pos: "{ip. (u(k := v)) ip > (0::nat)} = (if v > 0 then insert k {ip. u ip > 0} else {ip. u ip > 0} - {k})"
  by (auto split: if_splits)

lemma peerAcquire_rel: "peer_rel t u \<Longrightarrow> peer_rel (peerAcquire a t) (u(peerIP a := Suc (u (peerIP a))))"
  unfolding peer_rel_def upd_pos by (cases "u (peerIP a) = 0") (auto simp: peerAcquire_def Let_def insert_absorb)

lemma peerRelease_rel:
  assumes "peer_rel t u"
  shows "peer_rel (peerRelease a t) (u(peerIP a := u (peerIP a) - 1))"
proof (cases "u (peerIP a) \<le> 1")
  case True
  then consider "u (peerIP a) = 0" | "u (peerIP a) = 1" by linarith
  then show ?thesis
  proof cases
    case 1
    then show ?thesis using assms unfolding peer_rel_def upd_pos by (auto simp: peerRelease_def Let_def)
  next
    case 2
    then have "card {ip. u ip > 0} = Suc (card ({ip. u ip > 0} - {peerIP a}))"
      using assms by (intro card.remove) (auto simp: peer_rel_def)
    then show ?thesis using assms 2 unfolding peer_rel_def upd_pos by (auto simp: peerRelease_def Let_def)
  qed
next
  case False
  then have "peerIP a \<in> {ip. u ip > 0}" "u (peerIP a) - 1 > 0" "\<not> int (u (peerIP a)) - 1 \<le> 0" by auto
  then show ?thesis using assms False unfolding peer_rel_def upd_pos
    by (auto simp: peerRelease_def Let_def insert_absorb)
qed

lemma runPeers_rel: "peer_rel t u \<Longrightarrow> peer_rel (runPeers us t) (usesOf us u)"
  by (induction us t arbitrary: u rule: runPeers.induct) (simp_all only: runPeers.simps usesOf.simps peerAcquire_rel peerRelease_rel)

text \<open>Peers are counted once. After any sequence of uses over either transport, the openings reported exceed the closings
  by exactly the number of addresses in use, and the tracker holds the number of uses of each.\<close>

theorem peers_counted_once:
  "(\<forall>ip. refs (runPeers us newPeerTracker) ip = (if usesOf us (\<lambda>_. 0) ip = 0 then None else Some (int (usesOf us (\<lambda>_. 0) ip)))) \<and>
   opened (runPeers us newPeerTracker) = closed (runPeers us newPeerTracker) + card {ip. usesOf us (\<lambda>_. 0) ip > 0}"
proof -
  have "peer_rel newPeerTracker (\<lambda>_. 0)" by (simp add: peer_rel_def newPeerTracker_def)
  from runPeers_rel [OF this] show ?thesis by (simp add: peer_rel_def)
qed

end
