(* ===== verification/Server_Proxies.thy ===== *)
theory Server_Proxies
  imports Config_Validation Tcp_Group Http_Group Nathole_Controller
begin

text \<open>
  The proxies of the server (\<open>server/proxy\<close>): how the TCP, UDP, combined and HTTP types start and close over the
  resources they share, and the listeners of secret proxies (\<open>server/visitor/visitor.go\<close>) with their visitors.
  The outcomes of binding a socket are arguments.
\<close>

section \<open>Resources\<close>

text \<open>The TCP port manager is the resource of the TCP groups. Sockets are listed by port.\<close>

record Resources =
  rc_tcp :: TCPGroupCtl
  rc_udp :: Ports.Manager
  rc_tcpSockets :: "int set"
  rc_udpSockets :: "int set"

datatype run_error = RunPort port_error | RunListen | RunGroup "tcp_open_error group_error"

text \<open>What the surroundings of one \<open>Run\<close> answer.\<close>

record run_env =
  re_tcp :: port_env
  re_udp :: port_env
  re_listenTCP :: bool
  re_listenUDP :: bool
  re_now :: go_time

definition relTCP :: "go_time \<Rightarrow> int \<Rightarrow> Resources \<Rightarrow> Resources" where
  "relTCP now p rc = rc\<lparr>rc_tcp := (rc_tcp rc)\<lparr>gc_res := Release now p (gc_res (rc_tcp rc))\<rparr>\<rparr>"

definition relUDP :: "go_time \<Rightarrow> int \<Rightarrow> Resources \<Rightarrow> Resources" where
  "relUDP now p rc = rc\<lparr>rc_udp := Release now p (rc_udp rc)\<rparr>"

definition acqTCP :: "port_env \<Rightarrow> string \<Rightarrow> int \<Rightarrow> Resources \<Rightarrow> (port_error, int) result \<times> Resources" where
  "acqTCP e name p rc = (case acquire_env e name p (gc_res (rc_tcp rc)) of (r, pm) \<Rightarrow> (r, rc\<lparr>rc_tcp := (rc_tcp rc)\<lparr>gc_res := pm\<rparr>\<rparr>))"

definition acqUDP :: "port_env \<Rightarrow> string \<Rightarrow> int \<Rightarrow> Resources \<Rightarrow> (port_error, int) result \<times> Resources" where
  "acqUDP e name p rc = (case acquire_env e name p (rc_udp rc) of (r, pm) \<Rightarrow> (r, rc\<lparr>rc_udp := pm\<rparr>))"

section \<open>TCP\<close>

text \<open>A proxy that has started: what its \<open>Close\<close> works with.\<close>

datatype started = OwnPort int | GroupListener nat

definition TCPProxy_Run ::
    "(TCPGroupCtl \<Rightarrow> TCPGroupCtl) list \<Rightarrow> run_env \<Rightarrow> string \<Rightarrow> LoadBalancerConfig \<Rightarrow> string \<Rightarrow> int \<Rightarrow> Resources \<Rightarrow>
       (run_error, started) result \<times> Resources" where
  "TCPProxy_Run fs e name lb bindAddr port rc =
     (if lb_Group lb \<noteq> '''' then
        (case tcpCtlListen fs (re_tcp e, re_listenTCP e, re_now e) name (lb_Group lb) (lb_GroupKey lb) bindAddr port (rc_tcp rc) of
           (Inl err, c) \<Rightarrow> (Inl (RunGroup err), rc\<lparr>rc_tcp := c\<rparr>)
         | (Inr ln, c) \<Rightarrow> (Inr (GroupListener ln), rc\<lparr>rc_tcp := c\<rparr>))
      else
        (case acqTCP (re_tcp e) name port rc of
           (Inl err, rc1) \<Rightarrow> (Inl (RunPort err), rc1)
         | (Inr p, rc1) \<Rightarrow>
             if re_listenTCP e then (Inr (OwnPort p), rc1\<lparr>rc_tcpSockets := insert p (rc_tcpSockets rc1)\<rparr>)
             else (Inl RunListen, relTCP (re_now e) p rc1)))"

definition TCPProxy_Close :: "go_time \<Rightarrow> started \<Rightarrow> Resources \<Rightarrow> Resources" where
  "TCPProxy_Close now st rc =
     (case st of
        GroupListener ln \<Rightarrow> rc\<lparr>rc_tcp := tcpLnClose now ln (rc_tcp rc)\<rparr>
      | OwnPort p \<Rightarrow> relTCP now p (rc\<lparr>rc_tcpSockets := rc_tcpSockets rc - {p}\<rparr>))"

section \<open>UDP\<close>

text \<open>\<open>re_listenUDP\<close> stands for both the resolving and the binding of the address.\<close>

definition UDPProxy_Run :: "run_env \<Rightarrow> string \<Rightarrow> int \<Rightarrow> Resources \<Rightarrow> (run_error, int) result \<times> Resources" where
  "UDPProxy_Run e name port rc =
     (case acqUDP (re_udp e) name port rc of
        (Inl err, rc1) \<Rightarrow> (Inl (RunPort err), rc1)
      | (Inr p, rc1) \<Rightarrow>
          if re_listenUDP e then (Inr p, rc1\<lparr>rc_udpSockets := insert p (rc_udpSockets rc1)\<rparr>)
          else (Inl RunListen, relUDP (re_now e) p rc1))"

text \<open>\<open>Close\<close> runs once for the control and once more when the loop over the user's packets has ended; the port is released
  each time.\<close>

definition UDPProxy_Close :: "go_time \<Rightarrow> int \<Rightarrow> bool \<Rightarrow> Resources \<Rightarrow> bool \<times> Resources" where
  "UDPProxy_Close now p isClosed rc =
     (True, relUDP now p (if isClosed then rc else rc\<lparr>rc_udpSockets := rc_udpSockets rc - {p}\<rparr>))"

section \<open>TCP and UDP on one port\<close>

definition TCPUDPProxy_Run :: "run_env \<Rightarrow> string \<Rightarrow> int \<Rightarrow> Resources \<Rightarrow> (run_error, int) result \<times> Resources" where
  "TCPUDPProxy_Run e name port rc =
     (case acqTCP (re_tcp e) name port rc of
        (Inl err, rc1) \<Rightarrow> (Inl (RunPort err), rc1)
      | (Inr p, rc1) \<Rightarrow>
          (case acqUDP (re_udp e) name p rc1 of
             (Inl err, rc2) \<Rightarrow> (Inl (RunPort err), relTCP (re_now e) p rc2)
           | (Inr _, rc2) \<Rightarrow>
               if \<not> re_listenTCP e then (Inl RunListen, relTCP (re_now e) p (relUDP (re_now e) p rc2))
               else let rc3 = rc2\<lparr>rc_tcpSockets := insert p (rc_tcpSockets rc2)\<rparr> in
                 if \<not> re_listenUDP e then (Inl RunListen, relTCP (re_now e) p (relUDP (re_now e) p rc3))
                 else (Inr p, rc3\<lparr>rc_udpSockets := insert p (rc_udpSockets rc3)\<rparr>)))"

definition TCPUDPProxy_Close :: "go_time \<Rightarrow> int \<Rightarrow> bool \<Rightarrow> Resources \<Rightarrow> bool \<times> Resources" where
  "TCPUDPProxy_Close now p isClosed rc =
     (True, relUDP now p (relTCP now p
        (if isClosed then rc
         else rc\<lparr>rc_tcpSockets := rc_tcpSockets rc - {p}, rc_udpSockets := rc_udpSockets rc - {p}\<rparr>)))"

section \<open>HTTP\<close>

definition CanonicalAddr :: "string \<Rightarrow> int \<Rightarrow> string" where
  "CanonicalAddr host port = (if port = 80 \<or> port = 443 then host else JoinHostPort host (Itoa port))"

text \<open>The registered routes of a proxy, oldest first: what \<open>closeFuncs\<close> undoes.\<close>

type_synonym http_route = "string \<times> string"

definition httpRegister ::
    "string \<Rightarrow> LoadBalancerConfig \<Rightarrow> string \<Rightarrow> 'f \<Rightarrow> nat \<Rightarrow> http_route \<Rightarrow> 'f HTTPGroupController \<Rightarrow>
       (http_group_error, unit) result \<times> 'f HTTPGroupController" where
  "httpRegister name lb user fn pid rt s =
     (case rt of (domain, location) \<Rightarrow>
        if lb_Group lb \<noteq> '''' then
          hcRegister [] name (lb_Group lb) (lb_GroupKey lb) \<lparr>gr_domain = domain, gr_location = location, gr_user = user, gr_createConn = fn\<rparr> s
        else
          (case Add domain location user (ToOther pid) (hc_router s) of
             Inl e \<Rightarrow> (Inl (HgRoute e), s)
           | Inr r \<Rightarrow> (Inr (), s\<lparr>hc_router := r\<rparr>)))"

definition httpCloseFn :: "string \<Rightarrow> LoadBalancerConfig \<Rightarrow> string \<Rightarrow> http_route \<Rightarrow> 'f HTTPGroupController \<Rightarrow> 'f HTTPGroupController" where
  "httpCloseFn name lb user rt s =
     (case rt of (domain, location) \<Rightarrow>
        if lb_Group lb \<noteq> '''' then hcUnRegister name (lb_Group lb) s
        else s\<lparr>hc_router := Del domain location user (hc_router s)\<rparr>)"

definition HTTPProxy_Close :: "string \<Rightarrow> LoadBalancerConfig \<Rightarrow> string \<Rightarrow> http_route list \<Rightarrow> 'f HTTPGroupController \<Rightarrow> 'f HTTPGroupController" where
  "HTTPProxy_Close name lb user closeFuncs s = fold (httpCloseFn name lb user) closeFuncs s"

fun httpLoop ::
    "string \<Rightarrow> LoadBalancerConfig \<Rightarrow> string \<Rightarrow> 'f \<Rightarrow> nat \<Rightarrow> http_route list \<Rightarrow> http_route list \<Rightarrow> 'f HTTPGroupController \<Rightarrow>
       (http_group_error, http_route list) result \<times> 'f HTTPGroupController" where
  "httpLoop name lb user fn pid [] closeFuncs s = (Inr closeFuncs, s)"
| "httpLoop name lb user fn pid (rt # rts) closeFuncs s =
     (case httpRegister name lb user fn pid rt s of
        (Inl e, s1) \<Rightarrow> (Inl e, HTTPProxy_Close name lb user closeFuncs s1)
      | (Inr _, s1) \<Rightarrow> httpLoop name lb user fn pid rts (closeFuncs @ [rt]) s1)"

definition httpRoutes :: "string \<Rightarrow> DomainConfig \<Rightarrow> http_options \<Rightarrow> http_route list" where
  "httpRoutes host d h =
     (let locations = (if ho_Locations h = [] then [''''] else ho_Locations h)
      in concat (map (\<lambda>domain. map (Pair domain) locations) (buildDomains host d)))"

text \<open>The result carries the addresses told to the client and what \<open>Close\<close> will undo.\<close>

definition HTTPProxy_Run ::
    "string \<Rightarrow> ProxyBaseConfig \<Rightarrow> DomainConfig \<Rightarrow> http_options \<Rightarrow> ServerConfig \<Rightarrow> 'f \<Rightarrow> nat \<Rightarrow> 'f HTTPGroupController \<Rightarrow>
       (http_group_error, string \<times> http_route list) result \<times> 'f HTTPGroupController" where
  "HTTPProxy_Run name b d h serverCfg fn pid s =
     (let rts = httpRoutes (SubDomainHost serverCfg) d h
      in case httpLoop name (pb_LoadBalancer b) (ho_RouteByHTTPUser h) fn pid rts [] s of
           (Inl e, s1) \<Rightarrow> (Inl e, s1)
         | (Inr closeFuncs, s1) \<Rightarrow>
             (Inr (Join (CHR '','') (map (\<lambda>(domain, _). CanonicalAddr domain (VhostHTTPPort serverCfg)) rts), closeFuncs), s1))"

section \<open>Secret proxies and their visitors\<close>

text \<open>A listener is its queue of connections; \<open>vl_closed\<close> says that the proxy has closed it.\<close>

record listenerBundle =
  vl_queue :: "nat list"
  vl_closed :: bool
  vl_sk :: string
  vl_allowUsers :: "string list"

type_synonym visitor_manager = "string \<rightharpoonup> listenerBundle"

datatype visitor_error = ListenerRepeated string | VisitorAuthFailed string | VisitorUserNotAllowed string string | VisitorEncryption | ListenerClosed
  | NoListener string | NoControl string

definition vmListen :: "string \<Rightarrow> string \<Rightarrow> string list \<Rightarrow> visitor_manager \<Rightarrow> (visitor_error, visitor_manager) result" where
  "vmListen name key users vm =
     (if vm name \<noteq> None then Inl (ListenerRepeated name)
      else Inr (vm(name \<mapsto> \<lparr>vl_queue = [], vl_closed = False, vl_sk = key, vl_allowUsers = users\<rparr>)))"

definition vmCloseListener :: "string \<Rightarrow> visitor_manager \<Rightarrow> visitor_manager" where
  "vmCloseListener name vm = vm(name := None)"

text \<open>\<open>PutConn\<close>: a full queue of 128 connections has the new one closed without an error.\<close>

definition PutConn :: "nat \<Rightarrow> listenerBundle \<Rightarrow> (visitor_error, listenerBundle) result" where
  "PutConn conn l =
     (if vl_closed l then Inl ListenerClosed
      else if length (vl_queue l) < 128 then Inr (l\<lparr>vl_queue := vl_queue l @ [conn]\<rparr>) else Inr l)"

definition vmNewConn ::
    "(string \<Rightarrow> string) \<Rightarrow> bool \<Rightarrow> string \<Rightarrow> nat \<Rightarrow> int \<Rightarrow> string \<Rightarrow> bool \<Rightarrow> string \<Rightarrow> visitor_manager \<Rightarrow>
       (visitor_error, unit) result \<times> visitor_manager" where
  "vmNewConn md5 encryptOk name conn timestamp signKey useEncryption visitorUser vm =
     (case vm name of
        None \<Rightarrow> (Inl (NoListener name), vm)
      | Some l \<Rightarrow>
          if GetAuthKey md5 (vl_sk l) timestamp \<noteq> signKey then (Inl (VisitorAuthFailed name), vm)
          else if visitorUser \<notin> set (vl_allowUsers l) \<and> ''*'' \<notin> set (vl_allowUsers l) then (Inl (VisitorUserNotAllowed name visitorUser), vm)
          else if useEncryption \<and> \<not> encryptOk then (Inl VisitorEncryption, vm)
          else (case PutConn conn l of Inl e \<Rightarrow> (Inl e, vm) | Inr l' \<Rightarrow> (Inr (), vm(name \<mapsto> l'))))"

text \<open>\<open>RegisterVisitorConn\<close> of the service: the user is that of the session the run id names; \<open>userOf\<close> are the sessions.\<close>

record NewVisitorConnMsg =
  vc_RunID :: string
  vc_ProxyName :: string
  vc_SignKey :: string
  vc_Timestamp :: int
  vc_UseEncryption :: bool

definition RegisterVisitorConn ::
    "(string \<Rightarrow> string) \<Rightarrow> bool \<Rightarrow> (string \<rightharpoonup> string) \<Rightarrow> nat \<Rightarrow> NewVisitorConnMsg \<Rightarrow> visitor_manager \<Rightarrow>
       (visitor_error, unit) result \<times> visitor_manager" where
  "RegisterVisitorConn md5 encryptOk userOf conn m vm =
     (if vc_RunID m \<noteq> '''' then
        (case userOf (vc_RunID m) of
           None \<Rightarrow> (Inl (NoControl (vc_RunID m)), vm)
         | Some u \<Rightarrow> vmNewConn md5 encryptOk (vc_ProxyName m) conn (vc_Timestamp m) (vc_SignKey m) (vc_UseEncryption m) u vm)
      else vmNewConn md5 encryptOk (vc_ProxyName m) conn (vc_Timestamp m) (vc_SignKey m) (vc_UseEncryption m) '''' vm)"

text \<open>The start of a secret proxy: without a list of users, those of the same user may visit.\<close>

definition startVisitorListener :: "string \<Rightarrow> string \<Rightarrow> secret_options \<Rightarrow> visitor_manager \<Rightarrow> (visitor_error, visitor_manager) result" where
  "startVisitorListener name user s vm = vmListen name (Secretkey s) (if AllowUsers s = [] then [user] else AllowUsers s) vm"

definition closeSecretProxy :: "string \<Rightarrow> visitor_manager \<Rightarrow> visitor_manager" where
  "closeSecretProxy name vm = vmCloseListener name (vm(name := map_option (\<lambda>l. l\<lparr>vl_closed := True\<rparr>) (vm name)))"

section \<open>Ports are given back\<close>

definition rc_good :: "Resources \<Rightarrow> bool" where
  "rc_good rc \<longleftrightarrow> pm_good (gc_res (rc_tcp rc)) \<and> pm_good (rc_udp rc)"

definition env_good :: "run_env \<Rightarrow> Resources \<Rightarrow> bool" where
  "env_good e rc \<longleftrightarrow> pm_env_ok (re_tcp e) (gc_res (rc_tcp rc)) \<and> pm_env_ok (re_udp e) (rc_udp rc)"

text \<open>The owners of the ports, of both kinds.\<close>

definition owners :: "Resources \<Rightarrow> (int \<rightharpoonup> string) \<times> (int \<rightharpoonup> string)" where
  "owners rc = (owner (gc_res (rc_tcp rc)), owner (rc_udp rc))"

text \<open>The sockets that are open, of both kinds.\<close>

definition sockets :: "Resources \<Rightarrow> int set \<times> int set" where
  "sockets rc = (rc_tcpSockets rc, rc_udpSockets rc)"

lemma rel_simps [simp]:
  "gc_res (rc_tcp (relTCP t p rc)) = Release t p (gc_res (rc_tcp rc))" "rc_udp (relTCP t p rc) = rc_udp rc"
  "rc_udp (relUDP t p rc) = Release t p (rc_udp rc)" "rc_tcp (relUDP t p rc) = rc_tcp rc"
  "rc_tcpSockets (relTCP t p rc) = rc_tcpSockets rc" "rc_udpSockets (relTCP t p rc) = rc_udpSockets rc"
  "rc_tcpSockets (relUDP t p rc) = rc_tcpSockets rc" "rc_udpSockets (relUDP t p rc) = rc_udpSockets rc"
  by (simp_all add: relTCP_def relUDP_def)

lemma acqTCP_cases:
  assumes "pm_good (gc_res (rc_tcp rc))" "pm_env_ok e (gc_res (rc_tcp rc))" "acqTCP e n p rc = (r, rc')"
  shows "rc_udp rc' = rc_udp rc" "rc_tcpSockets rc' = rc_tcpSockets rc" "rc_udpSockets rc' = rc_udpSockets rc"
    "pm_good (gc_res (rc_tcp rc'))"
    "r = Inl err \<Longrightarrow> owner (gc_res (rc_tcp rc')) = owner (gc_res (rc_tcp rc))"
    "r = Inr q \<Longrightarrow> owner (gc_res (rc_tcp rc)) q = None \<and> owner (gc_res (rc_tcp rc')) = (owner (gc_res (rc_tcp rc)))(q \<mapsto> n)"
proof -
  obtain pm where a: "acquire_env e n p (gc_res (rc_tcp rc)) = (r, pm)" "rc' = rc\<lparr>rc_tcp := (rc_tcp rc)\<lparr>gc_res := pm\<rparr>\<rparr>"
    using assms(3) by (auto simp: acqTCP_def split: prod.splits)
  show "rc_udp rc' = rc_udp rc" "rc_tcpSockets rc' = rc_tcpSockets rc" "rc_udpSockets rc' = rc_udpSockets rc"
    "pm_good (gc_res (rc_tcp rc'))"
    using a pa.acquire_good [OF assms(1,2) a(1)] by simp_all
  show "r = Inl err \<Longrightarrow> owner (gc_res (rc_tcp rc')) = owner (gc_res (rc_tcp rc))"
    using a pa.acquire_fail [OF assms(1,2)] by simp
  show "r = Inr q \<Longrightarrow> owner (gc_res (rc_tcp rc)) q = None \<and> owner (gc_res (rc_tcp rc')) = (owner (gc_res (rc_tcp rc)))(q \<mapsto> n)"
    using a pa.acquire_ok [OF assms(1,2)] by simp
qed

lemma acqUDP_cases:
  assumes "pm_good (rc_udp rc)" "pm_env_ok e (rc_udp rc)" "acqUDP e n p rc = (r, rc')"
  shows "rc_tcp rc' = rc_tcp rc" "rc_tcpSockets rc' = rc_tcpSockets rc" "rc_udpSockets rc' = rc_udpSockets rc"
    "pm_good (rc_udp rc')"
    "r = Inl err \<Longrightarrow> owner (rc_udp rc') = owner (rc_udp rc)"
    "r = Inr q \<Longrightarrow> owner (rc_udp rc) q = None \<and> owner (rc_udp rc') = (owner (rc_udp rc))(q \<mapsto> n)"
    "r = Inr q \<Longrightarrow> p \<noteq> 0 \<Longrightarrow> q = p"
proof -
  obtain pm where a: "acquire_env e n p (rc_udp rc) = (r, pm)" "rc' = rc\<lparr>rc_udp := pm\<rparr>"
    using assms(3) by (auto simp: acqUDP_def split: prod.splits)
  show "rc_tcp rc' = rc_tcp rc" "rc_tcpSockets rc' = rc_tcpSockets rc" "rc_udpSockets rc' = rc_udpSockets rc"
    "pm_good (rc_udp rc')"
    using a pa.acquire_good [OF assms(1,2) a(1)] by simp_all
  show "r = Inl err \<Longrightarrow> owner (rc_udp rc') = owner (rc_udp rc)"
    using a pa.acquire_fail [OF assms(1,2)] by simp
  show "r = Inr q \<Longrightarrow> owner (rc_udp rc) q = None \<and> owner (rc_udp rc') = (owner (rc_udp rc))(q \<mapsto> n)"
    using a pa.acquire_ok [OF assms(1,2)] by simp
  show "r = Inr q \<Longrightarrow> p \<noteq> 0 \<Longrightarrow> q = p" using a pa.acquire_named [OF assms(1,2)] by simp
qed

lemma owner_undo: "o1 q = None \<Longrightarrow> o1(q := None) = o1"
  by (rule fun_upd_idem)

lemma TCP_run:
  assumes g: "rc_good rc" "env_good e rc" and lb: "lb_Group lb = []" and r: "TCPProxy_Run fs e n lb bindAddr port rc = (res, rc')"
  obtains (failed) err where "res = Inl err" "owners rc' = owners rc" "sockets rc' = sockets rc"
  | (ok) p where "res = Inr (OwnPort p)" "owners rc' = ((fst (owners rc))(p \<mapsto> n), snd (owners rc))" "fst (owners rc) p = None"
      "p \<in> fst (sockets rc')" "rc_good rc'"
proof -
  obtain a rc1 where a: "acqTCP (re_tcp e) n port rc = (a, rc1)" by (cases "acqTCP (re_tcp e) n port rc")
  have pre: "pm_good (gc_res (rc_tcp rc))" "pm_env_ok (re_tcp e) (gc_res (rc_tcp rc))" using g by (simp_all add: rc_good_def env_good_def)
  note c = acqTCP_cases [OF pre a]
  show thesis
  proof (cases a)
    case (Inl err)
    then show ?thesis
      using r lb a c by (intro failed [of "RunPort err"]) (simp_all add: TCPProxy_Run_def owners_def sockets_def)
  next
    case (Inr p)
    note T = c(6) [OF Inr]
    show ?thesis
    proof (cases "re_listenTCP e")
      case True
      then show ?thesis using r lb a c Inr T g(1)
        by (intro ok [of p]) (auto simp: TCPProxy_Run_def owners_def sockets_def rc_good_def)
    next
      case False
      then show ?thesis using r lb a c Inr T pa.release_owned [OF c(4)]
        by (intro failed [of RunListen]) (auto simp: TCPProxy_Run_def owners_def sockets_def owner_undo)
    qed
  qed
qed

lemma UDP_run:
  assumes g: "rc_good rc" "env_good e rc" and r: "UDPProxy_Run e n port rc = (res, rc')"
  obtains (failed) err where "res = Inl err" "owners rc' = owners rc" "sockets rc' = sockets rc"
  | (ok) p where "res = Inr p" "owners rc' = (fst (owners rc), (snd (owners rc))(p \<mapsto> n))" "snd (owners rc) p = None"
      "p \<in> snd (sockets rc')" "rc_good rc'"
proof -
  obtain a rc1 where a: "acqUDP (re_udp e) n port rc = (a, rc1)" by (cases "acqUDP (re_udp e) n port rc")
  have pre: "pm_good (rc_udp rc)" "pm_env_ok (re_udp e) (rc_udp rc)" using g by (simp_all add: rc_good_def env_good_def)
  note c = acqUDP_cases [OF pre a]
  show thesis
  proof (cases a)
    case (Inl err)
    then show ?thesis
      using r a c by (intro failed [of "RunPort err"]) (simp_all add: UDPProxy_Run_def owners_def sockets_def)
  next
    case (Inr p)
    note U = c(6) [OF Inr]
    show ?thesis
    proof (cases "re_listenUDP e")
      case True
      then show ?thesis using r a c Inr U g(1)
        by (intro ok [of p]) (auto simp: UDPProxy_Run_def owners_def sockets_def rc_good_def)
    next
      case False
      then show ?thesis using r a c Inr U pa.release_owned [OF c(4)]
        by (intro failed [of RunListen]) (auto simp: UDPProxy_Run_def owners_def sockets_def owner_undo)
    qed
  qed
qed

lemma good_owner_zero: "pm_good pm \<Longrightarrow> owner pm 0 = None"
  by (auto simp: pm_good_def pm_inv_def owner_def split: option.splits)

lemma TCPUDP_cases:
  assumes g: "rc_good rc" "env_good e rc" and r: "TCPUDPProxy_Run e n port rc = (res, rc')"
  obtains (failed) err where "res = Inl err" "owners rc' = owners rc" "sockets rc' = sockets rc"
  | (leaked) p where "res = Inl RunListen" "owners rc' = owners rc" "sockets rc' = (insert p (rc_tcpSockets rc), rc_udpSockets rc)"
      "\<not> re_listenUDP e" "fst (owners rc) p = None"
  | (ok) p where "res = Inr p" "owners rc' = ((fst (owners rc))(p \<mapsto> n), (snd (owners rc))(p \<mapsto> n))"
      "fst (owners rc) p = None" "snd (owners rc) p = None" "p \<in> fst (sockets rc')" "p \<in> snd (sockets rc')" "rc_good rc'"
proof -
  have pre: "pm_good (gc_res (rc_tcp rc))" "pm_env_ok (re_tcp e) (gc_res (rc_tcp rc))" using g by (simp_all add: rc_good_def env_good_def)
  obtain a rc1 where a: "acqTCP (re_tcp e) n port rc = (a, rc1)" by (cases "acqTCP (re_tcp e) n port rc")
  note c = acqTCP_cases [OF pre a]
  show thesis
  proof (cases a)
    case (Inl err)
    then show ?thesis using r a c by (intro failed [of "RunPort err"]) (simp_all add: TCPUDPProxy_Run_def owners_def sockets_def)
  next
    case (Inr p)
    have preU: "pm_good (rc_udp rc1)" "pm_env_ok (re_udp e) (rc_udp rc1)" using g c(1) by (simp_all add: rc_good_def env_good_def)
    obtain b rc2 where b: "acqUDP (re_udp e) n p rc1 = (b, rc2)" by (cases "acqUDP (re_udp e) n p rc1")
    note d = acqUDP_cases [OF preU b]
    have T: "owner (gc_res (rc_tcp rc)) p = None" "owner (gc_res (rc_tcp rc1)) = (owner (gc_res (rc_tcp rc)))(p \<mapsto> n)"
      using c(6) [OF Inr] by simp_all
    have relT: "owner (Release t p (gc_res (rc_tcp rc1))) = owner (gc_res (rc_tcp rc))" for t
      using pa.release_owned [OF c(4)] T by (simp add: owner_undo)
    have nz: "p \<noteq> 0" using T good_owner_zero [OF c(4)] by (metis fun_upd_same option.distinct(1))
    show ?thesis
    proof (cases b)
      case (Inl err)
      then show ?thesis using r a b \<open>a = Inr p\<close> c d relT
        by (intro failed [of "RunPort err"]) (auto simp: TCPUDPProxy_Run_def owners_def sockets_def)
    next
      case b': (Inr q)
      have q: "q = p" using d(7) [OF b' nz] .
      have U: "owner (rc_udp rc) p = None" "owner (rc_udp rc2) = (owner (rc_udp rc))(p \<mapsto> n)"
        using d(6) [OF b'] q c(1) by simp_all
      have relU: "owner (Release t p (rc_udp rc2)) = owner (rc_udp rc)" for t
        using pa.release_owned [OF d(4)] U by (simp add: owner_undo)
      note e = TCPUDPProxy_Run_def owners_def sockets_def a b \<open>a = Inr p\<close> b' relT relU Let_def c(1-3) d(1-3)
      consider "\<not> re_listenTCP e" | "re_listenTCP e" "\<not> re_listenUDP e" | "re_listenTCP e" "re_listenUDP e" by blast
      then show ?thesis
      proof cases
        case 1
        then show ?thesis using r by (intro failed [of RunListen]) (auto simp: e)
      next
        case 2
        then show ?thesis using r T by (intro leaked [of p]) (auto simp: e)
      next
        case 3
        then show ?thesis using r T U c(4) d(4) by (intro ok [of p]) (auto simp: e rc_good_def)
      qed
    qed
  qed
qed

text \<open>A \<open>Close\<close>, whether it is the first or not and whatever has happened since the start.\<close>

lemma closes:
  assumes "rc_good rc"
  shows "owners (TCPProxy_Close t (OwnPort p) rc) = ((fst (owners rc))(p := None), snd (owners rc))"
    and "owners (snd (UDPProxy_Close t p isClosed rc)) = (fst (owners rc), (snd (owners rc))(p := None))"
    and "owners (snd (TCPUDPProxy_Close t p isClosed rc)) = ((fst (owners rc))(p := None), (snd (owners rc))(p := None))"
  using assms
  by (auto simp: TCPProxy_Close_def UDPProxy_Close_def TCPUDPProxy_Close_def owners_def rc_good_def pa.release_owned)

lemma closed_sockets:
  "sockets (TCPProxy_Close t (OwnPort p) rc) = (rc_tcpSockets rc - {p}, rc_udpSockets rc)"
  "sockets (snd (UDPProxy_Close t p isClosed rc)) = (rc_tcpSockets rc, if isClosed then rc_udpSockets rc else rc_udpSockets rc - {p})"
  "sockets (snd (TCPUDPProxy_Close t p isClosed rc)) =
     (if isClosed then sockets rc else (rc_tcpSockets rc - {p}, rc_udpSockets rc - {p}))"
  by (simp_all add: sockets_def TCPProxy_Close_def UDPProxy_Close_def TCPUDPProxy_Close_def)

text \<open>C37: Ports of proxies outside groups. A TCP, UDP or combined proxy that fails to start leaves every port of both managers
  with the owner it had before, at whatever point of its start it failed, and the open sockets as they were, except that a
  combined proxy whose UDP half cannot be bound leaves its TCP socket open. One that has started owns a port that was free
  before, of each kind it serves, and nothing else has changed hands. Whenever it is closed after that, at any later state and
  for every one of the calls of \<open>Close\<close> (UDP and combined proxies are closed a second time by the goroutine that serves their
  packets), that port becomes free in the managers concerned and no other port changes hands; the first call closes the
  sockets. The second call frees the port again, also when another proxy has got it since.\<close>

theorem proxy_ports_returned:
  assumes "rc_good rc" "env_good e rc" "lb_Group lb = []" "rc_good later"
  shows "(case TCPProxy_Run fs e n lb bindAddr port rc of
       (Inl _, rc') \<Rightarrow> owners rc' = owners rc \<and> sockets rc' = sockets rc
     | (Inr st, rc') \<Rightarrow> (\<exists>p. fst (owners rc) p = None \<and> owners rc' = ((fst (owners rc))(p \<mapsto> n), snd (owners rc)) \<and>
         p \<in> fst (sockets rc') \<and> rc_good rc' \<and>
         owners (TCPProxy_Close t st later) = ((fst (owners later))(p := None), snd (owners later)) \<and>
         sockets (TCPProxy_Close t st later) = (fst (sockets later) - {p}, snd (sockets later)))) \<and>
    (case UDPProxy_Run e n port rc of
       (Inl _, rc') \<Rightarrow> owners rc' = owners rc \<and> sockets rc' = sockets rc
     | (Inr p, rc') \<Rightarrow> snd (owners rc) p = None \<and> owners rc' = (fst (owners rc), (snd (owners rc))(p \<mapsto> n)) \<and>
         p \<in> snd (sockets rc') \<and> rc_good rc' \<and>
         (\<forall>isClosed. owners (snd (UDPProxy_Close t p isClosed later)) = (fst (owners later), (snd (owners later))(p := None))) \<and>
         sockets (snd (UDPProxy_Close t p False later)) = (fst (sockets later), snd (sockets later) - {p})) \<and>
    (case TCPUDPProxy_Run e n port rc of
       (Inl _, rc') \<Rightarrow> owners rc' = owners rc \<and>
         (sockets rc' = sockets rc \<or> (\<exists>p. \<not> re_listenUDP e \<and> sockets rc' = (insert p (fst (sockets rc)), snd (sockets rc))))
     | (Inr p, rc') \<Rightarrow> fst (owners rc) p = None \<and> snd (owners rc) p = None \<and>
         owners rc' = ((fst (owners rc))(p \<mapsto> n), (snd (owners rc))(p \<mapsto> n)) \<and>
         p \<in> fst (sockets rc') \<and> p \<in> snd (sockets rc') \<and> rc_good rc' \<and>
         (\<forall>isClosed. owners (snd (TCPUDPProxy_Close t p isClosed later)) = ((fst (owners later))(p := None), (snd (owners later))(p := None))) \<and>
         sockets (snd (TCPUDPProxy_Close t p False later)) = (fst (sockets later) - {p}, snd (sockets later) - {p}))"
proof (intro conjI)
  note c = closes [OF assms(4)]
  have later: "rc_tcpSockets later = fst (sockets later)" "rc_udpSockets later = snd (sockets later)" by (simp_all add: sockets_def)
  obtain res rc' where r: "TCPProxy_Run fs e n lb bindAddr port rc = (res, rc')" by (cases "TCPProxy_Run fs e n lb bindAddr port rc")
  from assms(1-3) r show "case TCPProxy_Run fs e n lb bindAddr port rc of
       (Inl _, rc') \<Rightarrow> owners rc' = owners rc \<and> sockets rc' = sockets rc
     | (Inr st, rc') \<Rightarrow> (\<exists>p. fst (owners rc) p = None \<and> owners rc' = ((fst (owners rc))(p \<mapsto> n), snd (owners rc)) \<and>
         p \<in> fst (sockets rc') \<and> rc_good rc' \<and>
         owners (TCPProxy_Close t st later) = ((fst (owners later))(p := None), snd (owners later)) \<and>
         sockets (TCPProxy_Close t st later) = (fst (sockets later) - {p}, snd (sockets later)))"
    by (cases rule: TCP_run) (auto simp: r c closed_sockets later)
  obtain res rc' where r: "UDPProxy_Run e n port rc = (res, rc')" by (cases "UDPProxy_Run e n port rc")
  from assms(1,2) r show "case UDPProxy_Run e n port rc of
       (Inl _, rc') \<Rightarrow> owners rc' = owners rc \<and> sockets rc' = sockets rc
     | (Inr p, rc') \<Rightarrow> snd (owners rc) p = None \<and> owners rc' = (fst (owners rc), (snd (owners rc))(p \<mapsto> n)) \<and>
         p \<in> snd (sockets rc') \<and> rc_good rc' \<and>
         (\<forall>isClosed. owners (snd (UDPProxy_Close t p isClosed later)) = (fst (owners later), (snd (owners later))(p := None))) \<and>
         sockets (snd (UDPProxy_Close t p False later)) = (fst (sockets later), snd (sockets later) - {p})"
    by (cases rule: UDP_run) (simp_all add: r c closed_sockets later)
  obtain res rc' where r: "TCPUDPProxy_Run e n port rc = (res, rc')" by (cases "TCPUDPProxy_Run e n port rc")
  from assms(1,2) r show "case TCPUDPProxy_Run e n port rc of
       (Inl _, rc') \<Rightarrow> owners rc' = owners rc \<and>
         (sockets rc' = sockets rc \<or> (\<exists>p. \<not> re_listenUDP e \<and> sockets rc' = (insert p (fst (sockets rc)), snd (sockets rc))))
     | (Inr p, rc') \<Rightarrow> fst (owners rc) p = None \<and> snd (owners rc) p = None \<and>
         owners rc' = ((fst (owners rc))(p \<mapsto> n), (snd (owners rc))(p \<mapsto> n)) \<and>
         p \<in> fst (sockets rc') \<and> p \<in> snd (sockets rc') \<and> rc_good rc' \<and>
         (\<forall>isClosed. owners (snd (TCPUDPProxy_Close t p isClosed later)) = ((fst (owners later))(p := None), (snd (owners later))(p := None))) \<and>
         sockets (snd (TCPUDPProxy_Close t p False later)) = (fst (sockets later) - {p}, snd (sockets later) - {p})"
    by (cases rule: TCPUDP_cases) (auto simp: r c closed_sockets later sockets_def [of rc])
qed

definition exResources :: Resources where
  "exResources = \<lparr>rc_tcp = NewTCPGroupCtl (newManagerWithClock demo_ranges), rc_udp = newManagerWithClock demo_ranges,
     rc_tcpSockets = {}, rc_udpSockets = {}\<rparr>"

definition exRunEnv :: run_env where
  "exRunEnv = \<lparr>re_tcp = ((\<lambda>_. True), [1000, 1001], 7), re_udp = ((\<lambda>_. True), [1000, 1001], 7), re_listenTCP = True,
     re_listenUDP = True, re_now = 7\<rparr>"

lemma exResources_good: "rc_good exResources" "env_good exRunEnv exResources" "env_good (exRunEnv\<lparr>re_listenUDP := False\<rparr>) exResources"
proof -
  have "pm_inv (allowedPorts demo_ranges) (newManagerWithClock demo_ranges)" by (rule pm_inv_new)
  moreover have "0 \<notin> allowedPorts demo_ranges" by (simp add: demo_allowed)
  ultimately have "pm_good (newManagerWithClock demo_ranges)" by (auto simp: pm_good_def)
  moreover have "pm_env_ok ((\<lambda>_. True), [1000, 1001], 7) (newManagerWithClock demo_ranges)"
    by (simp add: pm_env_ok_def demo_new)
  ultimately show "rc_good exResources" "env_good exRunEnv exResources" "env_good (exRunEnv\<lparr>re_listenUDP := False\<rparr>) exResources"
    by (simp_all add: rc_good_def env_good_def exResources_def exRunEnv_def NewTCPGroupCtl_def newGroupCtl_def)
qed

lemma exTCPUDP: "fst (TCPUDPProxy_Run exRunEnv ''game'' 1000 exResources) = Inr 1000"
  by (simp add: TCPUDPProxy_Run_def acqTCP_def acqUDP_def exRunEnv_def exResources_def NewTCPGroupCtl_def newGroupCtl_def
      acquire_env_def demo_new acquire_defs Let_def)

lemma exTCPUDP_good: "rc_good (snd (TCPUDPProxy_Run exRunEnv ''game'' 1000 exResources))"
proof -
  obtain res rc' where r: "TCPUDPProxy_Run exRunEnv ''game'' 1000 exResources = (res, rc')"
    by (cases "TCPUDPProxy_Run exRunEnv ''game'' 1000 exResources")
  from exResources_good(1,2) r show ?thesis by (cases rule: TCPUDP_cases) (use r exTCPUDP in auto)
qed

theorem proxy_ports_returned_witness:
  "fst (TCPUDPProxy_Run exRunEnv ''game'' 1000 exResources) = Inr 1000 \<and>
   fst (owners (snd (TCPUDPProxy_Run exRunEnv ''game'' 1000 exResources))) 1000 = Some ''game'' \<and>
   fst (owners (snd (TCPUDPProxy_Close 9 1000 True (snd (TCPUDPProxy_Run exRunEnv ''game'' 1000 exResources))))) 1000 = None"
  using proxy_ports_returned [OF exResources_good(1,2) _ exTCPUDP_good, where lb = "\<lparr>lb_Group = [], lb_GroupKey = []\<rparr>"
      and n = "''game''" and port = 1000 and t = 9] exTCPUDP
  by (cases "TCPUDPProxy_Run exRunEnv ''game'' 1000 exResources") simp

text \<open>When the UDP half of a combined proxy cannot be bound, the TCP socket opened just before stays open: the start is
  reported as failed and the port is free in both managers, while the socket goes on serving the proxy's TCP half. The
  caller does not close a proxy whose start has failed.\<close>

lemma tcpudp_listener_leak:
  assumes "rc_good rc" "env_good e rc" "re_listenTCP e" "\<not> re_listenUDP e"
    "acqTCP (re_tcp e) n port rc = (Inr p, rc1)" "acqUDP (re_udp e) n p rc1 = (Inr q, rc2)"
  shows "fst (TCPUDPProxy_Run e n port rc) = Inl RunListen" "owners (snd (TCPUDPProxy_Run e n port rc)) = owners rc"
    "p \<in> rc_tcpSockets (snd (TCPUDPProxy_Run e n port rc))"
proof -
  obtain res rc' where r: "TCPUDPProxy_Run e n port rc = (res, rc')" by (cases "TCPUDPProxy_Run e n port rc")
  have eq: "TCPUDPProxy_Run e n port rc =
      (Inl RunListen, relTCP (re_now e) p (relUDP (re_now e) p (rc2\<lparr>rc_tcpSockets := insert p (rc_tcpSockets rc2)\<rparr>)))"
    using assms(3-) by (simp add: TCPUDPProxy_Run_def)
  then show "fst (TCPUDPProxy_Run e n port rc) = Inl RunListen" "p \<in> rc_tcpSockets (snd (TCPUDPProxy_Run e n port rc))" by simp_all
  from assms(1,2) r show "owners (snd (TCPUDPProxy_Run e n port rc)) = owners rc"
    by (cases rule: TCPUDP_cases) (use eq r in auto)
qed

text \<open>The second \<open>Close\<close> of a UDP proxy, made by the goroutine that served its packets, takes the port away from whoever has
  got it since the first.\<close>

lemma udp_second_close:
  assumes "pm_good (rc_udp rc)" "owner (rc_udp rc) p = Some other"
  shows "owner (rc_udp (snd (UDPProxy_Close t p True rc))) p = None"
  using assms by (simp add: UDPProxy_Close_def pa.release_owned)

section \<open>HTTP routes: all or none\<close>

definition routeKey :: "string \<Rightarrow> http_route \<Rightarrow> string \<times> string \<times> string" where
  "routeKey user rt = (ToLower (fst rt), snd rt, user)"

definition plain_lb :: "LoadBalancerConfig \<Rightarrow> bool" where
  "plain_lb lb \<longleftrightarrow> lb_Group lb = ''''"

lemma httpRegister_plain:
  assumes "plain_lb lb"
  shows "httpRegister n lb user fn pid rt s =
    (case Add (fst rt) (snd rt) user (ToOther pid) (hc_router s) of
       Inl e \<Rightarrow> (Inl (HgRoute e), s) | Inr r \<Rightarrow> (Inr (), s\<lparr>hc_router := r\<rparr>))"
  using assms by (cases rt) (simp add: httpRegister_def plain_lb_def)

lemma httpCloseFn_plain:
  "plain_lb lb \<Longrightarrow> httpCloseFn n lb user rt s = s\<lparr>hc_router := Del (fst rt) (snd rt) user (hc_router s)\<rparr>"
  by (cases rt) (simp add: httpCloseFn_def plain_lb_def)

text \<open>Maps that are overwritten on a set of keys.\<close>

lemma overwrite_laws:
  "(\<lambda>k. if k \<in> A then None else (f(r := None)) k) = (\<lambda>k. if k \<in> insert r A then None else f k)"
  "\<forall>k \<in> A. tb k = None \<Longrightarrow> (\<lambda>k. if k \<in> A then None else if k \<in> A then Some v else tb k) = tb"
  "(\<lambda>k. if k \<in> A then Some v else tb k)(r \<mapsto> v) = (\<lambda>k. if k \<in> insert r A then Some v else tb k)"
  by (auto intro!: ext)

text \<open>Closing removes the keys of the routes it is given and nothing else.\<close>

lemma HTTPProxy_Close_table:
  assumes "plain_lb lb" "routers_ok (hc_router s)"
  shows "routers_ok (hc_router (HTTPProxy_Close n lb user rts s)) \<and>
    table (hc_router (HTTPProxy_Close n lb user rts s)) = (\<lambda>k. if k \<in> routeKey user ` set rts then None else table (hc_router s) k)"
  using assms(2)
proof (induction rts arbitrary: s)
  case (Cons rt rts)
  have "routers_ok (hc_router (httpCloseFn n lb user rt s))" using assms(1) Cons.prems by (simp add: httpCloseFn_plain rt.del_good)
  note IH = Cons.IH [OF this]
  have t: "table (hc_router (httpCloseFn n lb user rt s)) = (table (hc_router s))(routeKey user rt := None)"
    using assms(1) Cons.prems by (simp add: httpCloseFn_plain rt.del_lookup routeKey_def)
  show ?case using IH unfolding t overwrite_laws(1) by (simp add: HTTPProxy_Close_def)
qed (simp add: HTTPProxy_Close_def)

lemma httpLoop_table:
  assumes lb: "plain_lb lb" and "routers_ok (hc_router s)"
    and "table (hc_router s) = (\<lambda>k. if k \<in> routeKey user ` set cl then Some (ToOther pid) else tb k)"
    and "\<forall>k \<in> routeKey user ` set cl. tb k = None" and "distinct (map (routeKey user) cl)"
  shows "case httpLoop n lb user fn pid rts cl s of
      (Inl e, s') \<Rightarrow> table (hc_router s') = tb \<and>
        ((\<exists>rt \<in> set rts. tb (routeKey user rt) \<noteq> None) \<or> \<not> distinct (map (routeKey user) (cl @ rts)))
    | (Inr cl', s') \<Rightarrow> cl' = cl @ rts \<and> routers_ok (hc_router s') \<and> distinct (map (routeKey user) cl') \<and>
        table (hc_router s') = (\<lambda>k. if k \<in> routeKey user ` set cl' then Some (ToOther pid) else tb k) \<and>
        (\<forall>k \<in> routeKey user ` set cl'. tb k = None)"
  using assms(2-)
proof (induction rts arbitrary: cl s)
  case Nil
  then show ?case by simp
next
  case (Cons rt rts)
  show ?case
  proof (cases "Add (fst rt) (snd rt) user (ToOther pid) (hc_router s)")
    case (Inl e)
    have close: "table (hc_router (HTTPProxy_Close n lb user cl s)) = tb"
      using HTTPProxy_Close_table [OF lb Cons.prems(1), of n user cl] overwrite_laws(2) [OF Cons.prems(3)] unfolding Cons.prems(2) by simp
    have "table (hc_router s) (routeKey user rt) \<noteq> None"
      using Inl rt.add_conflict [OF Cons.prems(1)] by (simp add: routeKey_def)
    then have "tb (routeKey user rt) \<noteq> None \<or> routeKey user rt \<in> routeKey user ` set cl"
      using Cons.prems(2) by (auto split: if_splits)
    then show ?thesis using close Inl by (auto simp: httpRegister_plain [OF lb])
  next
    case (Inr r)
    let ?s = "s\<lparr>hc_router := r\<rparr>"
    have free: "table (hc_router s) (routeKey user rt) = None"
      using Inr rt.add_Inr_iff [OF Cons.prems(1)] by (force simp: routeKey_def)
    have t: "table r = (table (hc_router s))(routeKey user rt \<mapsto> ToOther pid)"
      using rt.add_lookup [OF Cons.prems(1) Inr] by (simp add: routeKey_def)
    have t': "table r = (\<lambda>k. if k \<in> routeKey user ` set (cl @ [rt]) then Some (ToOther pid) else tb k)"
      unfolding t Cons.prems(2) overwrite_laws(3) by simp
    have new: "routeKey user rt \<notin> routeKey user ` set cl" "tb (routeKey user rt) = None"
      using free unfolding Cons.prems(2) by (simp_all split: if_splits)
    have "case httpLoop n lb user fn pid rts (cl @ [rt]) ?s of
      (Inl e, s') \<Rightarrow> table (hc_router s') = tb \<and>
        ((\<exists>rt' \<in> set rts. tb (routeKey user rt') \<noteq> None) \<or> \<not> distinct (map (routeKey user) ((cl @ [rt]) @ rts)))
    | (Inr cl', s') \<Rightarrow> cl' = (cl @ [rt]) @ rts \<and> routers_ok (hc_router s') \<and> distinct (map (routeKey user) cl') \<and>
        table (hc_router s') = (\<lambda>k. if k \<in> routeKey user ` set cl' then Some (ToOther pid) else tb k) \<and>
        (\<forall>k \<in> routeKey user ` set cl'. tb k = None)"
    proof (rule Cons.IH)
      show "routers_ok (hc_router ?s)" using rt.add_good [OF Cons.prems(1) Inr] by simp
      show "table (hc_router ?s) = (\<lambda>k. if k \<in> routeKey user ` set (cl @ [rt]) then Some (ToOther pid) else tb k)" using t' by simp
      show "\<forall>k \<in> routeKey user ` set (cl @ [rt]). tb k = None" "distinct (map (routeKey user) (cl @ [rt]))"
        using new Cons.prems(3,4) by auto
    qed
    then show ?thesis using Inr by (auto simp: httpRegister_plain [OF lb] split: prod.splits sum.splits)
  qed
qed


text \<open>C12: An HTTP proxy takes all of its routes or none. When its start fails, the table answers every route as before, and the
  reason is a route that somebody else holds or that the proxy names twice; when it succeeds, exactly the routes of its domains
  and locations lead to it in addition, and closing it restores the table.\<close>

theorem http_routes_atomic:
  assumes "lb_Group (pb_LoadBalancer b) = ''''" "routers_ok (hc_router s)"
  shows "case HTTPProxy_Run n b d h serverCfg fn pid s of
      (Inl e, s') \<Rightarrow> table (hc_router s') = table (hc_router s) \<and>
        ((\<exists>rt \<in> set (httpRoutes (SubDomainHost serverCfg) d h). table (hc_router s) (routeKey (ho_RouteByHTTPUser h) rt) \<noteq> None) \<or>
         \<not> distinct (map (routeKey (ho_RouteByHTTPUser h)) (httpRoutes (SubDomainHost serverCfg) d h)))
    | (Inr (remoteAddr, cl), s') \<Rightarrow>
        table (hc_router s') = (\<lambda>k. if k \<in> routeKey (ho_RouteByHTTPUser h) ` set (httpRoutes (SubDomainHost serverCfg) d h)
          then Some (ToOther pid) else table (hc_router s) k) \<and>
        table (hc_router (HTTPProxy_Close n (pb_LoadBalancer b) (ho_RouteByHTTPUser h) cl s')) = table (hc_router s)"
proof -
  let ?lb = "pb_LoadBalancer b" and ?u = "ho_RouteByHTTPUser h" and ?rts = "httpRoutes (SubDomainHost serverCfg) d h"
  have lb: "plain_lb ?lb" using assms(1) by (simp add: plain_lb_def)
  have L: "case httpLoop n ?lb ?u fn pid ?rts [] s of
      (Inl e, s') \<Rightarrow> table (hc_router s') = table (hc_router s) \<and>
        ((\<exists>rt \<in> set ?rts. table (hc_router s) (routeKey ?u rt) \<noteq> None) \<or> \<not> distinct (map (routeKey ?u) ([] @ ?rts)))
    | (Inr cl', s') \<Rightarrow> cl' = [] @ ?rts \<and> routers_ok (hc_router s') \<and> distinct (map (routeKey ?u) cl') \<and>
        table (hc_router s') = (\<lambda>k. if k \<in> routeKey ?u ` set cl' then Some (ToOther pid) else table (hc_router s) k) \<and>
        (\<forall>k \<in> routeKey ?u ` set cl'. table (hc_router s) k = None)"
    by (rule httpLoop_table [OF lb assms(2)]) simp_all
  obtain r s' where r: "httpLoop n ?lb ?u fn pid ?rts [] s = (r, s')" by (cases "httpLoop n ?lb ?u fn pid ?rts [] s")
  show ?thesis
  proof (cases r)
    case (Inl e)
    then show ?thesis using L r by (simp add: HTTPProxy_Run_def Let_def)
  next
    case (Inr cl)
    then have c: "cl = ?rts" "routers_ok (hc_router s')" and free: "\<forall>k \<in> routeKey ?u ` set cl. table (hc_router s) k = None"
      and t: "table (hc_router s') = (\<lambda>k. if k \<in> routeKey ?u ` set cl then Some (ToOther pid) else table (hc_router s) k)"
      using L r by auto
    have "table (hc_router (HTTPProxy_Close n ?lb ?u cl s')) = table (hc_router s)"
      using HTTPProxy_Close_table [OF lb c(2), of n ?u cl] overwrite_laws(2) [OF free] unfolding t by simp
    then show ?thesis using r Inr c(1) t by (simp add: HTTPProxy_Run_def Let_def)
  qed
qed

definition exHTTPState :: "nat HTTPGroupController" where
  "exHTTPState = NewHTTPGroupController NewRouters"

lemma exHTTP_run:
  "\<exists>s'. HTTPProxy_Run ''web'' (zeroBase ''http'') \<lparr>CustomDomains = [''a.org''], SubDomain = ''''\<rparr> zeroHTTP exServer (5::nat) 7 exHTTPState =
     (Inr (''a.org'', [(''a.org'', '''')]), s')"
proof -
  have "\<exists>r. Add ''a.org'' '''' '''' (ToOther 7) (NewRouters :: route_target Routers) = Inr r"
    using rt.add_Inr_iff [OF routers_ok_New, of "''a.org''" "''''" "''''" "ToOther 7"] by (simp add: table_def exist_def)
  then obtain r where "Add ''a.org'' '''' '''' (ToOther 7) (NewRouters :: route_target Routers) = Inr r" by blast
  then show ?thesis
    by (simp add: HTTPProxy_Run_def httpRoutes_def buildDomains_def zeroHTTP_def zeroBase_def exServer_def exHTTPState_def
        httpRegister_def NewHTTPGroupController_def CanonicalAddr_def Let_def)
qed

theorem http_routes_atomic_witness:
  "\<exists>s'. HTTPProxy_Run ''web'' (zeroBase ''http'') \<lparr>CustomDomains = [''a.org''], SubDomain = ''''\<rparr> zeroHTTP exServer (5::nat) 7 exHTTPState =
     (Inr (''a.org'', [(''a.org'', '''')]), s') \<and>
   table (hc_router (HTTPProxy_Close ''web'' (pb_LoadBalancer (zeroBase ''http'')) (ho_RouteByHTTPUser zeroHTTP) [(''a.org'', '''')] s')) =
     table (hc_router exHTTPState)"
proof -
  from exHTTP_run obtain s' where r: "HTTPProxy_Run ''web'' (zeroBase ''http'') \<lparr>CustomDomains = [''a.org''], SubDomain = ''''\<rparr> zeroHTTP exServer (5::nat) 7 exHTTPState =
     (Inr (''a.org'', [(''a.org'', '''')]), s')" by blast
  have lb: "lb_Group (pb_LoadBalancer (zeroBase ''http'')) = ''''" by (simp add: zeroBase_def)
  have ok: "routers_ok (hc_router exHTTPState)" by (simp add: exHTTPState_def NewHTTPGroupController_def routers_ok_New)
  show ?thesis using http_routes_atomic [OF lb ok, where n = "''web''" and d = "\<lparr>CustomDomains = [''a.org''], SubDomain = []\<rparr>" and h = zeroHTTP
    and serverCfg = exServer and fn = 5 and pid = 7] r by auto
qed

section \<open>Visitors\<close>

definition allowedUsers :: "string \<Rightarrow> secret_options \<Rightarrow> string list" where
  "allowedUsers user s = (if AllowUsers s = [] then [user] else AllowUsers s)"

definition visitorUser :: "(string \<rightharpoonup> string) \<Rightarrow> NewVisitorConnMsg \<Rightarrow> string option" where
  "visitorUser userOf m = (if vc_RunID m = '''' then Some '''' else userOf (vc_RunID m))"

text \<open>The states of the manager: secret proxies are started and closed, visitors come, and the proxies take connections from
  their queues. \<open>running\<close> are the started proxies with their owners, \<open>seen\<close> what visitors have presented, with the user their
  session had then.\<close>

inductive vm_run ::
    "(string \<Rightarrow> string) \<Rightarrow> visitor_manager \<Rightarrow> (string \<rightharpoonup> string \<times> secret_options) \<Rightarrow> (nat \<times> NewVisitorConnMsg \<times> string option) set \<Rightarrow> bool"
  for md5 where
  new: "vm_run md5 Map.empty Map.empty {}"
| start: "vm_run md5 vm running seen \<Longrightarrow> startVisitorListener name user s vm = Inr vm' \<Longrightarrow> vm_run md5 vm' (running(name \<mapsto> (user, s))) seen"
| close: "vm_run md5 vm running seen \<Longrightarrow> vm_run md5 (closeSecretProxy name vm) (running(name := None)) seen"
| closed: "vm_run md5 vm running seen \<Longrightarrow> vm name = Some l \<Longrightarrow> vm_run md5 (vm(name \<mapsto> l\<lparr>vl_closed := True\<rparr>)) running seen"
| visit: "vm_run md5 vm running seen \<Longrightarrow> RegisterVisitorConn md5 encOk userOf conn m vm = (r, vm') \<Longrightarrow>
    vm_run md5 vm' running (insert (conn, m, visitorUser userOf m) seen)"
| take: "vm_run md5 vm running seen \<Longrightarrow> vm name = Some l \<Longrightarrow> vm_run md5 (vm(name \<mapsto> l\<lparr>vl_queue := tl (vl_queue l)\<rparr>)) running seen"

text \<open>A connection a proxy may serve: it named the proxy, knew its key, and belongs to a user it allows.\<close>

definition authorized ::
    "(string \<Rightarrow> string) \<Rightarrow> string \<Rightarrow> string \<Rightarrow> secret_options \<Rightarrow> (nat \<times> NewVisitorConnMsg \<times> string option) set \<Rightarrow> nat \<Rightarrow> bool" where
  "authorized md5 name user s seen conn \<longleftrightarrow> (\<exists>m u. (conn, m, Some u) \<in> seen \<and> vc_ProxyName m = name \<and>
     vc_SignKey m = GetAuthKey md5 (Secretkey s) (vc_Timestamp m) \<and> (u \<in> set (allowedUsers user s) \<or> ''*'' \<in> set (allowedUsers user s)))"

definition vm_inv ::
    "(string \<Rightarrow> string) \<Rightarrow> visitor_manager \<Rightarrow> (string \<rightharpoonup> string \<times> secret_options) \<Rightarrow> (nat \<times> NewVisitorConnMsg \<times> string option) set \<Rightarrow> bool" where
  "vm_inv md5 vm running seen \<longleftrightarrow> (\<forall>name l. vm name = Some l \<longrightarrow> (\<exists>user s. running name = Some (user, s) \<and> vl_sk l = Secretkey s \<and>
     vl_allowUsers l = allowedUsers user s \<and> length (vl_queue l) \<le> 128 \<and> (\<forall>conn \<in> set (vl_queue l). authorized md5 name user s seen conn)))"

lemma vm_invD:
  "vm_inv md5 vm running seen \<Longrightarrow> vm name = Some l \<Longrightarrow> \<exists>user s. running name = Some (user, s) \<and> vl_sk l = Secretkey s \<and>
     vl_allowUsers l = allowedUsers user s \<and> length (vl_queue l) \<le> 128 \<and> (\<forall>conn \<in> set (vl_queue l). authorized md5 name user s seen conn)"
  by (simp add: vm_inv_def)

lemma authorized_mono: "authorized md5 n u s seen c \<Longrightarrow> seen \<subseteq> seen' \<Longrightarrow> authorized md5 n u s seen' c"
  unfolding authorized_def by blast

lemma vm_inv_mono: "vm_inv md5 vm running seen \<Longrightarrow> vm_inv md5 vm running (insert x seen)"
  unfolding vm_inv_def by (meson authorized_mono subset_insertI)

text \<open>One listener changes: it is enough to look at that one.\<close>

lemma vm_inv_upd:
  assumes "vm_inv md5 vm running seen" "vm name = Some l" "vl_sk l' = vl_sk l" "vl_allowUsers l' = vl_allowUsers l"
    "length (vl_queue l') \<le> 128"
    "\<And>user s conn. running name = Some (user, s) \<Longrightarrow> vl_sk l = Secretkey s \<Longrightarrow> vl_allowUsers l = allowedUsers user s \<Longrightarrow>
       \<forall>c \<in> set (vl_queue l). authorized md5 name user s seen c \<Longrightarrow> conn \<in> set (vl_queue l') \<Longrightarrow> authorized md5 name user s seen conn"
  shows "vm_inv md5 (vm(name \<mapsto> l')) running seen"
  unfolding vm_inv_def
proof (intro allI impI)
  fix n k assume k: "(vm(name \<mapsto> l')) n = Some k"
  show "\<exists>user s. running n = Some (user, s) \<and> vl_sk k = Secretkey s \<and> vl_allowUsers k = allowedUsers user s \<and>
      length (vl_queue k) \<le> 128 \<and> (\<forall>conn \<in> set (vl_queue k). authorized md5 n user s seen conn)"
  proof (cases "n = name")
    case True
    then show ?thesis using k vm_invD [OF assms(1,2)] assms(3-) by fastforce
  next
    case False
    then show ?thesis using k vm_invD [OF assms(1)] by simp
  qed
qed

lemma vmNewConn_inv:
  assumes i: "vm_inv md5 vm running seen" and log: "(conn, m, Some u) \<in> seen"
    and r: "vmNewConn md5 encOk (vc_ProxyName m) conn (vc_Timestamp m) (vc_SignKey m) (vc_UseEncryption m) u vm = (r, vm')"
  shows "vm_inv md5 vm' running seen"
proof (cases "vm' = vm")
  case False
  then obtain l where l: "vm (vc_ProxyName m) = Some l" "GetAuthKey md5 (vl_sk l) (vc_Timestamp m) = vc_SignKey m"
      "u \<in> set (vl_allowUsers l) \<or> ''*'' \<in> set (vl_allowUsers l)" "length (vl_queue l) < 128"
      "vm' = vm(vc_ProxyName m \<mapsto> l\<lparr>vl_queue := vl_queue l @ [conn]\<rparr>)"
    using r by (auto simp: vmNewConn_def PutConn_def map_upd_triv split: option.splits if_splits sum.splits)
  show ?thesis unfolding l(5)
  proof (rule vm_inv_upd [OF i l(1)])
    fix user s c assume *: "running (vc_ProxyName m) = Some (user, s)" "vl_sk l = Secretkey s" "vl_allowUsers l = allowedUsers user s"
      "\<forall>c \<in> set (vl_queue l). authorized md5 (vc_ProxyName m) user s seen c" "c \<in> set (vl_queue (l\<lparr>vl_queue := vl_queue l @ [conn]\<rparr>))"
    have "authorized md5 (vc_ProxyName m) user s seen conn"
      unfolding authorized_def using log l(2,3) *(2,3) by (intro exI [of _ m]) auto
    then show "authorized md5 (vc_ProxyName m) user s seen c" using *(4,5) by auto
  qed (use l(4) in simp_all)
qed (use i in simp)

lemma vm_run_inv: "vm_run md5 vm running seen \<Longrightarrow> vm_inv md5 vm running seen"
proof (induction rule: vm_run.induct)
  case (start vm running seen name user s vm')
  have "vm' = vm(name \<mapsto> \<lparr>vl_queue = [], vl_closed = False, vl_sk = Secretkey s, vl_allowUsers = allowedUsers user s\<rparr>)"
    using start.hyps(2) by (auto simp: startVisitorListener_def vmListen_def allowedUsers_def split: if_splits)
  then show ?case using start.IH by (auto simp: vm_inv_def)
next
  case (close vm running seen name)
  then show ?case by (auto simp: closeSecretProxy_def vmCloseListener_def vm_inv_def)
next
  case (closed vm running seen name l)
  then show ?case using vm_invD [OF closed.IH closed.hyps(2)] by (intro vm_inv_upd [OF closed.IH closed.hyps(2)]) auto
next
  case (visit vm running seen encOk userOf conn m r vm')
  let ?seen = "insert (conn, m, visitorUser userOf m) seen"
  have i: "vm_inv md5 vm running ?seen" by (rule vm_inv_mono [OF visit.IH])
  show ?case
  proof (cases "visitorUser userOf m")
    case None
    then show ?thesis using i visit.hyps(2) by (auto simp: visitorUser_def RegisterVisitorConn_def split: if_splits)
  next
    case (Some u)
    then have "vmNewConn md5 encOk (vc_ProxyName m) conn (vc_Timestamp m) (vc_SignKey m) (vc_UseEncryption m) u vm = (r, vm')"
      using visit.hyps(2) by (auto simp: visitorUser_def RegisterVisitorConn_def split: if_splits)
    then show ?thesis using Some by (intro vmNewConn_inv [OF i, of conn m u]) simp_all
  qed
next
  case (take vm running seen name l)
  have "set (tl (vl_queue l)) \<subseteq> set (vl_queue l)" by (cases "vl_queue l") auto
  then show ?case using vm_invD [OF take.IH take.hyps(2)] by (intro vm_inv_upd [OF take.IH take.hyps(2)]) auto
qed (simp add: vm_inv_def)

text \<open>C5: Visitors of secret proxies. Every connection waiting at a secret proxy named this proxy, presented the key made from
  the proxy's secret and its own timestamp, and came from a session whose user the proxy allows: its owner if no list is
  given. No more than 128 wait.\<close>

theorem visitors_authorized:
  assumes "vm_run md5 vm running seen" "vm name = Some l"
  shows "\<exists>user s. running name = Some (user, s) \<and> length (vl_queue l) \<le> 128 \<and>
    (\<forall>conn \<in> set (vl_queue l). authorized md5 name user s seen conn)"
  using vm_invD [OF vm_run_inv [OF assms(1)] assms(2)] by blast

definition exSecret :: secret_options where
  "exSecret = \<lparr>Secretkey = ''k'', AllowUsers = []\<rparr>"

definition exVisit :: NewVisitorConnMsg where
  "exVisit = \<lparr>vc_RunID = ''r1'', vc_ProxyName = ''ssh'', vc_SignKey = GetAuthKey (\<lambda>s. s) ''k'' 5, vc_Timestamp = 5, vc_UseEncryption = False\<rparr>"

definition exBundle :: listenerBundle where
  "exBundle = \<lparr>vl_queue = [3], vl_closed = False, vl_sk = ''k'', vl_allowUsers = [''amy'']\<rparr>"

theorem visitors_authorized_witness:
  "authorized (\<lambda>s. s) ''ssh'' ''amy'' exSecret {(3, exVisit, Some ''amy'')} 3"
proof -
  let ?before = "[''ssh'' \<mapsto> (exBundle\<lparr>vl_queue := []\<rparr>)]" and ?vm = "[''ssh'' \<mapsto> exBundle]" and ?running = "[''ssh'' \<mapsto> (''amy'', exSecret)]"
  have "startVisitorListener ''ssh'' ''amy'' exSecret Map.empty = Inr ?before"
    by (simp add: startVisitorListener_def vmListen_def exSecret_def exBundle_def)
  from vm_run.start [OF vm_run.new this] have r0: "vm_run (\<lambda>s. s) ?before ?running {}" by simp
  have "RegisterVisitorConn (\<lambda>s. s) True [''r1'' \<mapsto> ''amy''] 3 exVisit ?before = (Inr (), ?vm)"
    by (simp add: RegisterVisitorConn_def exVisit_def vmNewConn_def PutConn_def exBundle_def)
  from vm_run.visit [OF r0 this] have r: "vm_run (\<lambda>s. s) ?vm ?running {(3, exVisit, Some ''amy'')}"
    by (simp add: visitorUser_def exVisit_def)
  have "?vm ''ssh'' = Some exBundle" by simp
  from visitors_authorized [OF r this] show ?thesis by (auto simp: exBundle_def)
qed

end
