(* ===== verification/Visitor_Config.thy ===== *)
theory Visitor_Config
  imports Config_Validation
begin

text \<open>
  Visitor configurations (\<open>pkg/config/v1/visitor.go\<close>, \<open>visitor_plugin.go\<close>), their defaults and their checks
  (\<open>pkg/config/v1/validation/visitor.go\<close>). The \<open>NatTraversal\<close> pointer is the option of its only field.
\<close>

section \<open>Configurations\<close>

record VisitorTransport =
  vt_UseEncryption :: bool
  vt_UseCompression :: bool

record VisitorPlugin =
  vp_Type :: string
  vp_DestinationIP :: "string option"

record VisitorBaseConfig =
  vb_Name :: string
  vb_Type :: string
  vb_Enabled :: "bool option"
  vb_Transport :: VisitorTransport
  vb_SecretKey :: string
  vb_ServerUser :: string
  vb_ServerName :: string
  vb_BindAddr :: string
  vb_BindPort :: int
  vb_Plugin :: VisitorPlugin

record tunnel_options =
  to_Protocol :: string
  to_KeepTunnelOpen :: bool
  to_MaxRetriesAnHour :: int
  to_MinRetryInterval :: int
  to_NatTraversal :: "bool option"

datatype VisitorConfigurer =
    STCPVisitorConfig VisitorBaseConfig
  | SUDPVisitorConfig VisitorBaseConfig
  | STCPSUDPVisitorConfig VisitorBaseConfig
  | XTCPVisitorConfig VisitorBaseConfig tunnel_options (FallbackTo: string) (FallbackTimeoutMs: int)
  | XUDPVisitorConfig VisitorBaseConfig tunnel_options
  | XTCPXUDPVisitorConfig VisitorBaseConfig tunnel_options (FallbackTimeoutMs: int)

fun vGetBaseConfig :: "VisitorConfigurer \<Rightarrow> VisitorBaseConfig" where
  "vGetBaseConfig (STCPVisitorConfig b) = b"
| "vGetBaseConfig (SUDPVisitorConfig b) = b"
| "vGetBaseConfig (STCPSUDPVisitorConfig b) = b"
| "vGetBaseConfig (XTCPVisitorConfig b _ _ _) = b"
| "vGetBaseConfig (XUDPVisitorConfig b _) = b"
| "vGetBaseConfig (XTCPXUDPVisitorConfig b _ _) = b"

definition vBaseComplete :: "VisitorBaseConfig \<Rightarrow> VisitorBaseConfig" where
  "vBaseComplete b = (if vb_BindAddr b = '''' then b\<lparr>vb_BindAddr := ''127.0.0.1''\<rparr> else b)"

definition tunnelComplete :: "tunnel_options \<Rightarrow> tunnel_options" where
  "tunnelComplete t =
     t\<lparr>to_Protocol := EmptyOr '''' (to_Protocol t) ''quic'', to_MaxRetriesAnHour := EmptyOr 0 (to_MaxRetriesAnHour t) 8,
       to_MinRetryInterval := EmptyOr 0 (to_MinRetryInterval t) 90\<rparr>"

fun vComplete :: "VisitorConfigurer \<Rightarrow> VisitorConfigurer" where
  "vComplete (STCPVisitorConfig b) = STCPVisitorConfig (vBaseComplete b)"
| "vComplete (SUDPVisitorConfig b) = SUDPVisitorConfig (vBaseComplete b)"
| "vComplete (STCPSUDPVisitorConfig b) = STCPSUDPVisitorConfig (vBaseComplete b)"
| "vComplete (XTCPVisitorConfig b t f ms) = XTCPVisitorConfig (vBaseComplete b) (tunnelComplete t) f (EmptyOr 0 ms 1000)"
| "vComplete (XUDPVisitorConfig b t) = XUDPVisitorConfig (vBaseComplete b) (tunnelComplete t)"
| "vComplete (XTCPXUDPVisitorConfig b t ms) = XTCPXUDPVisitorConfig (vBaseComplete b) (tunnelComplete t) (EmptyOr 0 ms 1000)"

section \<open>Types\<close>

definition zeroVisitorBase :: "string \<Rightarrow> VisitorBaseConfig" where
  "zeroVisitorBase t =
     \<lparr>vb_Name = '''', vb_Type = t, vb_Enabled = None, vb_Transport = \<lparr>vt_UseEncryption = False, vt_UseCompression = False\<rparr>,
      vb_SecretKey = '''', vb_ServerUser = '''', vb_ServerName = '''', vb_BindAddr = '''', vb_BindPort = 0,
      vb_Plugin = \<lparr>vp_Type = '''', vp_DestinationIP = None\<rparr>\<rparr>"

definition zeroTunnel :: tunnel_options where
  "zeroTunnel = \<lparr>to_Protocol = '''', to_KeepTunnelOpen = False, to_MaxRetriesAnHour = 0, to_MinRetryInterval = 0, to_NatTraversal = None\<rparr>"

definition visitorConfigTypeMap :: "(string \<times> (VisitorBaseConfig \<Rightarrow> VisitorConfigurer)) list" where
  "visitorConfigTypeMap =
     [(''stcp'', STCPVisitorConfig),
      (''xtcp'', \<lambda>b. XTCPVisitorConfig b zeroTunnel '''' 0),
      (''sudp'', SUDPVisitorConfig),
      (''xudp'', \<lambda>b. XUDPVisitorConfig b zeroTunnel),
      (''stcp+sudp'', STCPSUDPVisitorConfig),
      (''xtcp+xudp'', \<lambda>b. XTCPXUDPVisitorConfig b zeroTunnel 0)]"

definition NewVisitorConfigurerByType :: "string \<Rightarrow> VisitorConfigurer option" where
  "NewVisitorConfigurerByType t = map_option (\<lambda>f. f (zeroVisitorBase t)) (map_of visitorConfigTypeMap t)"

section \<open>Checks\<close>

datatype visitor_error = VNameRequired | VServerNameRequired | VBindPortRequired | VBadProtocol

definition validateVisitorBaseConfig :: "VisitorBaseConfig \<Rightarrow> (visitor_error, unit) result" where
  "validateVisitorBaseConfig b =
     (if vb_Name b = '''' then Inl VNameRequired
      else if vb_ServerName b = '''' then Inl VServerNameRequired
      else if vb_BindPort b = 0 then Inl VBindPortRequired
      else Inr ())"

definition validateTunnel :: "tunnel_options \<Rightarrow> (visitor_error, unit) result" where
  "validateTunnel t = (if to_Protocol t \<in> {''kcp'', ''quic''} then Inr () else Inl VBadProtocol)"

definition ValidateVisitorConfigurer :: "VisitorConfigurer \<Rightarrow> (visitor_error, unit) result" where
  "ValidateVisitorConfigurer c =
     (case validateVisitorBaseConfig (vGetBaseConfig c) of Inl e \<Rightarrow> Inl e
      | Inr _ \<Rightarrow>
          (case c of XTCPVisitorConfig _ t _ _ \<Rightarrow> validateTunnel t | XUDPVisitorConfig _ t \<Rightarrow> validateTunnel t
           | XTCPXUDPVisitorConfig _ t _ \<Rightarrow> validateTunnel t | _ \<Rightarrow> Inr ()))"

section \<open>Facts\<close>

lemma vBaseComplete_fields [simp]:
  "vb_Name (vBaseComplete b) = vb_Name b" "vb_Enabled (vBaseComplete b) = vb_Enabled b"
  by (simp_all add: vBaseComplete_def)

lemma vGetBase_vComplete [simp]: "vGetBaseConfig (vComplete c) = vBaseComplete (vGetBaseConfig c)"
  by (cases c) simp_all

text \<open>Completing twice is completing once: a configuration that passes through several sources keeps its meaning.\<close>

lemma vComplete_idem: "vComplete (vComplete c) = vComplete c"
  by (cases c) (simp_all add: vBaseComplete_def tunnelComplete_def EmptyOr_def)

text \<open>The defaults never turn a valid configuration into an invalid one, and repair a missing protocol.\<close>

lemma validate_vComplete:
  assumes "ValidateVisitorConfigurer c = Inr ()"
  shows "ValidateVisitorConfigurer (vComplete c) = Inr ()"
  using assms
  by (cases c) (auto simp: ValidateVisitorConfigurer_def validateVisitorBaseConfig_def validateTunnel_def vBaseComplete_def
    tunnelComplete_def EmptyOr_def split: if_splits)

end
