(* ===== verification/Config_Source.thy ===== *)
theory Config_Source
  imports Visitor_Config "HOL-Library.AList"
begin

text \<open>
  The sources of a client's configuration: decoding (\<open>pkg/config/v1/decode.go\<close>), the source holding the configuration file and
  the store that the API changes and keeps on disk (\<open>pkg/config/source\<close>), their aggregation, and the selection of what is
  started (\<open>pkg/config/load.go\<close>). The JSON library is a parameter. A Go map is a map, and the order in which a loop walks it an
  argument; the copies \<open>Clone\<close> makes are equal values here, so that what is completed later never changes what is stored.
\<close>

section \<open>Decoding\<close>

text \<open>The JSON library: \<open>js_env\<close> reads the type and the text of the plugin (empty when absent), the next four fill a
  configuration, \<open>js_store\<close> splits a stored document into its elements; \<open>js_encP\<close>, \<open>js_encV\<close> and \<open>js_doc\<close> write one.\<close>

record jsonx =
  js_env :: "string \<Rightarrow> (string, string \<times> string) result"
  js_proxy :: "string \<Rightarrow> ProxyConfigurer \<Rightarrow> (string, ProxyConfigurer) result"
  js_visitor :: "string \<Rightarrow> VisitorConfigurer \<Rightarrow> (string, VisitorConfigurer) result"
  js_plugin :: "string \<Rightarrow> ClientPluginOptions \<Rightarrow> (string, ClientPluginOptions) result"
  js_vplugin :: "string \<Rightarrow> (string, string) result"
  js_store :: "string \<Rightarrow> (string, string list \<times> string list) result"
  js_encP :: "ProxyConfigurer \<Rightarrow> (string, string) result"
  js_encV :: "VisitorConfigurer \<Rightarrow> (string, string) result"
  js_doc :: "string list \<Rightarrow> string list \<Rightarrow> string"

datatype decode_error =
    TypeRequired
  | BadJSON string
  | UnknownConfigType string
  | PluginTypeEmpty
  | UnknownPlugin string

definition isJSONNull :: "string \<Rightarrow> bool" where
  "isJSONNull b \<longleftrightarrow> b = [] \<or> b = ''null''"

definition zeroPluginHTTP :: plugin_http where
  "zeroPluginHTTP = \<lparr>pl_LocalAddr = '''', pl_HostHeaderRewrite = '''', pl_RequestHeaders = []\<rparr>"

definition zeroPluginHTTPS :: plugin_https where
  "zeroPluginHTTPS = \<lparr>pl_LocalAddr = '''', pl_HostHeaderRewrite = '''', pl_RequestHeaders = [],
     pl_EnableHTTP2 = None, pl_CrtPath = '''', pl_KeyPath = ''''\<rparr>"

definition clientPluginOptionsTypeMap :: "(string \<times> ClientPluginOptions) list" where
  "clientPluginOptionsTypeMap =
     [(''http2https'', HTTP2HTTPSPluginOptions zeroPluginHTTP),
      (''http_proxy'', HTTPProxyPluginOptions '''' ''''),
      (''https2http'', HTTPS2HTTPPluginOptions zeroPluginHTTPS),
      (''https2https'', HTTPS2HTTPSPluginOptions zeroPluginHTTPS),
      (''http2http'', HTTP2HTTPPluginOptions zeroPluginHTTP),
      (''socks5'', Socks5PluginOptions '''' ''''),
      (''static_file'', StaticFilePluginOptions '''' '''' '''' ''''),
      (''unix_domain_socket'', UnixDomainSocketPluginOptions ''''),
      (''tls2raw'', TLS2RawPluginOptions '''' '''' ''''),
      (''virtual_net'', VirtualNetPluginOptions)]"

definition DecodeClientPluginOptionsJSON :: "jsonx \<Rightarrow> string \<Rightarrow> (decode_error, string \<times> ClientPluginOptions option) result" where
  "DecodeClientPluginOptionsJSON js b =
     (if isJSONNull b then Inr ('''', None)
      else case js_env js b of Inl e \<Rightarrow> Inl (BadJSON e)
      | Inr (t, _) \<Rightarrow>
          if t = '''' then Inl PluginTypeEmpty
          else (case map_of clientPluginOptionsTypeMap t of None \<Rightarrow> Inl (UnknownPlugin t)
                | Some p0 \<Rightarrow> (case js_plugin js b p0 of Inl e \<Rightarrow> Inl (BadJSON e) | Inr p \<Rightarrow> Inr (t, Some p))))"

definition DecodeVisitorPluginOptionsJSON :: "jsonx \<Rightarrow> string \<Rightarrow> (decode_error, VisitorPlugin) result" where
  "DecodeVisitorPluginOptionsJSON js b =
     (if isJSONNull b then Inr \<lparr>vp_Type = '''', vp_DestinationIP = None\<rparr>
      else case js_env js b of Inl e \<Rightarrow> Inl (BadJSON e)
      | Inr (t, _) \<Rightarrow>
          if t = '''' then Inl PluginTypeEmpty
          else if t \<noteq> ''virtual_net'' then Inl (UnknownPlugin t)
          else (case js_vplugin js b of Inl e \<Rightarrow> Inl (BadJSON e) | Inr ip \<Rightarrow> Inr \<lparr>vp_Type = t, vp_DestinationIP = Some ip\<rparr>))"

definition DecodeProxyConfigurerJSON :: "jsonx \<Rightarrow> string \<Rightarrow> (decode_error, ProxyConfigurer) result" where
  "DecodeProxyConfigurerJSON js b =
     (if isJSONNull b then Inl TypeRequired
      else case js_env js b of Inl e \<Rightarrow> Inl (BadJSON e)
      | Inr (t, plugin) \<Rightarrow>
          (case NewProxyConfigurerByType t of None \<Rightarrow> Inl (UnknownConfigType t)
           | Some c0 \<Rightarrow>
               (case js_proxy js b c0 of Inl e \<Rightarrow> Inl (BadJSON e)
                | Inr c \<Rightarrow>
                    if isJSONNull plugin then Inr c
                    else (case DecodeClientPluginOptionsJSON js plugin of Inl e \<Rightarrow> Inl e
                          | Inr (pt, p) \<Rightarrow> Inr (mapBase (\<lambda>x. x\<lparr>pb_PluginType := pt, pb_Plugin := p\<rparr>) c)))))"

fun vMapBase :: "(VisitorBaseConfig \<Rightarrow> VisitorBaseConfig) \<Rightarrow> VisitorConfigurer \<Rightarrow> VisitorConfigurer" where
  "vMapBase f (STCPVisitorConfig b) = STCPVisitorConfig (f b)"
| "vMapBase f (SUDPVisitorConfig b) = SUDPVisitorConfig (f b)"
| "vMapBase f (STCPSUDPVisitorConfig b) = STCPSUDPVisitorConfig (f b)"
| "vMapBase f (XTCPVisitorConfig b t s ms) = XTCPVisitorConfig (f b) t s ms"
| "vMapBase f (XUDPVisitorConfig b t) = XUDPVisitorConfig (f b) t"
| "vMapBase f (XTCPXUDPVisitorConfig b t ms) = XTCPXUDPVisitorConfig (f b) t ms"

definition DecodeVisitorConfigurerJSON :: "jsonx \<Rightarrow> string \<Rightarrow> (decode_error, VisitorConfigurer) result" where
  "DecodeVisitorConfigurerJSON js b =
     (if isJSONNull b then Inl TypeRequired
      else case js_env js b of Inl e \<Rightarrow> Inl (BadJSON e)
      | Inr (t, plugin) \<Rightarrow>
          (case NewVisitorConfigurerByType t of None \<Rightarrow> Inl (UnknownConfigType t)
           | Some c0 \<Rightarrow>
               (case js_visitor js b c0 of Inl e \<Rightarrow> Inl (BadJSON e)
                | Inr c \<Rightarrow>
                    if isJSONNull plugin then Inr c
                    else (case DecodeVisitorPluginOptionsJSON js plugin of Inl e \<Rightarrow> Inl e
                          | Inr p \<Rightarrow> Inr (vMapBase (\<lambda>x. x\<lparr>vb_Plugin := p\<rparr>) c)))))"

section \<open>Sources\<close>

definition storeKindProxy :: string where "storeKindProxy = ''proxy''"
definition storeKindVisitor :: string where "storeKindVisitor = ''visitor''"

datatype save_error = MarshalFailed string | MkdirFailed | CreateTempFailed | WriteFailed | SyncFailed | CloseFailed | RenameFailed

datatype source_error =
    NilEntry string
  | EmptyName string
  | ErrAlreadyExists string string
  | ErrNotFound string string
  | PersistFailed save_error
  | NoSources
  | PathRequired
  | ReadFailed
  | ParseFailed string
  | DecodeFailed string nat decode_error

abbreviation proxyName :: "ProxyConfigurer \<Rightarrow> string" where "proxyName c \<equiv> pb_Name (GetBaseConfig c)"
abbreviation visitorName :: "VisitorConfigurer \<Rightarrow> string" where "visitorName c \<equiv> vb_Name (vGetBaseConfig c)"

text \<open>\<open>nil\<close> or true means enabled.\<close>

definition isEnabled :: "bool option \<Rightarrow> bool" where
  "isEnabled e \<longleftrightarrow> e \<noteq> Some False"

definition validateName :: "string \<Rightarrow> ('a \<Rightarrow> string) \<Rightarrow> 'a option \<Rightarrow> (source_error, string) result" where
  "validateName kind nameOf c =
     (case c of None \<Rightarrow> Inl (NilEntry kind) | Some x \<Rightarrow> if nameOf x = '''' then Inl (EmptyName kind) else Inr (nameOf x))"

definition validateProxyName :: "ProxyConfigurer option \<Rightarrow> (source_error, string) result" where
  "validateProxyName = validateName storeKindProxy (\<lambda>c. proxyName c)"

definition validateVisitorName :: "VisitorConfigurer option \<Rightarrow> (source_error, string) result" where
  "validateVisitorName = validateName storeKindVisitor (\<lambda>c. visitorName c)"

record baseSource =
  bs_proxies :: "string \<rightharpoonup> ProxyConfigurer"
  bs_visitors :: "string \<rightharpoonup> VisitorConfigurer"

definition newBaseSource :: baseSource where
  "newBaseSource = \<lparr>bs_proxies = Map.empty, bs_visitors = Map.empty\<rparr>"

text \<open>The loop over a map in some order, keeping what is enabled.\<close>

definition loadEntries :: "('a \<Rightarrow> bool option) \<Rightarrow> string list \<Rightarrow> (string \<rightharpoonup> 'a) \<Rightarrow> 'a list" where
  "loadEntries enabledOf order m = filter (\<lambda>c. isEnabled (enabledOf c)) (List.map_filter m order)"

fun cloneEntries :: "string \<Rightarrow> 'a option list \<Rightarrow> (source_error, 'a list) result" where
  "cloneEntries kind [] = Inr []"
| "cloneEntries kind (None # cs) = Inl (NilEntry kind)"
| "cloneEntries kind (Some c # cs) = (case cloneEntries kind cs of Inl e \<Rightarrow> Inl e | Inr xs \<Rightarrow> Inr (c # xs))"

definition cloneConfigurers ::
    "ProxyConfigurer option list \<Rightarrow> VisitorConfigurer option list \<Rightarrow> (source_error, ProxyConfigurer list \<times> VisitorConfigurer list) result" where
  "cloneConfigurers ps vs =
     (case cloneEntries storeKindProxy ps of Inl e \<Rightarrow> Inl e
      | Inr ps' \<Rightarrow> (case cloneEntries storeKindVisitor vs of Inl e \<Rightarrow> Inl e | Inr vs' \<Rightarrow> Inr (ps', vs')))"

type_synonym walk = "string list \<times> string list"

definition baseLoad :: "walk \<Rightarrow> baseSource \<Rightarrow> (source_error, ProxyConfigurer list \<times> VisitorConfigurer list) result" where
  "baseLoad w s =
     cloneConfigurers
       (map Some (loadEntries (\<lambda>c. pb_Enabled (GetBaseConfig c)) (fst w) (bs_proxies s)))
       (map Some (loadEntries (\<lambda>c. vb_Enabled (vGetBaseConfig c)) (snd w) (bs_visitors s)))"

fun collectEntries :: "('a option \<Rightarrow> (source_error, string) result) \<Rightarrow> 'a option list \<Rightarrow> (string \<rightharpoonup> 'a) \<Rightarrow> (source_error, string \<rightharpoonup> 'a) result" where
  "collectEntries vld [] m = Inr m"
| "collectEntries vld (c # cs) m = (case vld c of Inl e \<Rightarrow> Inl e | Inr n \<Rightarrow> collectEntries vld cs (m(n := c)))"

definition ReplaceAll ::
    "ProxyConfigurer option list \<Rightarrow> VisitorConfigurer option list \<Rightarrow> baseSource \<Rightarrow> (source_error, unit) result \<times> baseSource" where
  "ReplaceAll ps vs s =
     (case collectEntries validateProxyName ps Map.empty of Inl e \<Rightarrow> (Inl e, s)
      | Inr pm \<Rightarrow>
          (case collectEntries validateVisitorName vs Map.empty of Inl e \<Rightarrow> (Inl e, s)
           | Inr vm \<Rightarrow> (Inr (), s\<lparr>bs_proxies := pm, bs_visitors := vm\<rparr>)))"


section \<open>Store\<close>

text \<open>The files of the store: the file itself and the temporary one beside it. A file being written is cut short.\<close>

datatype content = Whole string | Cut

record disk =
  dk_file :: "content option"
  dk_tmp :: "content option"

text \<open>What the file system answers to one save.\<close>

record save_env =
  se_mkdir :: bool
  se_open :: bool
  se_write :: bool
  se_sync :: bool
  se_close :: bool
  se_rename :: bool
  se_remove :: bool

record StoreSource =
  st_src :: baseSource
  st_disk :: disk
  st_seen :: "disk list"

fun encodeAll :: "('a \<Rightarrow> (string, string) result) \<Rightarrow> 'a list \<Rightarrow> (string, string list) result" where
  "encodeAll enc [] = Inr []"
| "encodeAll enc (c # cs) =
     (case enc c of Inl e \<Rightarrow> Inl e | Inr x \<Rightarrow> (case encodeAll enc cs of Inl e \<Rightarrow> Inl e | Inr xs \<Rightarrow> Inr (x # xs)))"

definition marshalStore :: "jsonx \<Rightarrow> walk \<Rightarrow> baseSource \<Rightarrow> (string, string) result" where
  "marshalStore js w s =
     (case encodeAll (js_encP js) (List.map_filter (bs_proxies s) (fst w)) of Inl e \<Rightarrow> Inl e
      | Inr ps \<Rightarrow> (case encodeAll (js_encV js) (List.map_filter (bs_visitors s) (snd w)) of Inl e \<Rightarrow> Inl e
                   | Inr vs \<Rightarrow> Inr (js_doc js ps vs)))"

definition removeTmp :: "save_env \<Rightarrow> disk \<Rightarrow> disk" where
  "removeTmp env d = (if se_remove env then d\<lparr>dk_tmp := None\<rparr> else d)"

text \<open>The result and the states of the disk on the way, the newest last.\<close>

definition saveToFileUnlocked :: "jsonx \<Rightarrow> walk \<Rightarrow> save_env \<Rightarrow> baseSource \<Rightarrow> disk \<Rightarrow> (save_error, unit) result \<times> disk list" where
  "saveToFileUnlocked js w env s d =
     (case marshalStore js w s of Inl e \<Rightarrow> (Inl (MarshalFailed e), [d])
      | Inr data \<Rightarrow>
          if \<not> se_mkdir env then (Inl MkdirFailed, [d])
          else if \<not> se_open env then (Inl CreateTempFailed, [d])
          else let d1 = d\<lparr>dk_tmp := Some Cut\<rparr>; d2 = d\<lparr>dk_tmp := Some (Whole data)\<rparr> in
            if \<not> se_write env then (Inl WriteFailed, [d, d1, removeTmp env d1])
            else if \<not> se_sync env then (Inl SyncFailed, [d, d1, d2, removeTmp env d2])
            else if \<not> se_close env then (Inl CloseFailed, [d, d1, d2, removeTmp env d2])
            else if \<not> se_rename env then (Inl RenameFailed, [d, d1, d2, removeTmp env d2])
            else (Inr (), [d, d1, d2, d\<lparr>dk_file := Some (Whole data), dk_tmp := None\<rparr>]))"

definition persistOrRollbackUnlocked ::
    "jsonx \<Rightarrow> walk \<Rightarrow> save_env \<Rightarrow> (baseSource \<Rightarrow> baseSource) \<Rightarrow> StoreSource \<Rightarrow> (source_error, unit) result \<times> StoreSource" where
  "persistOrRollbackUnlocked js w env rollback s =
     (case saveToFileUnlocked js w env (st_src s) (st_disk s) of (r, ds) \<Rightarrow>
        let s1 = s\<lparr>st_disk := last ds, st_seen := st_seen s @ ds\<rparr> in
        (case r of Inl e \<Rightarrow> (Inl (PersistFailed e), s1\<lparr>st_src := rollback (st_src s1)\<rparr>) | Inr _ \<Rightarrow> (Inr (), s1)))"

text \<open>The map an operation works on: how to read it and how to change it.\<close>

type_synonym 'a entries = "(baseSource \<Rightarrow> string \<rightharpoonup> 'a) \<times> (((string \<rightharpoonup> 'a) \<Rightarrow> string \<rightharpoonup> 'a) \<Rightarrow> baseSource \<Rightarrow> baseSource)"

definition proxyStoreEntries :: "ProxyConfigurer entries" where
  "proxyStoreEntries = (bs_proxies, bs_proxies_update)"

definition visitorStoreEntries :: "VisitorConfigurer entries" where
  "visitorStoreEntries = (bs_visitors, bs_visitors_update)"

definition addStoreEntry ::
    "jsonx \<Rightarrow> walk \<Rightarrow> save_env \<Rightarrow> 'a entries \<Rightarrow> string \<Rightarrow> string \<Rightarrow> 'a \<Rightarrow> StoreSource \<Rightarrow> (source_error, unit) result \<times> StoreSource" where
  "addStoreEntry js w env entries kind name v s =
     (if fst entries (st_src s) name \<noteq> None then (Inl (ErrAlreadyExists kind name), s)
      else persistOrRollbackUnlocked js w env (snd entries (\<lambda>m. m(name := None)))
             (s\<lparr>st_src := snd entries (\<lambda>m. m(name \<mapsto> v)) (st_src s)\<rparr>))"

definition updateStoreEntry ::
    "jsonx \<Rightarrow> walk \<Rightarrow> save_env \<Rightarrow> 'a entries \<Rightarrow> string \<Rightarrow> string \<Rightarrow> 'a \<Rightarrow> StoreSource \<Rightarrow> (source_error, unit) result \<times> StoreSource" where
  "updateStoreEntry js w env entries kind name v s =
     (case fst entries (st_src s) name of None \<Rightarrow> (Inl (ErrNotFound kind name), s)
      | Some old \<Rightarrow> persistOrRollbackUnlocked js w env (snd entries (\<lambda>m. m(name \<mapsto> old)))
             (s\<lparr>st_src := snd entries (\<lambda>m. m(name \<mapsto> v)) (st_src s)\<rparr>))"

definition removeStoreEntry ::
    "jsonx \<Rightarrow> walk \<Rightarrow> save_env \<Rightarrow> 'a entries \<Rightarrow> string \<Rightarrow> string \<Rightarrow> StoreSource \<Rightarrow> (source_error, unit) result \<times> StoreSource" where
  "removeStoreEntry js w env entries kind name s =
     (if name = '''' then (Inl (EmptyName kind), s)
      else case fst entries (st_src s) name of None \<Rightarrow> (Inl (ErrNotFound kind name), s)
      | Some old \<Rightarrow> persistOrRollbackUnlocked js w env (snd entries (\<lambda>m. m(name \<mapsto> old)))
             (s\<lparr>st_src := snd entries (\<lambda>m. m(name := None)) (st_src s)\<rparr>))"

definition AddProxy :: "jsonx \<Rightarrow> walk \<Rightarrow> save_env \<Rightarrow> ProxyConfigurer option \<Rightarrow> StoreSource \<Rightarrow> (source_error, unit) result \<times> StoreSource" where
  "AddProxy js w env c s =
     (case validateProxyName c of Inl e \<Rightarrow> (Inl e, s)
      | Inr name \<Rightarrow> addStoreEntry js w env proxyStoreEntries storeKindProxy name (the c) s)"

definition UpdateProxy :: "jsonx \<Rightarrow> walk \<Rightarrow> save_env \<Rightarrow> ProxyConfigurer option \<Rightarrow> StoreSource \<Rightarrow> (source_error, unit) result \<times> StoreSource" where
  "UpdateProxy js w env c s =
     (case validateProxyName c of Inl e \<Rightarrow> (Inl e, s)
      | Inr name \<Rightarrow> updateStoreEntry js w env proxyStoreEntries storeKindProxy name (the c) s)"

definition RemoveProxy :: "jsonx \<Rightarrow> walk \<Rightarrow> save_env \<Rightarrow> string \<Rightarrow> StoreSource \<Rightarrow> (source_error, unit) result \<times> StoreSource" where
  "RemoveProxy js w env name s = removeStoreEntry js w env proxyStoreEntries storeKindProxy name s"

definition GetProxy :: "string \<Rightarrow> StoreSource \<Rightarrow> ProxyConfigurer option" where
  "GetProxy name s = bs_proxies (st_src s) name"

definition AddVisitor :: "jsonx \<Rightarrow> walk \<Rightarrow> save_env \<Rightarrow> VisitorConfigurer option \<Rightarrow> StoreSource \<Rightarrow> (source_error, unit) result \<times> StoreSource" where
  "AddVisitor js w env c s =
     (case validateVisitorName c of Inl e \<Rightarrow> (Inl e, s)
      | Inr name \<Rightarrow> addStoreEntry js w env visitorStoreEntries storeKindVisitor name (the c) s)"

definition UpdateVisitor :: "jsonx \<Rightarrow> walk \<Rightarrow> save_env \<Rightarrow> VisitorConfigurer option \<Rightarrow> StoreSource \<Rightarrow> (source_error, unit) result \<times> StoreSource" where
  "UpdateVisitor js w env c s =
     (case validateVisitorName c of Inl e \<Rightarrow> (Inl e, s)
      | Inr name \<Rightarrow> updateStoreEntry js w env visitorStoreEntries storeKindVisitor name (the c) s)"

definition RemoveVisitor :: "jsonx \<Rightarrow> walk \<Rightarrow> save_env \<Rightarrow> string \<Rightarrow> StoreSource \<Rightarrow> (source_error, unit) result \<times> StoreSource" where
  "RemoveVisitor js w env name s = removeStoreEntry js w env visitorStoreEntries storeKindVisitor name s"

definition GetVisitor :: "string \<Rightarrow> StoreSource \<Rightarrow> VisitorConfigurer option" where
  "GetVisitor name s = bs_visitors (st_src s) name"

definition GetAllProxies :: "string list \<Rightarrow> StoreSource \<Rightarrow> ProxyConfigurer list" where
  "GetAllProxies order s = List.map_filter (bs_proxies (st_src s)) order"

definition GetAllVisitors :: "string list \<Rightarrow> StoreSource \<Rightarrow> VisitorConfigurer list" where
  "GetAllVisitors order s = List.map_filter (bs_visitors (st_src s)) order"

fun decodeEntries ::
    "(string \<Rightarrow> (decode_error, 'a) result) \<Rightarrow> ('a \<Rightarrow> string) \<Rightarrow> string \<Rightarrow> nat \<Rightarrow> string list \<Rightarrow> (string \<rightharpoonup> 'a) \<Rightarrow> (source_error, string \<rightharpoonup> 'a) result" where
  "decodeEntries dec nameOf kind i [] m = Inr m"
| "decodeEntries dec nameOf kind i (x # xs) m =
     (case dec x of Inl e \<Rightarrow> Inl (DecodeFailed kind i e)
      | Inr c \<Rightarrow> if nameOf c = '''' then Inl (EmptyName kind)
                 else decodeEntries dec nameOf kind (i + 1) xs (m(nameOf c \<mapsto> c)))"

text \<open>Reading the file; a file that was cut short is text no store was written to.\<close>

definition loadFromFileUnlocked :: "jsonx \<Rightarrow> content \<Rightarrow> (source_error, baseSource) result" where
  "loadFromFileUnlocked js f =
     (case (case f of Whole data \<Rightarrow> js_store js data | Cut \<Rightarrow> Inl ''unexpected end of JSON input'') of
        Inl e \<Rightarrow> Inl (ParseFailed e)
      | Inr (ps, vs) \<Rightarrow>
          (case decodeEntries (DecodeProxyConfigurerJSON js) (\<lambda>c. proxyName c) storeKindProxy 0 ps Map.empty of Inl e \<Rightarrow> Inl e
           | Inr pm \<Rightarrow>
               (case decodeEntries (DecodeVisitorConfigurerJSON js) (\<lambda>c. visitorName c) storeKindVisitor 0 vs Map.empty of Inl e \<Rightarrow> Inl e
                | Inr vm \<Rightarrow> Inr \<lparr>bs_proxies = pm, bs_visitors = vm\<rparr>)))"

definition NewStoreSource :: "jsonx \<Rightarrow> string \<Rightarrow> bool \<Rightarrow> disk \<Rightarrow> (source_error, StoreSource) result" where
  "NewStoreSource js path readOk d =
     (if path = '''' then Inl PathRequired
      else case dk_file d of
        None \<Rightarrow> Inr \<lparr>st_src = newBaseSource, st_disk = d, st_seen = [d]\<rparr>
      | Some f \<Rightarrow>
          if \<not> readOk then Inl ReadFailed
          else (case loadFromFileUnlocked js f of Inl e \<Rightarrow> Inl e
                | Inr src \<Rightarrow> Inr \<lparr>st_src = src, st_disk = d, st_seen = [d]\<rparr>))"

section \<open>Aggregation\<close>

record Aggregator =
  ag_config :: "baseSource option"
  ag_store :: "StoreSource option"

definition getSourcesLocked :: "Aggregator \<Rightarrow> baseSource list" where
  "getSourcesLocked a =
     (case ag_config a of None \<Rightarrow> [] | Some c \<Rightarrow> [c]) @ (case ag_store a of None \<Rightarrow> [] | Some s \<Rightarrow> [st_src s])"

definition mergeEntries :: "('a \<Rightarrow> string) \<Rightarrow> 'a list \<Rightarrow> (string \<times> 'a) list \<Rightarrow> (string \<times> 'a) list" where
  "mergeEntries nameOf cs m = fold (\<lambda>c. AList.update (nameOf c) c) cs m"

fun loadSources ::
    "(walk \<times> baseSource) list \<Rightarrow> (string \<times> ProxyConfigurer) list \<Rightarrow> (string \<times> VisitorConfigurer) list \<Rightarrow>
     (source_error, (string \<times> ProxyConfigurer) list \<times> (string \<times> VisitorConfigurer) list) result" where
  "loadSources [] pm vm = Inr (pm, vm)"
| "loadSources ((w, src) # rest) pm vm =
     (case baseLoad w src of Inl e \<Rightarrow> Inl e
      | Inr (ps, vs) \<Rightarrow> loadSources rest (mergeEntries (\<lambda>c. proxyName c) ps pm) (mergeEntries (\<lambda>c. visitorName c) vs vm))"

definition mapsToSortedSlices ::
    "(string \<times> ProxyConfigurer) list \<Rightarrow> (string \<times> VisitorConfigurer) list \<Rightarrow> ProxyConfigurer list \<times> VisitorConfigurer list" where
  "mapsToSortedSlices pm vm = (sort_key (\<lambda>c. proxyName c) (map snd pm), sort_key (\<lambda>c. visitorName c) (map snd vm))"

definition aggregatorLoad :: "walk list \<Rightarrow> Aggregator \<Rightarrow> (source_error, ProxyConfigurer list \<times> VisitorConfigurer list) result" where
  "aggregatorLoad ws a =
     (if getSourcesLocked a = [] then Inl NoSources
      else case loadSources (zip ws (getSourcesLocked a)) [] [] of Inl e \<Rightarrow> Inl e
      | Inr (pm, vm) \<Rightarrow> Inr (mapsToSortedSlices pm vm))"

section \<open>Selection\<close>

fun firstDuplicate :: "string list \<Rightarrow> string list \<Rightarrow> string option" where
  "firstDuplicate seen [] = None"
| "firstDuplicate seen (n # ns) = (if n \<in> set seen then Some n else firstDuplicate (n # seen) ns)"

definition validateNoDuplicateNames :: "ProxyConfigurer list \<Rightarrow> VisitorConfigurer list \<Rightarrow> (string \<times> string, unit) result" where
  "validateNoDuplicateNames ps vs =
     (case firstDuplicate [] (map (\<lambda>c. proxyName c) ps) of Some n \<Rightarrow> Inl (storeKindProxy, n)
      | None \<Rightarrow> (case firstDuplicate [] (map (\<lambda>c. visitorName c) vs) of Some n \<Rightarrow> Inl (storeKindVisitor, n) | None \<Rightarrow> Inr ()))"

definition CompleteProxyConfigurers :: "ProxyConfigurer list \<Rightarrow> ProxyConfigurer list" where
  "CompleteProxyConfigurers = map Complete"

definition CompleteVisitorConfigurers :: "VisitorConfigurer list \<Rightarrow> VisitorConfigurer list" where
  "CompleteVisitorConfigurers = map vComplete"

text \<open>\<open>start\<close> is the \<open>Start\<close> list of the common configuration, empty when there is none.\<close>

definition FilterClientConfigurers ::
    "string list \<Rightarrow> ProxyConfigurer list \<Rightarrow> VisitorConfigurer list \<Rightarrow> ProxyConfigurer list \<times> VisitorConfigurer list" where
  "FilterClientConfigurers start ps vs =
     (let ps1 = (if start = [] then ps else filter (\<lambda>c. proxyName c \<in> set start) ps);
          vs1 = (if start = [] then vs else filter (\<lambda>c. visitorName c \<in> set start) vs) in
      (filter (\<lambda>c. isEnabled (pb_Enabled (GetBaseConfig c))) ps1, filter (\<lambda>c. isEnabled (vb_Enabled (vGetBaseConfig c))) vs1))"


section \<open>Precedence\<close>

text \<open>Every entry stands under its own name, and no name is empty.\<close>

definition named :: "('a \<Rightarrow> string) \<Rightarrow> (string \<rightharpoonup> 'a) \<Rightarrow> bool" where
  "named nameOf m \<longleftrightarrow> (\<forall>n c. m n = Some c \<longrightarrow> nameOf c = n \<and> n \<noteq> '''')"

definition source_ok :: "baseSource \<Rightarrow> bool" where
  "source_ok s \<longleftrightarrow> named (\<lambda>c. proxyName c) (bs_proxies s) \<and> named (\<lambda>c. visitorName c) (bs_visitors s)"

definition walk_ok :: "walk \<Rightarrow> baseSource \<Rightarrow> bool" where
  "walk_ok w s \<longleftrightarrow> distinct (fst w) \<and> set (fst w) = dom (bs_proxies s) \<and> distinct (snd w) \<and> set (snd w) = dom (bs_visitors s)"

text \<open>The entries of a list by name, and the enabled entries of a map.\<close>

definition byName :: "('a \<Rightarrow> string) \<Rightarrow> 'a list \<Rightarrow> string \<rightharpoonup> 'a" where
  "byName nameOf cs = map_of (map (\<lambda>c. (nameOf c, c)) cs)"

definition enabledMap :: "('a \<Rightarrow> bool option) \<Rightarrow> (string \<rightharpoonup> 'a) \<Rightarrow> string \<rightharpoonup> 'a" where
  "enabledMap enabledOf m n = (case m n of Some c \<Rightarrow> if isEnabled (enabledOf c) then Some c else None | None \<Rightarrow> None)"

definition strictly :: "('a \<Rightarrow> string) \<Rightarrow> 'a list \<Rightarrow> bool" where
  "strictly nameOf = sorted_wrt (\<lambda>x y. nameOf x < nameOf y)"

lemma opt_eqI: "(\<And>c. x = Some c \<longleftrightarrow> P c) \<Longrightarrow> (\<And>c. y = Some c \<longleftrightarrow> P c) \<Longrightarrow> x = y"
  by (cases x; cases y) auto

lemma enabledMap_Some: "enabledMap enabledOf m n = Some c \<longleftrightarrow> m n = Some c \<and> isEnabled (enabledOf c)"
  by (auto simp: enabledMap_def split: option.splits)

lemma namedD: "named nameOf m \<Longrightarrow> m n = Some c \<Longrightarrow> nameOf c = n \<and> n \<noteq> ''''"
  by (simp add: named_def)

lemma named_empty [simp]: "named nameOf Map.empty"
  by (simp add: named_def)

lemma named_upd: "named nameOf m \<Longrightarrow> nameOf c = n \<Longrightarrow> n \<noteq> '''' \<Longrightarrow> named nameOf (m(n \<mapsto> c))"
  by (simp add: named_def)

lemma named_del: "named nameOf m \<Longrightarrow> named nameOf (m(n := None))"
  by (simp add: named_def)

lemma map_filter_names:
  "named nameOf m \<Longrightarrow> set order \<subseteq> dom m \<Longrightarrow> map nameOf (List.map_filter m order) = order"
  by (induction order) (auto simp: List.map_filter_def dest: namedD)

lemma set_map_filter: "set (List.map_filter m order) = {c. \<exists>n \<in> set order. m n = Some c}"
  by (induction order) (auto simp: List.map_filter_def split: option.splits)

lemma byName_Some: "distinct (map nameOf cs) \<Longrightarrow> byName nameOf cs n = Some c \<longleftrightarrow> c \<in> set cs \<and> nameOf c = n"
  unfolding byName_def by (subst map_of_eq_Some_iff) (auto simp: comp_def)

lemma byName_map_filter:
  assumes "named nameOf m" "distinct order" "set order = dom m"
  shows "byName nameOf (List.map_filter m order) = m"
proof
  fix n
  have d: "distinct (map nameOf (List.map_filter m order))" using assms by (simp add: map_filter_names)
  show "byName nameOf (List.map_filter m order) n = m n"
  proof (cases "m n")
    case None
    then have "byName nameOf (List.map_filter m order) n \<noteq> Some c" for c
      using byName_Some [OF d] assms(1) by (auto simp: set_map_filter dest: namedD)
    with None show ?thesis by (metis not_None_eq)
  next
    case (Some c)
    then show ?thesis using byName_Some [OF d, of n c] assms by (auto simp: set_map_filter dest: namedD)
  qed
qed

lemma loadEntries_distinct:
  assumes "named nameOf m" "distinct order" "set order = dom m"
  shows "distinct (map nameOf (loadEntries enabledOf order m))"
  unfolding loadEntries_def by (rule distinct_map_filter) (simp add: map_filter_names assms)

lemma byName_loadEntries:
  assumes "named nameOf m" "distinct order" "set order = dom m"
  shows "byName nameOf (loadEntries enabledOf order m) = enabledMap enabledOf m"
proof
  fix n
  have d: "distinct (map nameOf (List.map_filter m order))" using assms by (simp add: map_filter_names)
  have "byName nameOf (loadEntries enabledOf order m) n = Some c \<longleftrightarrow> m n = Some c \<and> isEnabled (enabledOf c)" for c
    using byName_Some [OF loadEntries_distinct [OF assms], of enabledOf n c] byName_Some [OF d, of n c]
    by (auto simp: loadEntries_def byName_map_filter [OF assms])
  then show "byName nameOf (loadEntries enabledOf order m) n = enabledMap enabledOf m n"
    by (rule opt_eqI) (simp add: enabledMap_Some)
qed

lemma mergeEntries_map_of:
  "distinct (map nameOf cs) \<Longrightarrow> map_of (mergeEntries nameOf cs al) = map_of al ++ byName nameOf cs"
proof (induction cs arbitrary: al)
  case (Cons c cs)
  then have "nameOf c \<notin> dom (byName nameOf cs)" by (auto simp: byName_Some) (metis imageI)
  moreover have "map_of (mergeEntries nameOf (c # cs) al) = map_of (AList.update (nameOf c) c al) ++ byName nameOf cs"
    using Cons by (simp add: mergeEntries_def)
  ultimately show ?case by (auto simp: byName_def update_conv' fun_eq_iff map_add_def domIff split: option.splits)
qed (simp add: mergeEntries_def byName_def)

definition keyed :: "('a \<Rightarrow> string) \<Rightarrow> (string \<times> 'a) list \<Rightarrow> bool" where
  "keyed nameOf al \<longleftrightarrow> distinct (map fst al) \<and> (\<forall>k c. map_of al k = Some c \<longrightarrow> nameOf c = k)"

lemma keyed_Nil: "keyed nameOf []"
  by (simp add: keyed_def)

lemma keyed_merge: "keyed nameOf al \<Longrightarrow> keyed nameOf (mergeEntries nameOf cs al)"
proof (induction cs arbitrary: al)
  case (Cons c cs)
  have "keyed nameOf (AList.update (nameOf c) c al)"
    using Cons.prems by (auto simp: keyed_def distinct_update update_conv')
  with Cons.IH show ?case by (simp add: mergeEntries_def)
qed (simp add: mergeEntries_def)


lemma sorted_entries:
  assumes "keyed nameOf al"
  shows "strictly nameOf (sort_key nameOf (map snd al)) \<and> byName nameOf (sort_key nameOf (map snd al)) = map_of al"
proof -
  let ?cs = "sort_key nameOf (map snd al)"
  have m: "(k, c) \<in> set al \<Longrightarrow> map_of al k = Some c" for k c using assms by (simp add: keyed_def)
  have names: "map nameOf (map snd al) = map fst al" using assms m by (force simp: keyed_def)
  have "distinct (map nameOf (map snd al))" unfolding names using assms by (simp add: keyed_def)
  then have d: "distinct (map nameOf ?cs)" unfolding distinct_map [of nameOf] by simp
  have "byName nameOf ?cs n = Some c \<longleftrightarrow> map_of al n = Some c" for n c
  proof -
    have "byName nameOf ?cs n = Some c \<longleftrightarrow> c \<in> snd ` set al \<and> nameOf c = n" using byName_Some [OF d, of n c] by simp
    also have "\<dots> \<longleftrightarrow> map_of al n = Some c" using assms m by (force simp: keyed_def dest: map_of_SomeD)
    finally show ?thesis .
  qed
  then have "byName nameOf ?cs = map_of al" by (intro ext opt_eqI) (auto simp del: sort_key_simps)
  moreover have "strictly nameOf ?cs"
    using d sorted_sort_key [of nameOf "map snd al"] strict_sorted_iff [of "map nameOf ?cs"]
    by (simp add: strictly_def sorted_wrt_map)
  ultimately show ?thesis by blast
qed

lemma cloneEntries_Some [simp]: "cloneEntries kind (map Some cs) = Inr cs"
  by (induction cs) simp_all

abbreviation enabledP :: "ProxyConfigurer \<Rightarrow> bool option" where "enabledP c \<equiv> pb_Enabled (GetBaseConfig c)"
abbreviation enabledV :: "VisitorConfigurer \<Rightarrow> bool option" where "enabledV c \<equiv> vb_Enabled (vGetBaseConfig c)"

lemma baseLoad_eq:
  "baseLoad w s = Inr (loadEntries (\<lambda>c. enabledP c) (fst w) (bs_proxies s), loadEntries (\<lambda>c. enabledV c) (snd w) (bs_visitors s))"
  by (simp add: baseLoad_def cloneConfigurers_def)

lemma merge_source:
  assumes "named nameOf m" "distinct order" "set order = dom m" "keyed nameOf al"
  shows "keyed nameOf (mergeEntries nameOf (loadEntries en order m) al) \<and>
    map_of (mergeEntries nameOf (loadEntries en order m) al) = map_of al ++ enabledMap en m"
  using assms by (simp add: keyed_merge mergeEntries_map_of loadEntries_distinct byName_loadEntries)

lemma loadSources_eq:
  assumes "\<And>w s. (w, s) \<in> set ws \<Longrightarrow> source_ok s \<and> walk_ok w s"
    "keyed (\<lambda>c. proxyName c) pm" "keyed (\<lambda>c. visitorName c) vm"
  shows "\<exists>pm' vm'. loadSources ws pm vm = Inr (pm', vm') \<and> keyed (\<lambda>c. proxyName c) pm' \<and> keyed (\<lambda>c. visitorName c) vm' \<and>
    map_of pm' = foldl (++) (map_of pm) (map (\<lambda>s. enabledMap (\<lambda>c. enabledP c) (bs_proxies s)) (map snd ws)) \<and>
    map_of vm' = foldl (++) (map_of vm) (map (\<lambda>s. enabledMap (\<lambda>c. enabledV c) (bs_visitors s)) (map snd ws))"
  using assms
proof (induction ws arbitrary: pm vm)
  case (Cons x ws)
  obtain w s where x: "x = (w, s)" by (cases x)
  have ok: "source_ok s" "walk_ok w s" using Cons.prems(1) [of w s] x by simp_all
  let ?pm = "mergeEntries (\<lambda>c. proxyName c) (loadEntries (\<lambda>c. enabledP c) (fst w) (bs_proxies s)) pm"
  let ?vm = "mergeEntries (\<lambda>c. visitorName c) (loadEntries (\<lambda>c. enabledV c) (snd w) (bs_visitors s)) vm"
  have p: "keyed (\<lambda>c. proxyName c) ?pm" "map_of ?pm = map_of pm ++ enabledMap (\<lambda>c. enabledP c) (bs_proxies s)"
    using merge_source [of "\<lambda>c. proxyName c" "bs_proxies s" "fst w" pm] ok Cons.prems(2)
    by (auto simp: source_ok_def walk_ok_def)
  have v: "keyed (\<lambda>c. visitorName c) ?vm" "map_of ?vm = map_of vm ++ enabledMap (\<lambda>c. enabledV c) (bs_visitors s)"
    using merge_source [of "\<lambda>c. visitorName c" "bs_visitors s" "snd w" vm] ok Cons.prems(3)
    by (auto simp: source_ok_def walk_ok_def)
  have "source_ok s' \<and> walk_ok w' s'" if "(w', s') \<in> set ws" for w' s' using Cons.prems(1) [of w' s'] that by simp
  from Cons.IH [OF this p(1) v(1)] show ?case by (simp add: x baseLoad_eq p(2) v(2))
qed simp

text \<open>What the sources mean together: the enabled entry of the store if it has one, else that of the configuration file.\<close>

definition effective :: "('a \<Rightarrow> bool option) \<Rightarrow> (baseSource \<Rightarrow> string \<rightharpoonup> 'a) \<Rightarrow> Aggregator \<Rightarrow> string \<rightharpoonup> 'a" where
  "effective en entries a n =
     (case Option.bind (ag_store a) (\<lambda>s. enabledMap en (entries (st_src s)) n) of Some c \<Rightarrow> Some c
      | None \<Rightarrow> Option.bind (ag_config a) (\<lambda>s. enabledMap en (entries s) n))"

lemma effective_foldl:
  "foldl (++) Map.empty (map (\<lambda>s. enabledMap en (entries s)) (getSourcesLocked a)) = effective en entries a"
  by (rule ext) (auto simp: getSourcesLocked_def effective_def map_add_def split: option.splits)

definition agg_ok :: "walk list \<Rightarrow> Aggregator \<Rightarrow> bool" where
  "agg_ok ws a \<longleftrightarrow> getSourcesLocked a \<noteq> [] \<and> list_all2 walk_ok ws (getSourcesLocked a) \<and> list_all source_ok (getSourcesLocked a)"

lemma aggregatorLoad_effective:
  assumes "agg_ok ws a"
  shows "\<exists>ps vs. aggregatorLoad ws a = Inr (ps, vs) \<and> strictly (\<lambda>c. proxyName c) ps \<and> strictly (\<lambda>c. visitorName c) vs \<and>
    byName (\<lambda>c. proxyName c) ps = effective (\<lambda>c. enabledP c) bs_proxies a \<and>
    byName (\<lambda>c. visitorName c) vs = effective (\<lambda>c. enabledV c) bs_visitors a"
proof -
  have len: "length ws = length (getSourcesLocked a)" using assms by (auto simp: agg_ok_def dest: list_all2_lengthD)
  have ok: "source_ok s \<and> walk_ok w s" if "(w, s) \<in> set (zip ws (getSourcesLocked a))" for w s
    using assms that by (auto simp: agg_ok_def list_all_iff list_all2_iff dest: set_zip_rightD)
  from loadSources_eq [where ws = "zip ws (getSourcesLocked a)", OF ok keyed_Nil keyed_Nil, unfolded map_snd_zip [OF len]] obtain pm vm where
    l: "loadSources (zip ws (getSourcesLocked a)) [] [] = Inr (pm, vm)"
      "keyed (\<lambda>c. proxyName c) pm" "keyed (\<lambda>c. visitorName c) vm"
      "map_of pm = effective (\<lambda>c. enabledP c) bs_proxies a" "map_of vm = effective (\<lambda>c. enabledV c) bs_visitors a"
    by (auto simp: effective_foldl)
  show ?thesis using l assms sorted_entries [OF l(2)] sorted_entries [OF l(3)]
    by (auto simp: aggregatorLoad_def agg_ok_def mapsToSortedSlices_def)
qed


section \<open>Durability\<close>

text \<open>What the JSON library does with a configuration that could be written: the text names the type, filling the zero value of the
  type with it gives the configuration, and so does the text of the plugin.\<close>

definition json_proxy :: "jsonx \<Rightarrow> ProxyConfigurer \<Rightarrow> bool" where
  "json_proxy js c \<longleftrightarrow> pb_Type (GetBaseConfig c) = typeName c \<and>
     (\<forall>x. js_encP js c = Inr x \<longrightarrow> \<not> isJSONNull x \<and>
       (\<exists>plugin. js_env js x = Inr (typeName c, plugin) \<and>
         (\<forall>c0. NewProxyConfigurerByType (typeName c) = Some c0 \<longrightarrow> js_proxy js x c0 = Inr c) \<and>
         (isJSONNull plugin \<or>
          (\<exists>q p0 p. js_env js plugin = Inr (pb_PluginType (GetBaseConfig c), q) \<and> pb_PluginType (GetBaseConfig c) \<noteq> '''' \<and>
             map_of clientPluginOptionsTypeMap (pb_PluginType (GetBaseConfig c)) = Some p0 \<and>
             js_plugin js plugin p0 = Inr p \<and> pb_Plugin (GetBaseConfig c) = Some p))))"

definition json_visitor :: "jsonx \<Rightarrow> VisitorConfigurer \<Rightarrow> bool" where
  "json_visitor js c \<longleftrightarrow>
     (\<forall>x. js_encV js c = Inr x \<longrightarrow> \<not> isJSONNull x \<and>
       (\<exists>t c0 plugin. js_env js x = Inr (t, plugin) \<and> NewVisitorConfigurerByType t = Some c0 \<and> js_visitor js x c0 = Inr c \<and>
         (isJSONNull plugin \<or>
          (\<exists>q ip. js_env js plugin = Inr (''virtual_net'', q) \<and> js_vplugin js plugin = Inr ip \<and>
             vb_Plugin (vGetBaseConfig c) = \<lparr>vp_Type = ''virtual_net'', vp_DestinationIP = Some ip\<rparr>))))"

definition json_documents :: "jsonx \<Rightarrow> bool" where
  "json_documents js \<longleftrightarrow> (\<forall>ps vs xs ys. encodeAll (js_encP js) ps = Inr xs \<longrightarrow> encodeAll (js_encV js) vs = Inr ys \<longrightarrow>
     js_store js (js_doc js xs ys) = Inr (xs, ys))"

lemma decode_proxy:
  assumes "json_proxy js c" "js_encP js c = Inr x"
  shows "DecodeProxyConfigurerJSON js x = Inr c"
proof -
  obtain c0 where c0: "NewProxyConfigurerByType (typeName c) = Some c0" using ByType_known by blast
  have same: "mapBase (\<lambda>b. b\<lparr>pb_PluginType := t, pb_Plugin := p\<rparr>) c = c"
    if "t = pb_PluginType (GetBaseConfig c)" "p = pb_Plugin (GetBaseConfig c)" for t p
    using that by (cases c) simp_all
  show ?thesis using assms c0
    by (auto simp: json_proxy_def DecodeProxyConfigurerJSON_def DecodeClientPluginOptionsJSON_def same)
qed

lemma decode_visitor:
  assumes "json_visitor js c" "js_encV js c = Inr x"
  shows "DecodeVisitorConfigurerJSON js x = Inr c"
proof -
  have same: "vMapBase (\<lambda>b. b\<lparr>vb_Plugin := p\<rparr>) c = c" if "p = vb_Plugin (vGetBaseConfig c)" for p
    using that by (cases c) simp_all
  show ?thesis using assms
    by (auto simp: json_visitor_def DecodeVisitorConfigurerJSON_def DecodeVisitorPluginOptionsJSON_def same)
qed

lemma decodeEntries_encoded:
  assumes "\<And>c x. c \<in> set cs \<Longrightarrow> enc c = Inr x \<Longrightarrow> dec x = Inr c" "\<And>c. c \<in> set cs \<Longrightarrow> nameOf c \<noteq> ''''"
    "distinct (map nameOf cs)" "encodeAll enc cs = Inr xs"
  shows "decodeEntries dec nameOf kind i xs m = Inr (m ++ byName nameOf cs)"
  using assms
proof (induction cs arbitrary: xs i m)
  case Nil
  then show ?case by (simp add: byName_def)
next
  case (Cons c cs)
  from Cons.prems(4) obtain x ys where x: "enc c = Inr x" "encodeAll enc cs = Inr ys" "xs = x # ys"
    by (auto split: sum.splits)
  have d: "nameOf c \<notin> dom (byName nameOf cs)" using Cons.prems(3) by (auto simp: byName_Some) (metis imageI)
  have "decodeEntries dec nameOf kind (i + 1) ys (m(nameOf c \<mapsto> c)) = Inr (m(nameOf c \<mapsto> c) ++ byName nameOf cs)"
    using Cons.IH [OF _ _ _ x(2)] Cons.prems(1,2,3) by simp
  moreover have "m(nameOf c \<mapsto> c) ++ byName nameOf cs = m ++ byName nameOf (c # cs)"
    using d by (auto simp: byName_def fun_eq_iff map_add_def domIff split: option.splits)
  ultimately show ?case using Cons.prems(1,2) [of c] x by simp
qed

definition entries_json :: "jsonx \<Rightarrow> baseSource \<Rightarrow> bool" where
  "entries_json js s \<longleftrightarrow> (\<forall>n c. bs_proxies s n = Some c \<longrightarrow> json_proxy js c) \<and> (\<forall>n c. bs_visitors s n = Some c \<longrightarrow> json_visitor js c)"

lemma decode_map_filter:
  assumes "\<And>n c x. m n = Some c \<Longrightarrow> enc c = Inr x \<Longrightarrow> dec x = Inr c" "named nameOf m" "distinct order" "set order = dom m"
    "encodeAll enc (List.map_filter m order) = Inr xs"
  shows "decodeEntries dec nameOf kind i xs Map.empty = Inr m"
proof -
  have "decodeEntries dec nameOf kind i xs Map.empty = Inr (Map.empty ++ byName nameOf (List.map_filter m order))"
    by (rule decodeEntries_encoded [OF _ _ _ assms(5)])
      (use assms in \<open>auto simp: set_map_filter map_filter_names dest: namedD\<close>)
  then show ?thesis by (simp add: byName_map_filter assms)
qed

text \<open>Reading back what was written gives the same source.\<close>

lemma load_marshalled:
  assumes "json_documents js" "entries_json js s" "source_ok s" "walk_ok w s" "marshalStore js w s = Inr data"
  shows "loadFromFileUnlocked js (Whole data) = Inr s"
proof -
  from assms(5) obtain ps vs where e: "encodeAll (js_encP js) (List.map_filter (bs_proxies s) (fst w)) = Inr ps"
      "encodeAll (js_encV js) (List.map_filter (bs_visitors s) (snd w)) = Inr vs" "data = js_doc js ps vs"
    by (auto simp: marshalStore_def split: sum.splits)
  have p: "decodeEntries (DecodeProxyConfigurerJSON js) (\<lambda>c. proxyName c) storeKindProxy 0 ps Map.empty = Inr (bs_proxies s)"
    by (rule decode_map_filter [OF _ _ _ _ e(1)]) (use assms in \<open>auto simp: entries_json_def source_ok_def walk_ok_def decode_proxy\<close>)
  have v: "decodeEntries (DecodeVisitorConfigurerJSON js) (\<lambda>c. visitorName c) storeKindVisitor 0 vs Map.empty = Inr (bs_visitors s)"
    by (rule decode_map_filter [OF _ _ _ _ e(2)]) (use assms in \<open>auto simp: entries_json_def source_ok_def walk_ok_def decode_visitor\<close>)
  show ?thesis using assms(1) e by (simp add: loadFromFileUnlocked_def json_documents_def p v)
qed


text \<open>The operations on a store, and what each is to do to the entries.\<close>

datatype store_op =
    SAddProxy "ProxyConfigurer option"
  | SUpdateProxy "ProxyConfigurer option"
  | SRemoveProxy string
  | SAddVisitor "VisitorConfigurer option"
  | SUpdateVisitor "VisitorConfigurer option"
  | SRemoveVisitor string

fun storeStep :: "jsonx \<Rightarrow> walk \<Rightarrow> save_env \<Rightarrow> store_op \<Rightarrow> StoreSource \<Rightarrow> (source_error, unit) result \<times> StoreSource" where
  "storeStep js w env (SAddProxy c) s = AddProxy js w env c s"
| "storeStep js w env (SUpdateProxy c) s = UpdateProxy js w env c s"
| "storeStep js w env (SRemoveProxy n) s = RemoveProxy js w env n s"
| "storeStep js w env (SAddVisitor c) s = AddVisitor js w env c s"
| "storeStep js w env (SUpdateVisitor c) s = UpdateVisitor js w env c s"
| "storeStep js w env (SRemoveVisitor n) s = RemoveVisitor js w env n s"

definition putProxy :: "ProxyConfigurer option \<Rightarrow> baseSource \<Rightarrow> baseSource" where
  "putProxy c src = (case c of None \<Rightarrow> src | Some x \<Rightarrow> src\<lparr>bs_proxies := (bs_proxies src)(proxyName x \<mapsto> x)\<rparr>)"

definition putVisitor :: "VisitorConfigurer option \<Rightarrow> baseSource \<Rightarrow> baseSource" where
  "putVisitor c src = (case c of None \<Rightarrow> src | Some x \<Rightarrow> src\<lparr>bs_visitors := (bs_visitors src)(visitorName x \<mapsto> x)\<rparr>)"

fun intended :: "store_op \<Rightarrow> baseSource \<Rightarrow> baseSource" where
  "intended (SAddProxy c) src = putProxy c src"
| "intended (SUpdateProxy c) src = putProxy c src"
| "intended (SRemoveProxy n) src = src\<lparr>bs_proxies := (bs_proxies src)(n := None)\<rparr>"
| "intended (SAddVisitor c) src = putVisitor c src"
| "intended (SUpdateVisitor c) src = putVisitor c src"
| "intended (SRemoveVisitor n) src = src\<lparr>bs_visitors := (bs_visitors src)(n := None)\<rparr>"

fun op_json :: "jsonx \<Rightarrow> store_op \<Rightarrow> bool" where
  "op_json js (SAddProxy (Some c)) = json_proxy js c"
| "op_json js (SUpdateProxy (Some c)) = json_proxy js c"
| "op_json js (SAddVisitor (Some c)) = json_visitor js c"
| "op_json js (SUpdateVisitor (Some c)) = json_visitor js c"
| "op_json js _ = True"

text \<open>A store over its life: opened where no file is, changed with any answers of the file system, stopped at any
  moment and opened again on what the disk held then.\<close>

inductive store_run :: "jsonx \<Rightarrow> StoreSource \<Rightarrow> bool" for js where
  fresh: "dk_file d = None \<Longrightarrow> NewStoreSource js path readOk d = Inr s \<Longrightarrow> store_run js s"
| step: "store_run js s \<Longrightarrow> op_json js op \<Longrightarrow> walk_ok w (intended op (st_src s)) \<Longrightarrow> storeStep js w env op s = (r, s') \<Longrightarrow>
    store_run js s'"
| reopen: "store_run js s \<Longrightarrow> d \<in> set (st_seen s) \<Longrightarrow> NewStoreSource js path readOk d = Inr s' \<Longrightarrow> store_run js s'"

text \<open>What a disk stands for.\<close>

definition holds :: "jsonx \<Rightarrow> disk \<Rightarrow> baseSource \<Rightarrow> bool" where
  "holds js d src \<longleftrightarrow> (case dk_file d of None \<Rightarrow> src = newBaseSource | Some f \<Rightarrow> loadFromFileUnlocked js f = Inr src)"

definition good_source :: "jsonx \<Rightarrow> baseSource \<Rightarrow> bool" where
  "good_source js src \<longleftrightarrow> source_ok src \<and> entries_json js src"

definition store_inv :: "jsonx \<Rightarrow> StoreSource \<Rightarrow> bool" where
  "store_inv js s \<longleftrightarrow> good_source js (st_src s) \<and> holds js (st_disk s) (st_src s) \<and>
     (\<forall>d \<in> set (st_seen s). \<exists>src. good_source js src \<and> holds js d src)"

lemma holds_reopen:
  assumes "holds js d src" "path \<noteq> ''''"
  shows "\<exists>t. NewStoreSource js path True d = Inr t \<and> st_src t = src"
  using assms by (auto simp: holds_def NewStoreSource_def split: option.splits)

lemma holds_file: "dk_file d = dk_file d' \<Longrightarrow> holds js d src = holds js d' src"
  by (simp add: holds_def)

lemma removeTmp_file [simp]: "dk_file (removeTmp env d) = dk_file d"
  by (simp add: removeTmp_def)

lemma save_outcome:
  assumes "saveToFileUnlocked js w env src d = (r, ds)"
  shows "ds \<noteq> [] \<and> (case r of Inl e \<Rightarrow> \<forall>d' \<in> set ds. dk_file d' = dk_file d
    | Inr _ \<Rightarrow> \<exists>data. marshalStore js w src = Inr data \<and> dk_file (last ds) = Some (Whole data) \<and>
        (\<forall>d' \<in> set ds. dk_file d' = dk_file d \<or> dk_file d' = Some (Whole data)))"
  using assms by (auto simp: saveToFileUnlocked_def Let_def split: sum.splits if_splits)

text \<open>A change that is saved or undone: the entries are the new ones exactly if there was no error, the disk stands for
  them, and on the way it stood for the old or the new ones.\<close>

definition settled :: "jsonx \<Rightarrow> StoreSource \<Rightarrow> baseSource \<Rightarrow> (source_error, unit) result \<Rightarrow> StoreSource \<Rightarrow> bool" where
  "settled js s src r s' \<longleftrightarrow>
     st_src s' = (if r = Inr () then src else st_src s) \<and> good_source js (st_src s') \<and> holds js (st_disk s') (st_src s') \<and>
     (\<exists>ds. st_seen s' = st_seen s @ ds \<and> (\<forall>d \<in> set ds. holds js d (st_src s) \<or> holds js d (st_src s')))"

lemma persist_outcome:
  assumes "json_documents js" "good_source js (st_src s)" "holds js (st_disk s) (st_src s)" "good_source js src" "walk_ok w src"
    "rollback src = st_src s"
    "persistOrRollbackUnlocked js w env rollback (s\<lparr>st_src := src\<rparr>) = (r, s')"
  shows "settled js s src r s'"
proof -
  obtain q ds where sv: "saveToFileUnlocked js w env src (st_disk s) = (q, ds)" by fastforce
  have load: "loadFromFileUnlocked js (Whole data) = Inr src" if "marshalStore js w src = Inr data" for data
    using load_marshalled that assms(1,4,5) by (simp add: good_source_def)
  show ?thesis
  proof (cases q)
    case (Inl e)
    then have ds: "ds \<noteq> []" "\<forall>d \<in> set ds. dk_file d = dk_file (st_disk s)" using save_outcome [OF sv] by auto
    then have h: "\<forall>d \<in> set ds. holds js d (st_src s)" using assms(3) holds_file by metis
    then have "holds js (last ds) (st_src s)" using ds(1) by simp
    then show ?thesis using assms(2,6,7) sv Inl h by (auto simp: settled_def persistOrRollbackUnlocked_def Let_def)
  next
    case (Inr u)
    then obtain data where ds: "ds \<noteq> []" "marshalStore js w src = Inr data" "dk_file (last ds) = Some (Whole data)"
        "\<forall>d \<in> set ds. dk_file d = dk_file (st_disk s) \<or> dk_file d = Some (Whole data)"
      using save_outcome [OF sv] by auto
    have "\<forall>d \<in> set ds. holds js d (st_src s) \<or> holds js d src"
      using ds(4) assms(3) holds_file load [OF ds(2)] by (auto simp: holds_def)
    moreover have "holds js (last ds) src" using ds(3) load [OF ds(2)] by (simp add: holds_def)
    ultimately show ?thesis using assms(4,7) sv Inr by (auto simp: settled_def persistOrRollbackUnlocked_def Let_def)
  qed
qed


lemma refused:
  assumes "good_source js (st_src s)" "holds js (st_disk s) (st_src s)"
  shows "settled js s src (Inl e) s"
  using assms by (auto simp: settled_def)

text \<open>Independently of what is written: the entries after an operation.\<close>

lemma persist_src:
  assumes "rollback src = st_src s" "persistOrRollbackUnlocked js w env rollback (s\<lparr>st_src := src\<rparr>) = (r, s')"
  shows "st_src s' = (if r = Inr () then src else st_src s)"
  using assms by (auto simp: persistOrRollbackUnlocked_def Let_def split: prod.splits sum.splits)

text \<open>The contract of the maps an operation can work on: reading what was changed, and changes that undo each other.\<close>

locale store_entries =
  fixes e :: "'a entries"
  assumes get_upd: "fst e (snd e f s) = f (fst e s)"
    and upd_upd: "snd e f (snd e g s) = snd e (f \<circ> g) s"
    and upd_idle: "f (fst e s) = fst e s \<Longrightarrow> snd e f s = s"
begin

lemma undo: "f (g (fst e s)) = fst e s \<Longrightarrow> snd e f (snd e g s) = s"
  by (simp add: upd_upd upd_idle)

lemma addStoreEntry_settled:
  assumes "json_documents js" "good_source js (st_src s)" "holds js (st_disk s) (st_src s)"
    "src = snd e (\<lambda>m. m(name \<mapsto> v)) (st_src s)" "good_source js src" "walk_ok w src" "addStoreEntry js w env e kind name v s = (r, s')"
  shows "settled js s src r s'"
proof (cases "fst e (st_src s) name")
  case None
  then have "snd e (\<lambda>m. m(name := None)) src = st_src s"
    unfolding assms(4) by (intro undo) (simp add: fun_upd_idem)
  with None assms show ?thesis by (auto simp: addStoreEntry_def intro: persist_outcome)
next
  case (Some c)
  with assms refused show ?thesis by (auto simp: addStoreEntry_def)
qed

lemma updateStoreEntry_settled:
  assumes "json_documents js" "good_source js (st_src s)" "holds js (st_disk s) (st_src s)"
    "src = snd e (\<lambda>m. m(name \<mapsto> v)) (st_src s)" "good_source js src" "walk_ok w src" "updateStoreEntry js w env e kind name v s = (r, s')"
  shows "settled js s src r s'"
proof (cases "fst e (st_src s) name")
  case None
  with assms refused show ?thesis by (auto simp: updateStoreEntry_def)
next
  case (Some old)
  then have "snd e (\<lambda>m. m(name \<mapsto> old)) src = st_src s"
    unfolding assms(4) by (intro undo) (simp add: fun_upd_idem)
  with Some assms show ?thesis by (auto simp: updateStoreEntry_def intro: persist_outcome)
qed

lemma removeStoreEntry_settled:
  assumes "json_documents js" "good_source js (st_src s)" "holds js (st_disk s) (st_src s)"
    "src = snd e (\<lambda>m. m(name := None)) (st_src s)" "good_source js src" "walk_ok w src" "removeStoreEntry js w env e kind name s = (r, s')"
  shows "settled js s src r s'"
proof (cases "name = '''' \<or> fst e (st_src s) name = None")
  case True
  with assms refused show ?thesis by (auto simp: removeStoreEntry_def split: if_splits)
next
  case False
  then obtain old where old: "fst e (st_src s) name = Some old" "name \<noteq> ''''" by auto
  then have "snd e (\<lambda>m. m(name \<mapsto> old)) src = st_src s"
    unfolding assms(4) by (intro undo) (simp add: fun_upd_idem)
  with old assms show ?thesis by (auto simp: removeStoreEntry_def intro: persist_outcome)
qed

lemma entry_src:
  shows "addStoreEntry js w env e kind n v s = (r, s') \<Longrightarrow> st_src s' = (if r = Inr () then snd e (\<lambda>m. m(n \<mapsto> v)) (st_src s) else st_src s)"
    "updateStoreEntry js w env e kind n v s = (r, s') \<Longrightarrow> st_src s' = (if r = Inr () then snd e (\<lambda>m. m(n \<mapsto> v)) (st_src s) else st_src s)"
    "removeStoreEntry js w env e kind n s = (r, s') \<Longrightarrow> st_src s' = (if r = Inr () then snd e (\<lambda>m. m(n := None)) (st_src s) else st_src s)"
proof -
  have un: "snd e (\<lambda>m. m(n := fst e src n)) (snd e (\<lambda>m. m(n := x)) src) = src" for src x
    by (rule undo) (simp add: fun_upd_idem)
  note u = un [of "st_src s"]
  show "addStoreEntry js w env e kind n v s = (r, s') \<Longrightarrow> st_src s' = (if r = Inr () then snd e (\<lambda>m. m(n \<mapsto> v)) (st_src s) else st_src s)"
    using u [of "Some v"] by (cases "fst e (st_src s) n") (auto simp: addStoreEntry_def dest: persist_src [rotated])
  show "updateStoreEntry js w env e kind n v s = (r, s') \<Longrightarrow> st_src s' = (if r = Inr () then snd e (\<lambda>m. m(n \<mapsto> v)) (st_src s) else st_src s)"
    using u [of "Some v"] by (cases "fst e (st_src s) n") (auto simp: updateStoreEntry_def dest: persist_src [rotated])
  show "removeStoreEntry js w env e kind n s = (r, s') \<Longrightarrow> st_src s' = (if r = Inr () then snd e (\<lambda>m. m(n := None)) (st_src s) else st_src s)"
    using u [of None] by (cases "fst e (st_src s) n") (auto simp: removeStoreEntry_def dest: persist_src [rotated] split: if_splits)
qed

end

interpretation pe: store_entries proxyStoreEntries
  by unfold_locales (auto simp: proxyStoreEntries_def comp_def)

interpretation ve: store_entries visitorStoreEntries
  by unfold_locales (auto simp: visitorStoreEntries_def comp_def)

lemma good_put:
  "good_source js src \<Longrightarrow> json_proxy js c \<Longrightarrow> proxyName c \<noteq> '''' \<Longrightarrow> good_source js (putProxy (Some c) src)"
  "good_source js src \<Longrightarrow> json_visitor js d \<Longrightarrow> visitorName d \<noteq> '''' \<Longrightarrow> good_source js (putVisitor (Some d) src)"
  by (auto simp: good_source_def source_ok_def entries_json_def putProxy_def putVisitor_def named_upd)

lemma good_remove:
  "good_source js src \<Longrightarrow> good_source js (src\<lparr>bs_proxies := (bs_proxies src)(n := None)\<rparr>)"
  "good_source js src \<Longrightarrow> good_source js (src\<lparr>bs_visitors := (bs_visitors src)(n := None)\<rparr>)"
  by (auto simp: good_source_def source_ok_def entries_json_def named_del)

lemmas entry_defs = proxyStoreEntries_def visitorStoreEntries_def putProxy_def putVisitor_def

lemma validated:
  "validateProxyName c = Inr n \<Longrightarrow> \<exists>x. c = Some x \<and> n = proxyName x \<and> n \<noteq> ''''"
  "validateVisitorName d = Inr n \<Longrightarrow> \<exists>x. d = Some x \<and> n = visitorName x \<and> n \<noteq> ''''"
  by (auto simp: validateProxyName_def validateVisitorName_def validateName_def split: option.splits if_splits)

lemma AddProxy_settled:
  assumes js: "json_documents js" and g: "good_source js (st_src s)" and h: "holds js (st_disk s) (st_src s)"
    and o: "\<And>x. c = Some x \<Longrightarrow> json_proxy js x" and w: "walk_ok w (putProxy c (st_src s))" and e: "AddProxy js w env c s = (r, s')"
  shows "settled js s (putProxy c (st_src s)) r s'"
proof (cases "validateProxyName c")
  case (Inl x)
  then show ?thesis using e refused [OF g h] by (auto simp: AddProxy_def)
next
  case (Inr n)
  with validated obtain x where x: "c = Some x" "n = proxyName x" "n \<noteq> ''''" by blast
  show ?thesis
    by (rule pe.addStoreEntry_settled [OF js g h, of _ n x w env storeKindProxy])
      (use x o w e Inr good_put(1) [OF g] in \<open>auto simp: AddProxy_def entry_defs\<close>)
qed

lemma UpdateProxy_settled:
  assumes js: "json_documents js" and g: "good_source js (st_src s)" and h: "holds js (st_disk s) (st_src s)"
    and o: "\<And>x. c = Some x \<Longrightarrow> json_proxy js x" and w: "walk_ok w (putProxy c (st_src s))" and e: "UpdateProxy js w env c s = (r, s')"
  shows "settled js s (putProxy c (st_src s)) r s'"
proof (cases "validateProxyName c")
  case (Inl x)
  then show ?thesis using e refused [OF g h] by (auto simp: UpdateProxy_def)
next
  case (Inr n)
  with validated obtain x where x: "c = Some x" "n = proxyName x" "n \<noteq> ''''" by blast
  show ?thesis
    by (rule pe.updateStoreEntry_settled [OF js g h, of _ n x w env storeKindProxy])
      (use x o w e Inr good_put(1) [OF g] in \<open>auto simp: UpdateProxy_def entry_defs\<close>)
qed

lemma RemoveProxy_settled:
  assumes js: "json_documents js" and g: "good_source js (st_src s)" and h: "holds js (st_disk s) (st_src s)"
    and w: "walk_ok w ((st_src s)\<lparr>bs_proxies := (bs_proxies (st_src s))(n := None)\<rparr>)" and e: "RemoveProxy js w env n s = (r, s')"
  shows "settled js s ((st_src s)\<lparr>bs_proxies := (bs_proxies (st_src s))(n := None)\<rparr>) r s'"
  by (rule pe.removeStoreEntry_settled [OF js g h, of _ n w env storeKindProxy])
    (use w e good_remove(1) [OF g] in \<open>auto simp: RemoveProxy_def entry_defs\<close>)

lemma AddVisitor_settled:
  assumes js: "json_documents js" and g: "good_source js (st_src s)" and h: "holds js (st_disk s) (st_src s)"
    and o: "\<And>x. c = Some x \<Longrightarrow> json_visitor js x" and w: "walk_ok w (putVisitor c (st_src s))" and e: "AddVisitor js w env c s = (r, s')"
  shows "settled js s (putVisitor c (st_src s)) r s'"
proof (cases "validateVisitorName c")
  case (Inl x)
  then show ?thesis using e refused [OF g h] by (auto simp: AddVisitor_def)
next
  case (Inr n)
  with validated obtain x where x: "c = Some x" "n = visitorName x" "n \<noteq> ''''" by blast
  show ?thesis
    by (rule ve.addStoreEntry_settled [OF js g h, of _ n x w env storeKindVisitor])
      (use x o w e Inr good_put(2) [OF g] in \<open>auto simp: AddVisitor_def entry_defs\<close>)
qed

lemma UpdateVisitor_settled:
  assumes js: "json_documents js" and g: "good_source js (st_src s)" and h: "holds js (st_disk s) (st_src s)"
    and o: "\<And>x. c = Some x \<Longrightarrow> json_visitor js x" and w: "walk_ok w (putVisitor c (st_src s))" and e: "UpdateVisitor js w env c s = (r, s')"
  shows "settled js s (putVisitor c (st_src s)) r s'"
proof (cases "validateVisitorName c")
  case (Inl x)
  then show ?thesis using e refused [OF g h] by (auto simp: UpdateVisitor_def)
next
  case (Inr n)
  with validated obtain x where x: "c = Some x" "n = visitorName x" "n \<noteq> ''''" by blast
  show ?thesis
    by (rule ve.updateStoreEntry_settled [OF js g h, of _ n x w env storeKindVisitor])
      (use x o w e Inr good_put(2) [OF g] in \<open>auto simp: UpdateVisitor_def entry_defs\<close>)
qed

lemma RemoveVisitor_settled:
  assumes js: "json_documents js" and g: "good_source js (st_src s)" and h: "holds js (st_disk s) (st_src s)"
    and w: "walk_ok w ((st_src s)\<lparr>bs_visitors := (bs_visitors (st_src s))(n := None)\<rparr>)" and e: "RemoveVisitor js w env n s = (r, s')"
  shows "settled js s ((st_src s)\<lparr>bs_visitors := (bs_visitors (st_src s))(n := None)\<rparr>) r s'"
  by (rule ve.removeStoreEntry_settled [OF js g h, of _ n w env storeKindVisitor])
    (use w e good_remove(2) [OF g] in \<open>auto simp: RemoveVisitor_def entry_defs\<close>)

lemma storeStep_settled:
  assumes "json_documents js" "good_source js (st_src s)" "holds js (st_disk s) (st_src s)"
    "op_json js op" "walk_ok w (intended op (st_src s))" "storeStep js w env op s = (r, s')"
  shows "settled js s (intended op (st_src s)) r s'"
  using assms
  by (cases op) (auto intro: AddProxy_settled UpdateProxy_settled RemoveProxy_settled AddVisitor_settled UpdateVisitor_settled RemoveVisitor_settled)

lemmas proxy_src = pe.entry_src [unfolded proxyStoreEntries_def fst_conv snd_conv]
lemmas visitor_src = ve.entry_src [unfolded visitorStoreEntries_def fst_conv snd_conv]

lemma storeStep_src:
  assumes "storeStep js w env op s = (r, s')"
  shows "st_src s' = (if r = Inr () then intended op (st_src s) else st_src s)"
  using assms
  by (cases op)
    (auto simp: AddProxy_def UpdateProxy_def RemoveProxy_def AddVisitor_def UpdateVisitor_def RemoveVisitor_def entry_defs
      split: sum.splits dest!: validated proxy_src visitor_src)

lemma storeStep_source_ok:
  assumes "source_ok (st_src s)" "storeStep js w env op s = (r, s')"
  shows "source_ok (st_src s')"
proof (cases "r = Inr ()")
  case True
  have "source_ok (intended op (st_src s))"
    using assms True
    by (cases op) (auto simp: AddProxy_def UpdateProxy_def AddVisitor_def UpdateVisitor_def putProxy_def putVisitor_def source_ok_def
      named_upd named_del dest!: validated split: sum.splits)
  with True show ?thesis using storeStep_src [OF assms(2)] by simp
next
  case False
  then show ?thesis using storeStep_src [OF assms(2)] assms(1) by simp
qed

lemma settled_inv: "store_inv js s \<Longrightarrow> settled js s src r s' \<Longrightarrow> store_inv js s'"
  unfolding store_inv_def settled_def by auto

lemma store_run_inv:
  assumes "json_documents js" "store_run js s"
  shows "store_inv js s"
  using assms(2)
proof (induction rule: store_run.induct)
  case (fresh d path readOk s)
  have "good_source js newBaseSource" by (simp add: good_source_def source_ok_def entries_json_def newBaseSource_def)
  then show ?case using fresh by (auto simp: NewStoreSource_def store_inv_def holds_def split: if_splits)
next
  case (step s op w env r s')
  then show ?case using storeStep_settled [OF assms(1)] settled_inv by (metis store_inv_def)
next
  case (reopen s d path readOk s')
  then obtain src where "good_source js src" "holds js d src" by (auto simp: store_inv_def)
  then show ?case using reopen(3)
    by (auto simp: NewStoreSource_def store_inv_def holds_def split: option.splits if_splits sum.splits)
qed

text \<open>C6: The store survives failures. Whatever the file system answers and wherever the process was stopped before, an
  operation leaves the entries changed as intended exactly if it reports no error and unchanged otherwise, opening the store again
  gives the entries it has, and if the process is stopped while the operation runs, opening it gives the entries
  from before or from after.\<close>

theorem store_durable:
  assumes "json_documents js" "store_run js s" "path \<noteq> ''''" "op_json js op" "walk_ok w (intended op (st_src s))"
    "storeStep js w env op s = (r, s')"
  shows "st_src s' = (if r = Inr () then intended op (st_src s) else st_src s) \<and>
    (\<exists>t. NewStoreSource js path True (st_disk s') = Inr t \<and> st_src t = st_src s') \<and>
    (\<forall>d \<in> set (drop (length (st_seen s)) (st_seen s')).
       \<exists>t. NewStoreSource js path True d = Inr t \<and> (st_src t = st_src s \<or> st_src t = st_src s'))"
proof -
  have "settled js s (intended op (st_src s)) r s'"
    using store_run_inv [OF assms(1,2)] storeStep_settled [OF assms(1) _ _ assms(4-6)] by (simp add: store_inv_def)
  then show ?thesis using holds_reopen [OF _ assms(3)] unfolding settled_def by fastforce
qed

text \<open>C38: One configuration out of several sources. Whatever order the maps are walked in, the aggregator returns the proxies and the visitors
  in strictly ascending order of their names, and for each name the enabled entry of the store if there is one, else
  the enabled entry of the configuration file: a disabled entry of the store hides nothing.\<close>

theorem sources_merge:
  assumes "agg_ok ws a"
  shows "\<exists>ps vs. aggregatorLoad ws a = Inr (ps, vs) \<and> strictly (\<lambda>c. proxyName c) ps \<and> strictly (\<lambda>c. visitorName c) vs \<and>
    byName (\<lambda>c. proxyName c) ps = effective (\<lambda>c. enabledP c) bs_proxies a \<and>
    byName (\<lambda>c. visitorName c) vs = effective (\<lambda>c. enabledV c) bs_visitors a"
  using assms by (rule aggregatorLoad_effective)

section \<open>Examples\<close>

definition exStored :: ProxyConfigurer where
  "exStored = TCPProxyConfig ((zeroBase ''tcp'')\<lparr>pb_Name := ''ssh'', pb_LocalPort := 22\<rparr>) 6000"

definition exFile :: ProxyConfigurer where
  "exFile = TCPProxyConfig ((zeroBase ''tcp'')\<lparr>pb_Name := ''ssh'', pb_LocalPort := 2222\<rparr>) 7000"

definition exDisabled :: ProxyConfigurer where
  "exDisabled = mapBase (\<lambda>b. b\<lparr>pb_Enabled := Some False\<rparr>) exStored"

text \<open>A library that writes one letter per element.\<close>

definition exJSON :: jsonx where
  "exJSON =
     \<lparr>js_env = \<lambda>x. if x = ''s'' then Inr (''tcp'', ''null'') else Inl ''bad'',
      js_proxy = \<lambda>x c0. if x = ''s'' then Inr exStored else Inl ''bad'',
      js_visitor = \<lambda>x c0. Inl ''bad'', js_plugin = \<lambda>x p0. Inl ''bad'', js_vplugin = \<lambda>x. Inl ''bad'',
      js_store = \<lambda>x. Inr (map (\<lambda>ch. [ch]) x, []),
      js_encP = \<lambda>c. Inr ''s'', js_encV = \<lambda>c. Inl ''bad'', js_doc = \<lambda>ps vs. concat ps\<rparr>"


lemma exJSON_laws: "json_documents exJSON" "json_proxy exJSON exStored"
proof -
  have ps: "encodeAll (\<lambda>c. Inr ''s'') ps = Inr (map (\<lambda>c. ''s'') ps)" for ps :: "ProxyConfigurer list"
    by (induction ps) simp_all
  have vs: "encodeAll (\<lambda>c. Inl ''bad'') vs = Inr ys \<longleftrightarrow> vs = [] \<and> ys = []" for vs :: "VisitorConfigurer list" and ys
    by (cases vs) auto
  have doc: "map (\<lambda>ch. [ch]) (concat (map (\<lambda>c. ''s'') ps)) = map (\<lambda>c. ''s'') ps" for ps :: "ProxyConfigurer list"
    by (induction ps) simp_all
  show "json_documents exJSON" by (auto simp: json_documents_def exJSON_def ps vs doc)
  show "json_proxy exJSON exStored" by (simp add: json_proxy_def exJSON_def exStored_def zeroBase_def isJSONNull_def)
qed

definition exEmptyStore :: StoreSource where
  "exEmptyStore = \<lparr>st_src = newBaseSource, st_disk = \<lparr>dk_file = None, dk_tmp = None\<rparr>, st_seen = [\<lparr>dk_file = None, dk_tmp = None\<rparr>]\<rparr>"

text \<open>The rename fails, and so does the removal of the temporary file.\<close>

definition exFailing :: save_env where
  "exFailing = \<lparr>se_mkdir = True, se_open = True, se_write = True, se_sync = True, se_close = True, se_rename = False, se_remove = False\<rparr>"

theorem store_durable_witness:
  "fst (storeStep exJSON ([''ssh''], []) exFailing (SAddProxy (Some exStored)) exEmptyStore) = Inl (PersistFailed RenameFailed) \<and>
   st_src (snd (storeStep exJSON ([''ssh''], []) exFailing (SAddProxy (Some exStored)) exEmptyStore)) = newBaseSource \<and>
   st_src (snd (storeStep exJSON ([''ssh''], []) (exFailing\<lparr>se_rename := True\<rparr>) (SAddProxy (Some exStored)) exEmptyStore)) =
     \<lparr>bs_proxies = [''ssh'' \<mapsto> exStored], bs_visitors = Map.empty\<rparr>"
proof -
  let ?op = "SAddProxy (Some exStored)"
  have run: "store_run exJSON exEmptyStore"
    by (rule store_run.fresh [of "\<lparr>dk_file = None, dk_tmp = None\<rparr>" _ "''f''" True]) (simp_all add: NewStoreSource_def exEmptyStore_def)
  have i: "intended ?op (st_src exEmptyStore) = \<lparr>bs_proxies = [''ssh'' \<mapsto> exStored], bs_visitors = Map.empty\<rparr>"
    by (simp add: putProxy_def exEmptyStore_def newBaseSource_def exStored_def)
  have w: "walk_ok ([''ssh''], []) (intended ?op (st_src exEmptyStore))" unfolding i by (simp add: walk_ok_def)
  have o: "op_json exJSON ?op" using exJSON_laws(2) by simp
  note d = conjunct1 [OF store_durable [OF exJSON_laws(1) run _ o w prod.collapse [symmetric], of "''f''"], simplified, unfolded i]
  have f: "fst (storeStep exJSON ([''ssh''], []) env ?op exEmptyStore) =
      (if se_rename env then Inr () else Inl (PersistFailed RenameFailed))" if "env = exFailing \<or> env = exFailing\<lparr>se_rename := True\<rparr>" for env
    using that
    by (auto simp: AddProxy_def validateProxyName_def validateName_def addStoreEntry_def exEmptyStore_def newBaseSource_def exStored_def zeroBase_def
      persistOrRollbackUnlocked_def saveToFileUnlocked_def marshalStore_def exFailing_def entry_defs exJSON_def List.map_filter_def Let_def)
  have e: "se_rename exFailing = False" "st_src exEmptyStore = newBaseSource" by (simp_all add: exFailing_def exEmptyStore_def)
  show ?thesis using d [of exFailing] d [of "exFailing\<lparr>se_rename := True\<rparr>"] f [of exFailing] f [of "exFailing\<lparr>se_rename := True\<rparr>"] e
    by simp
qed

theorem sources_merge_witness:
  "\<exists>ps vs. aggregatorLoad [([''ssh''], []), ([''ssh''], [])]
     \<lparr>ag_config = Some \<lparr>bs_proxies = [''ssh'' \<mapsto> exFile], bs_visitors = Map.empty\<rparr>,
      ag_store = Some (exEmptyStore\<lparr>st_src := \<lparr>bs_proxies = [''ssh'' \<mapsto> exDisabled], bs_visitors = Map.empty\<rparr>\<rparr>)\<rparr> = Inr (ps, vs) \<and>
   byName (\<lambda>c. proxyName c) ps ''ssh'' = Some exFile"
proof -
  let ?a = "\<lparr>ag_config = Some \<lparr>bs_proxies = [''ssh'' \<mapsto> exFile], bs_visitors = Map.empty\<rparr>,
      ag_store = Some (exEmptyStore\<lparr>st_src := \<lparr>bs_proxies = [''ssh'' \<mapsto> exDisabled], bs_visitors = Map.empty\<rparr>\<rparr>)\<rparr>"
  have n: "proxyName exFile = ''ssh''" "proxyName exDisabled = ''ssh''" by (simp_all add: exFile_def exDisabled_def exStored_def)
  have ok: "agg_ok [([''ssh''], []), ([''ssh''], [])] ?a"
    using n by (simp add: agg_ok_def getSourcesLocked_def walk_ok_def source_ok_def named_def)
  have "effective (\<lambda>c. enabledP c) bs_proxies ?a ''ssh'' = Some exFile"
    by (simp add: effective_def enabledMap_def isEnabled_def exFile_def exDisabled_def zeroBase_def)
  then show ?thesis using sources_merge [OF ok] by auto
qed

end
