(* ===== verification/Client_Service.thy ===== *)
theory Client_Service
  imports Config_Source
begin

text \<open>
  The client service: its visitors (\<open>client/visitor/visitor_manager.go\<close>), the control that runs the proxies
  (\<open>client/control.go\<close>), the service with its reloads and logins (\<open>client/service.go\<close>), and the configuration manager the
  API calls (\<open>client/config_manager.go\<close>). What a configuration file contains once parsed, the orders in which maps are walked and whether a visitor can be
  started are arguments.
\<close>

section \<open>Visitors\<close>

text \<open>A running visitor is the configuration it was started with; \<open>cv_closed\<close> lists the visitors closed so far.\<close>

record VisitorManager =
  cv_cfgs :: "string \<rightharpoonup> VisitorConfigurer"
  cv_visitors :: "string \<rightharpoonup> VisitorConfigurer"
  cv_runID :: "string option"
  cv_closed :: "VisitorConfigurer list"
  cv_stopped :: bool

definition NewVisitorManager :: VisitorManager where
  "NewVisitorManager = \<lparr>cv_cfgs = Map.empty, cv_visitors = Map.empty, cv_runID = None, cv_closed = [], cv_stopped = False\<rparr>"

definition UpdateSession :: "string \<Rightarrow> VisitorManager \<Rightarrow> VisitorManager" where
  "UpdateSession runID vm = vm\<lparr>cv_runID := Some runID\<rparr>"

definition startVisitor :: "bool \<Rightarrow> VisitorConfigurer \<Rightarrow> VisitorManager \<Rightarrow> VisitorManager" where
  "startVisitor ok cfg vm = (if ok then vm\<lparr>cv_visitors := (cv_visitors vm)(visitorName cfg \<mapsto> cfg)\<rparr> else vm)"

text \<open>One tick of \<open>keepVisitorsRunning\<close>.\<close>

definition keepVisitor :: "(string \<Rightarrow> bool) \<Rightarrow> string \<Rightarrow> VisitorManager \<Rightarrow> VisitorManager" where
  "keepVisitor starts k vm =
     (case cv_cfgs vm k of None \<Rightarrow> vm
      | Some cfg \<Rightarrow> if cv_visitors vm (visitorName cfg) = None then startVisitor (starts (visitorName cfg)) cfg vm else vm)"

definition keepVisitorsRunning :: "string list \<Rightarrow> (string \<Rightarrow> bool) \<Rightarrow> VisitorManager \<Rightarrow> VisitorManager" where
  "keepVisitorsRunning order starts vm = (if cv_stopped vm then vm else fold (keepVisitor starts) order vm)"

definition closeOf :: "string \<Rightarrow> VisitorManager \<Rightarrow> VisitorConfigurer list" where
  "closeOf n vm = (case cv_visitors vm n of Some v \<Rightarrow> [v] | None \<Rightarrow> [])"

definition vmClose :: "string list \<Rightarrow> VisitorManager \<Rightarrow> VisitorManager" where
  "vmClose order vm = vm\<lparr>cv_closed := cv_closed vm @ concat (map (\<lambda>n. closeOf n vm) order), cv_stopped := True\<rparr>"

definition removeStaleVisitor :: "(string \<rightharpoonup> VisitorConfigurer) \<Rightarrow> string \<Rightarrow> VisitorManager \<Rightarrow> VisitorManager" where
  "removeStaleVisitor cfgsMap n vm =
     (case cv_cfgs vm n of None \<Rightarrow> vm
      | Some old \<Rightarrow>
          if cfgsMap n \<noteq> Some old
          then vm\<lparr>cv_cfgs := (cv_cfgs vm)(n := None), cv_closed := cv_closed vm @ closeOf n vm, cv_visitors := (cv_visitors vm)(n := None)\<rparr>
          else vm)"

definition addMissingVisitor :: "(string \<Rightarrow> bool) \<Rightarrow> VisitorConfigurer \<Rightarrow> VisitorManager \<Rightarrow> VisitorManager" where
  "addMissingVisitor starts cfg vm =
     (if cv_cfgs vm (visitorName cfg) = None
      then startVisitor (starts (visitorName cfg)) cfg (vm\<lparr>cv_cfgs := (cv_cfgs vm)(visitorName cfg \<mapsto> cfg)\<rparr>) else vm)"

definition vmUpdateAll :: "string list \<Rightarrow> (string \<Rightarrow> bool) \<Rightarrow> VisitorConfigurer list \<Rightarrow> VisitorManager \<Rightarrow> VisitorManager" where
  "vmUpdateAll order starts cfgs vm =
     fold (addMissingVisitor starts) cfgs (fold (removeStaleVisitor (map_of (rev (map (\<lambda>c. (visitorName c, c)) cfgs)))) order vm)"

definition TransferConn :: "string \<Rightarrow> VisitorManager \<Rightarrow> VisitorConfigurer option" where
  "TransferConn name vm = cv_visitors vm name"

definition GetVisitorCfg :: "string \<Rightarrow> VisitorManager \<Rightarrow> VisitorConfigurer option" where
  "GetVisitorCfg name vm = cv_cfgs vm name"

section \<open>Control\<close>

text \<open>A proxy configuration as the proxy manager sees it.\<close>

definition toCfg :: "ProxyConfigurer \<Rightarrow> ProxyConfigurer ProxyCfg" where
  "toCfg c = \<lparr>cfgName = proxyName c, cfgHealth = pb_HealthCheck (GetBaseConfig c), cfgLocalIP = pb_LocalIP (GetBaseConfig c),
     cfgLocalPort = pb_LocalPort (GetBaseConfig c), cfgRest = c\<rparr>"

record cControl =
  cc_runID :: string
  cc_pm :: "ProxyConfigurer Client_Proxies.Manager"
  cc_alive :: bool

record walks =
  wk_sources :: "walk list"
  wk_proxies :: "string list"
  wk_visitors :: "string list"
  wk_starts :: "string \<Rightarrow> bool"

definition controlRun ::
    "walks \<Rightarrow> string \<Rightarrow> string \<Rightarrow> ProxyConfigurer list \<Rightarrow> VisitorConfigurer list \<Rightarrow> VisitorManager \<Rightarrow> cControl \<times> VisitorManager" where
  "controlRun wk user runID ps vs vm =
     (\<lparr>cc_runID = runID, cc_pm = UpdateAll [] (map toCfg ps) \<lparr>proxies = Map.empty, mUser = user, msgs = []\<rparr>, cc_alive = True\<rparr>,
      vmUpdateAll (wk_visitors wk) (wk_starts wk) vs (UpdateSession runID vm))"

definition controlUpdateAllConfigurer ::
    "walks \<Rightarrow> ProxyConfigurer list \<Rightarrow> VisitorConfigurer list \<Rightarrow> cControl \<Rightarrow> VisitorManager \<Rightarrow> cControl \<times> VisitorManager" where
  "controlUpdateAllConfigurer wk ps vs c vm =
     (c\<lparr>cc_pm := UpdateAll (wk_proxies wk) (map toCfg ps) (cc_pm c)\<rparr>, vmUpdateAll (wk_visitors wk) (wk_starts wk) vs vm)"

text \<open>The end of \<open>worker\<close>, and a graceful close.\<close>

definition controlExit :: "string list \<Rightarrow> cControl \<Rightarrow> cControl" where
  "controlExit order c = c\<lparr>cc_pm := CloseAll order (cc_pm c), cc_alive := False\<rparr>"

section \<open>Service\<close>

datatype mgr_error =
    ErrInvalidArgument
  | ErrConflict
  | MgrNotFound
  | ErrStoreDisabled
  | ErrApplyConfig
  | StoreFailed source_error
  | AggregatorMissing
  | SourceMissing

text \<open>The sources are shared with the aggregator, which holds them; \<open>cs_pending\<close> is the configuration a login that has not finished has read.\<close>

record cService =
  cs_ctl :: "cControl option"
  cs_vm :: VisitorManager
  cs_user :: string
  cs_runID :: string
  cs_proxyCfgs :: "ProxyConfigurer list"
  cs_visitorCfgs :: "VisitorConfigurer list"
  cs_reloadStart :: "string list"
  cs_agg :: "Aggregator option"
  cs_configFilePath :: string
  cs_pending :: "(ProxyConfigurer list \<times> VisitorConfigurer list) option"

definition selectConfigurers :: "string list \<Rightarrow> ProxyConfigurer list \<times> VisitorConfigurer list \<Rightarrow> ProxyConfigurer list \<times> VisitorConfigurer list" where
  "selectConfigurers start cs =
     (case FilterClientConfigurers start (fst cs) (snd cs) of (ps, vs) \<Rightarrow> (CompleteProxyConfigurers ps, CompleteVisitorConfigurers vs))"

definition cNewService :: "walks \<Rightarrow> string \<Rightarrow> string \<Rightarrow> string list \<Rightarrow> Aggregator option \<Rightarrow> (mgr_error, cService) result" where
  "cNewService wk user path start agg =
     (case agg of None \<Rightarrow> Inl AggregatorMissing
      | Some a \<Rightarrow>
          (case aggregatorLoad (wk_sources wk) a of Inl e \<Rightarrow> Inl (StoreFailed e)
           | Inr cs \<Rightarrow>
               let (ps, vs) = selectConfigurers start cs in
               Inr \<lparr>cs_ctl = None, cs_vm = NewVisitorManager, cs_user = user, cs_runID = '''', cs_proxyCfgs = ps, cs_visitorCfgs = vs,
                    cs_reloadStart = start, cs_agg = Some a, cs_configFilePath = path, cs_pending = None\<rparr>))"

definition serviceUpdateAllConfigurer :: "walks \<Rightarrow> ProxyConfigurer list \<Rightarrow> VisitorConfigurer list \<Rightarrow> cService \<Rightarrow> cService" where
  "serviceUpdateAllConfigurer wk ps vs s =
     (let s1 = s\<lparr>cs_proxyCfgs := ps, cs_visitorCfgs := vs\<rparr> in
      case cs_ctl s1 of None \<Rightarrow> s1
      | Some c \<Rightarrow> (case controlUpdateAllConfigurer wk ps vs c (cs_vm s1) of (c', vm') \<Rightarrow> s1\<lparr>cs_ctl := Some c', cs_vm := vm'\<rparr>))"

definition reloadConfigFromSourcesLocked :: "walks \<Rightarrow> cService \<Rightarrow> (mgr_error, unit) result \<times> cService" where
  "reloadConfigFromSourcesLocked wk s =
     (case cs_agg s of None \<Rightarrow> (Inl AggregatorMissing, s)
      | Some a \<Rightarrow>
          (case aggregatorLoad (wk_sources wk) a of Inl e \<Rightarrow> (Inl (StoreFailed e), s)
           | Inr cs \<Rightarrow> let (ps, vs) = selectConfigurers (cs_reloadStart s) cs in (Inr (), serviceUpdateAllConfigurer wk ps vs s)))"

definition UpdateConfigSource ::
    "walks \<Rightarrow> string list \<Rightarrow> ProxyConfigurer option list \<Rightarrow> VisitorConfigurer option list \<Rightarrow> cService \<Rightarrow> (mgr_error, unit) result \<times> cService" where
  "UpdateConfigSource wk start ps vs s =
     (case cs_agg s of None \<Rightarrow> (Inl SourceMissing, s)
      | Some a \<Rightarrow>
          (case ag_config a of None \<Rightarrow> (Inl SourceMissing, s)
           | Some src \<Rightarrow>
               (case ReplaceAll ps vs src of
                  (Inl e, _) \<Rightarrow> (Inl (StoreFailed e), s)
                | (Inr _, src') \<Rightarrow>
                    reloadConfigFromSourcesLocked wk (s\<lparr>cs_agg := Some (a\<lparr>ag_config := Some src'\<rparr>), cs_reloadStart := start\<rparr>))))"

text \<open>A successful login: the configuration is read, then the control is started with it and put in place of the old one. Between the
  two no lock is held.\<close>

definition loginRead :: "string \<Rightarrow> cService \<Rightarrow> cService" where
  "loginRead runID s = s\<lparr>cs_runID := runID, cs_pending := Some (cs_proxyCfgs s, cs_visitorCfgs s)\<rparr>"

definition loginInstall :: "walks \<Rightarrow> cService \<Rightarrow> cService" where
  "loginInstall wk s =
     (case cs_pending s of None \<Rightarrow> s
      | Some (ps, vs) \<Rightarrow>
          (case controlRun wk (cs_user s) (cs_runID s) ps vs (cs_vm s) of (c, vm) \<Rightarrow>
             s\<lparr>cs_ctl := Some c, cs_vm := vm, cs_pending := None\<rparr>))"

definition controlLost :: "string list \<Rightarrow> cService \<Rightarrow> cService" where
  "controlLost order s = s\<lparr>cs_ctl := map_option (controlExit order) (cs_ctl s)\<rparr>"

definition serviceStop :: "string list \<Rightarrow> cService \<Rightarrow> cService" where
  "serviceStop order s = s\<lparr>cs_agg := None, cs_ctl := None, cs_vm := vmClose order (cs_vm s)\<rparr>"


section \<open>Configuration manager\<close>

definition setStore :: "StoreSource \<Rightarrow> cService \<Rightarrow> cService" where
  "setStore st s = s\<lparr>cs_agg := map_option (\<lambda>a. a\<lparr>ag_store := Some st\<rparr>) (cs_agg s)\<rparr>"

definition storeSourceOrError :: "cService \<Rightarrow> (mgr_error, StoreSource) result" where
  "storeSourceOrError s =
     (case cs_agg s of None \<Rightarrow> Inl ErrStoreDisabled
      | Some a \<Rightarrow> (case ag_store a of None \<Rightarrow> Inl ErrStoreDisabled | Some st \<Rightarrow> Inr st))"

definition StoreEnabled :: "cService \<Rightarrow> bool" where
  "StoreEnabled s \<longleftrightarrow> is_ok (storeSourceOrError s)"

text \<open>The errors a change of the store turns into.\<close>

fun storeError :: "store_op \<Rightarrow> source_error \<Rightarrow> mgr_error" where
  "storeError (SAddProxy _) (ErrAlreadyExists k n) = ErrConflict"
| "storeError (SAddVisitor _) (ErrAlreadyExists k n) = ErrConflict"
| "storeError (SUpdateProxy _) (ErrNotFound k n) = MgrNotFound"
| "storeError (SUpdateVisitor _) (ErrNotFound k n) = MgrNotFound"
| "storeError (SRemoveProxy _) (ErrNotFound k n) = MgrNotFound"
| "storeError (SRemoveVisitor _) (ErrNotFound k n) = MgrNotFound"
| "storeError _ e = StoreFailed e"

definition withStoreMutationAndReload ::
    "jsonx \<Rightarrow> walk \<Rightarrow> save_env \<Rightarrow> walks \<Rightarrow> store_op \<Rightarrow> cService \<Rightarrow> (mgr_error, unit) result \<times> cService" where
  "withStoreMutationAndReload js w env wk op s =
     (case storeSourceOrError s of Inl e \<Rightarrow> (Inl e, s)
      | Inr st \<Rightarrow>
          (case storeStep js w env op st of
             (Inl e, st') \<Rightarrow> (Inl (storeError op e), setStore st' s)
           | (Inr _, st') \<Rightarrow>
               (case reloadConfigFromSourcesLocked wk (setStore st' s) of
                  (Inl _, s') \<Rightarrow> (Inl ErrApplyConfig, s') | (Inr _, s') \<Rightarrow> (Inr (), s'))))"

text \<open>The variants that also return the entry as it is stored.\<close>

definition withStoreEntryMutationAndReload ::
    "jsonx \<Rightarrow> walk \<Rightarrow> save_env \<Rightarrow> walks \<Rightarrow> (StoreSource \<Rightarrow> 'a option) \<Rightarrow> store_op \<Rightarrow> cService \<Rightarrow> (mgr_error, 'a) result \<times> cService" where
  "withStoreEntryMutationAndReload js w env wk entry op s =
     (case withStoreMutationAndReload js w env wk op s of
        (Inl e, s') \<Rightarrow> (Inl e, s')
      | (Inr _, s') \<Rightarrow>
          (case storeSourceOrError s' of Inl e \<Rightarrow> (Inl e, s')
           | Inr st \<Rightarrow> (case entry st of None \<Rightarrow> (Inl ErrApplyConfig, s') | Some c \<Rightarrow> (Inr c, s'))))"

definition validateStoreProxyConfigurer :: "(string \<Rightarrow> string list) \<Rightarrow> ProxyConfigurer option \<Rightarrow> bool" where
  "validateStoreProxyConfigurer qualified cfg =
     (case cfg of None \<Rightarrow> False | Some c \<Rightarrow> is_ok (ValidateProxyConfigurerForClient qualified (Complete c)))"

definition validateStoreVisitorConfigurer :: "VisitorConfigurer option \<Rightarrow> bool" where
  "validateStoreVisitorConfigurer cfg = (case cfg of None \<Rightarrow> False | Some c \<Rightarrow> is_ok (ValidateVisitorConfigurer (vComplete c)))"

definition CreateStoreProxy ::
    "(string \<Rightarrow> string list) \<Rightarrow> jsonx \<Rightarrow> walk \<Rightarrow> save_env \<Rightarrow> walks \<Rightarrow> ProxyConfigurer option \<Rightarrow> cService \<Rightarrow> (mgr_error, ProxyConfigurer) result \<times> cService" where
  "CreateStoreProxy qualified js w env wk cfg s =
     (if \<not> validateStoreProxyConfigurer qualified cfg then (Inl ErrInvalidArgument, s)
      else withStoreEntryMutationAndReload js w env wk (GetProxy (proxyName (the cfg))) (SAddProxy cfg) s)"

definition UpdateStoreProxy ::
    "(string \<Rightarrow> string list) \<Rightarrow> jsonx \<Rightarrow> walk \<Rightarrow> save_env \<Rightarrow> walks \<Rightarrow> string \<Rightarrow> ProxyConfigurer option \<Rightarrow> cService \<Rightarrow>
     (mgr_error, ProxyConfigurer) result \<times> cService" where
  "UpdateStoreProxy qualified js w env wk name cfg s =
     (if name = '''' \<or> cfg = None \<or> proxyName (the cfg) \<noteq> name \<or> \<not> validateStoreProxyConfigurer qualified cfg then (Inl ErrInvalidArgument, s)
      else withStoreEntryMutationAndReload js w env wk (GetProxy name) (SUpdateProxy cfg) s)"

definition DeleteStoreProxy :: "jsonx \<Rightarrow> walk \<Rightarrow> save_env \<Rightarrow> walks \<Rightarrow> string \<Rightarrow> cService \<Rightarrow> (mgr_error, unit) result \<times> cService" where
  "DeleteStoreProxy js w env wk name s =
     (if name = '''' then (Inl ErrInvalidArgument, s) else withStoreMutationAndReload js w env wk (SRemoveProxy name) s)"

definition CreateStoreVisitor ::
    "jsonx \<Rightarrow> walk \<Rightarrow> save_env \<Rightarrow> walks \<Rightarrow> VisitorConfigurer option \<Rightarrow> cService \<Rightarrow> (mgr_error, VisitorConfigurer) result \<times> cService" where
  "CreateStoreVisitor js w env wk cfg s =
     (if \<not> validateStoreVisitorConfigurer cfg then (Inl ErrInvalidArgument, s)
      else withStoreEntryMutationAndReload js w env wk (GetVisitor (visitorName (the cfg))) (SAddVisitor cfg) s)"

definition UpdateStoreVisitor ::
    "jsonx \<Rightarrow> walk \<Rightarrow> save_env \<Rightarrow> walks \<Rightarrow> string \<Rightarrow> VisitorConfigurer option \<Rightarrow> cService \<Rightarrow> (mgr_error, VisitorConfigurer) result \<times> cService" where
  "UpdateStoreVisitor js w env wk name cfg s =
     (if name = '''' \<or> cfg = None \<or> visitorName (the cfg) \<noteq> name \<or> \<not> validateStoreVisitorConfigurer cfg then (Inl ErrInvalidArgument, s)
      else withStoreEntryMutationAndReload js w env wk (GetVisitor name) (SUpdateVisitor cfg) s)"

definition DeleteStoreVisitor :: "jsonx \<Rightarrow> walk \<Rightarrow> save_env \<Rightarrow> walks \<Rightarrow> string \<Rightarrow> cService \<Rightarrow> (mgr_error, unit) result \<times> cService" where
  "DeleteStoreVisitor js w env wk name s =
     (if name = '''' then (Inl ErrInvalidArgument, s) else withStoreMutationAndReload js w env wk (SRemoveVisitor name) s)"

definition GetStoreProxy :: "string \<Rightarrow> cService \<Rightarrow> (mgr_error, ProxyConfigurer) result" where
  "GetStoreProxy name s =
     (if name = '''' then Inl ErrInvalidArgument
      else case storeSourceOrError s of Inl e \<Rightarrow> Inl e | Inr st \<Rightarrow> (case GetProxy name st of None \<Rightarrow> Inl MgrNotFound | Some c \<Rightarrow> Inr c))"

definition GetStoreVisitor :: "string \<Rightarrow> cService \<Rightarrow> (mgr_error, VisitorConfigurer) result" where
  "GetStoreVisitor name s =
     (if name = '''' then Inl ErrInvalidArgument
      else case storeSourceOrError s of Inl e \<Rightarrow> Inl e | Inr st \<Rightarrow> (case GetVisitor name st of None \<Rightarrow> Inl MgrNotFound | Some c \<Rightarrow> Inr c))"

definition IsStoreProxyEnabled :: "string \<Rightarrow> cService \<Rightarrow> bool" where
  "IsStoreProxyEnabled name s =
     (name \<noteq> '''' \<and> (case storeSourceOrError s of Inl e \<Rightarrow> False
        | Inr st \<Rightarrow> (case GetProxy name st of None \<Rightarrow> False | Some c \<Rightarrow> isEnabled (enabledP c))))"

text \<open>\<open>GetProxyConfig\<close> and \<open>GetVisitorConfig\<close>: what runs, else what is stored.\<close>

definition GetProxyConfig :: "string \<Rightarrow> cService \<Rightarrow> ProxyConfigurer option" where
  "GetProxyConfig name s =
     (case Option.bind (cs_ctl s) (\<lambda>c. proxies (cc_pm c) name) of Some x \<Rightarrow> Some (cfgRest (Cfg x))
      | None \<Rightarrow> (case storeSourceOrError s of Inl e \<Rightarrow> None | Inr st \<Rightarrow> GetProxy name st))"

definition GetVisitorConfig :: "string \<Rightarrow> cService \<Rightarrow> VisitorConfigurer option" where
  "GetVisitorConfig name s =
     (case GetVisitorCfg name (cs_vm s) of Some x \<Rightarrow> Some x
      | None \<Rightarrow> (case storeSourceOrError s of Inl e \<Rightarrow> None | Inr st \<Rightarrow> GetVisitor name st))"

text \<open>\<open>commonOk\<close>: the common part of the file passes its own checks.\<close>

definition ValidateAllClientConfig :: "(string \<Rightarrow> string list) \<Rightarrow> bool \<Rightarrow> ProxyConfigurer list \<Rightarrow> VisitorConfigurer list \<Rightarrow> bool" where
  "ValidateAllClientConfig qualified commonOk ps vs \<longleftrightarrow>
     commonOk \<and> list_all (\<lambda>c. is_ok (ValidateProxyConfigurerForClient qualified c)) ps \<and> list_all (\<lambda>c. is_ok (ValidateVisitorConfigurer c)) vs"

text \<open>What the file says; \<open>LoadClientConfigResult\<close> ends with the check of the names.\<close>

record loaded =
  ld_start :: "string list"
  ld_proxies :: "ProxyConfigurer list"
  ld_visitors :: "VisitorConfigurer list"

definition LoadClientConfigResult :: "loaded option \<Rightarrow> loaded option" where
  "LoadClientConfigResult parsed =
     (case parsed of None \<Rightarrow> None
      | Some l \<Rightarrow> if is_ok (validateNoDuplicateNames (ld_proxies l) (ld_visitors l)) then Some l else None)"

text \<open>Completing the filtered list changes the configurations it shares with the whole one.\<close>

definition completeSelected :: "string list \<Rightarrow> loaded \<Rightarrow> loaded" where
  "completeSelected start l =
     l\<lparr>ld_proxies := map (\<lambda>c. if fst (FilterClientConfigurers start [c] []) = [] then c else Complete c) (ld_proxies l),
       ld_visitors := map (\<lambda>c. if snd (FilterClientConfigurers start [] [c]) = [] then c else vComplete c) (ld_visitors l)\<rparr>"

definition ReloadFromFile ::
    "(string \<Rightarrow> string list) \<Rightarrow> bool \<Rightarrow> walks \<Rightarrow> loaded option \<Rightarrow> cService \<Rightarrow> (mgr_error, unit) result \<times> cService" where
  "ReloadFromFile qualified commonOk wk parsed s =
     (if cs_configFilePath s = '''' then (Inl ErrInvalidArgument, s)
      else case LoadClientConfigResult parsed of None \<Rightarrow> (Inl ErrInvalidArgument, s)
      | Some l \<Rightarrow>
          let (ps, vs) = selectConfigurers (ld_start l) (ld_proxies l, ld_visitors l); l' = completeSelected (ld_start l) l in
          if \<not> ValidateAllClientConfig qualified commonOk ps vs then (Inl ErrInvalidArgument, s)
          else (case UpdateConfigSource wk (ld_start l) (map Some (ld_proxies l')) (map Some (ld_visitors l')) s of
                  (Inl e, s') \<Rightarrow> (Inl ErrApplyConfig, s') | (Inr _, s') \<Rightarrow> (Inr (), s')))"


section \<open>Reconciling\<close>

lemma map_of_rev_byName: "distinct (map nameOf cs) \<Longrightarrow> map_of (rev (map (\<lambda>c. (nameOf c, c)) cs)) = byName nameOf cs"
proof (induction cs)
  case (Cons c cs)
  then have "byName nameOf cs (nameOf c) = None"
    using byName_Some [of nameOf cs "nameOf c"] by (auto simp del: not_None_eq simp: image_iff) (metis not_None_eq)
  with Cons show ?case by (auto simp: byName_def fun_eq_iff map_add_def split: option.splits)
qed (simp add: byName_def)

lemma removeStaleVisitor_other:
  "n \<noteq> k \<Longrightarrow> cv_cfgs (removeStaleVisitor cm k vm) n = cv_cfgs vm n"
  "n \<noteq> k \<Longrightarrow> cv_visitors (removeStaleVisitor cm k vm) n = cv_visitors vm n"
  by (auto simp: removeStaleVisitor_def split: option.splits)

definition changed :: "(string \<rightharpoonup> VisitorConfigurer) \<Rightarrow> VisitorManager \<Rightarrow> string \<Rightarrow> bool" where
  "changed cm vm n \<longleftrightarrow> cv_cfgs vm n \<noteq> None \<and> cm n \<noteq> cv_cfgs vm n"

lemma removeStaleVisitor_eq:
  "removeStaleVisitor cm n vm =
     (if changed cm vm n
      then vm\<lparr>cv_cfgs := (cv_cfgs vm)(n := None), cv_closed := cv_closed vm @ closeOf n vm, cv_visitors := (cv_visitors vm)(n := None)\<rparr> else vm)"
  by (auto simp: removeStaleVisitor_def changed_def split: option.splits)

lemma removeStaleVisitor_fold:
  "distinct order \<Longrightarrow>
   cv_cfgs (fold (removeStaleVisitor cm) order vm) n = (if n \<in> set order \<and> changed cm vm n then None else cv_cfgs vm n) \<and>
   cv_visitors (fold (removeStaleVisitor cm) order vm) n = (if n \<in> set order \<and> changed cm vm n then None else cv_visitors vm n)"
proof (induction order arbitrary: vm)
  case (Cons k order)
  show ?case
  proof (cases "n = k")
    case True
    then have "n \<notin> set order" using Cons.prems by auto
    then show ?thesis using Cons True by (auto simp: removeStaleVisitor_eq)
  next
    case False
    then have "changed cm (removeStaleVisitor cm k vm) n = changed cm vm n" by (simp add: changed_def removeStaleVisitor_other)
    then show ?thesis using Cons False by (simp add: removeStaleVisitor_other)
  qed
qed simp

lemma startVisitor_fields [simp]:
  "cv_cfgs (startVisitor ok c vm) = cv_cfgs vm"
  "cv_visitors (startVisitor ok c vm) = (if ok then (cv_visitors vm)(visitorName c \<mapsto> c) else cv_visitors vm)"
  "cv_closed (startVisitor ok c vm) = cv_closed vm"
  by (simp_all add: startVisitor_def)

lemma addMissingVisitor_fold:
  assumes "distinct (map (\<lambda>c. visitorName c) cfgs)"
  shows "cv_cfgs (fold (addMissingVisitor starts) cfgs vm) n =
      (case cv_cfgs vm n of Some c \<Rightarrow> Some c | None \<Rightarrow> byName (\<lambda>c. visitorName c) cfgs n) \<and>
    cv_visitors (fold (addMissingVisitor starts) cfgs vm) n =
      (case cv_cfgs vm n of Some c \<Rightarrow> cv_visitors vm n
       | None \<Rightarrow> (case byName (\<lambda>c. visitorName c) cfgs n of Some c \<Rightarrow> if starts n then Some c else cv_visitors vm n | None \<Rightarrow> cv_visitors vm n))"
  using assms
proof (induction cfgs arbitrary: vm)
  case (Cons c cfgs)
  have none: "byName (\<lambda>c. visitorName c) cfgs (visitorName c) = None"
    using Cons.prems by (auto simp: byName_def map_of_eq_None_iff)
  have b: "byName (\<lambda>c. visitorName c) (c # cfgs) n = (if n = visitorName c then Some c else byName (\<lambda>c. visitorName c) cfgs n)"
    by (simp add: byName_def)
  show ?case using Cons none unfolding b by (auto simp: addMissingVisitor_def split: option.splits)
qed (simp add: byName_def split: option.splits)

text \<open>After an update the configurations are the given ones; a visitor whose configuration stays is left alone.\<close>

lemma vmUpdateAll_cfgs:
  assumes "distinct (map (\<lambda>c. visitorName c) cfgs)" "distinct order" "set order = dom (cv_cfgs vm)"
  shows "cv_cfgs (vmUpdateAll order starts cfgs vm) = byName (\<lambda>c. visitorName c) cfgs"
proof
  fix n
  have "n \<in> set order \<longleftrightarrow> cv_cfgs vm n \<noteq> None" using assms(3) by blast
  then show "cv_cfgs (vmUpdateAll order starts cfgs vm) n = byName (\<lambda>c. visitorName c) cfgs n"
    using removeStaleVisitor_fold [OF assms(2), of "byName (\<lambda>c. visitorName c) cfgs" vm n]
    by (auto simp: vmUpdateAll_def addMissingVisitor_fold [OF assms(1)] map_of_rev_byName [OF assms(1)] changed_def split: option.splits)
qed

lemma vmUpdateAll_visitors:
  assumes "distinct (map (\<lambda>c. visitorName c) cfgs)" "distinct order" "set order = dom (cv_cfgs vm)"
    "\<And>n v. cv_visitors vm n = Some v \<Longrightarrow> cv_cfgs vm n = Some v" "cv_visitors (vmUpdateAll order starts cfgs vm) n = Some v"
  shows "byName (\<lambda>c. visitorName c) cfgs n = Some v"
proof -
  let ?want = "byName (\<lambda>c. visitorName c) cfgs"
  let ?r = "fold (removeStaleVisitor ?want) order vm"
  have o: "n \<in> set order \<longleftrightarrow> cv_cfgs vm n \<noteq> None" using assms(3) by blast
  have kept: "?want n = Some x" if "cv_visitors ?r n = Some x" for x
  proof -
    have c: "\<not> (n \<in> set order \<and> changed ?want vm n)" and x: "cv_visitors vm n = Some x"
      using that removeStaleVisitor_fold [OF assms(2), of ?want vm n] by (auto split: if_splits)
    then show ?thesis using assms(4) [OF x] o by (simp add: changed_def)
  qed
  have "cv_visitors (fold (addMissingVisitor starts) cfgs ?r) n = Some v"
    using assms(5) by (simp add: vmUpdateAll_def map_of_rev_byName [OF assms(1)])
  then show ?thesis
    using conjunct2 [OF addMissingVisitor_fold [OF assms(1), of starts ?r n]] kept [of v]
    by (cases "cv_cfgs ?r n"; cases "?want n"; cases "starts n") simp_all
qed

lemma vmUpdateAll_idle:
  assumes "distinct (map (\<lambda>c. visitorName c) cfgs)" "byName (\<lambda>c. visitorName c) cfgs = cv_cfgs vm"
  shows "vmUpdateAll order starts cfgs vm = vm"
proof -
  have "fold (removeStaleVisitor (cv_cfgs vm)) order vm = vm" by (induction order) (auto simp: removeStaleVisitor_eq changed_def)
  moreover have "fold (addMissingVisitor starts) cs vm = vm" if "set cs \<subseteq> set cfgs" for cs
    using that
  proof (induction cs)
    case (Cons c cs)
    then have "cv_cfgs vm (visitorName c) = Some c" unfolding assms(2) [symmetric] by (simp add: byName_Some [OF assms(1)])
    with Cons show ?case by (simp add: addMissingVisitor_def)
  qed simp
  ultimately show ?thesis by (simp add: vmUpdateAll_def map_of_rev_byName [OF assms(1)] assms(2))
qed

lemma keyBy_toCfg: "distinct (map (\<lambda>c. proxyName c) cs) \<Longrightarrow> keyBy (map toCfg cs) n = map_option toCfg (byName (\<lambda>c. proxyName c) cs n)"
proof -
  assume d: "distinct (map (\<lambda>c. proxyName c) cs)"
  have "keyBy (map toCfg cs) = map_of (map (\<lambda>x. (fst x, toCfg (snd x))) (rev (map (\<lambda>c. (proxyName c, c)) cs)))"
    by (simp add: keyBy_def toCfg_def rev_map comp_def)
  then show ?thesis using d by (simp add: map_of_map [of toCfg, unfolded case_prod_beta] map_of_rev_byName)
qed

lemma Cfg_NewWrapper [simp]: "Cfg (NewWrapper user c) = c"
  by (simp add: NewWrapper_def Let_def)

lemma UpdateAll_cfgs:
  assumes "distinct (map cfgName cfgs)" "distinct order" "set order = dom (proxies pm)"
  shows "map_option Cfg (proxies (UpdateAll order cfgs pm) n) = keyBy cfgs n"
proof -
  have "n \<in> set order \<longleftrightarrow> proxies pm n \<noteq> None" using assms(3) by blast
  then show ?thesis
    using removeStale_fold_proxies [OF assms(2), of "keyBy cfgs" pm n]
    by (auto simp: UpdateAll_def addMissing_fold_proxies [OF assms(1)] stale_def option.map_comp comp_def option.map_ident split: option.splits)
qed


section \<open>What runs\<close>

text \<open>What is to run: the effective entries that are selected, completed.\<close>

definition desired :: "string list \<Rightarrow> ('a \<Rightarrow> 'a) \<Rightarrow> (string \<rightharpoonup> 'a) \<Rightarrow> string \<rightharpoonup> 'a" where
  "desired start f m n = (if start \<noteq> [] \<and> n \<notin> set start then None else map_option f (m n))"

abbreviation desiredP :: "string list \<Rightarrow> Aggregator \<Rightarrow> string \<rightharpoonup> ProxyConfigurer" where
  "desiredP start a \<equiv> desired start Complete (effective (\<lambda>c. enabledP c) bs_proxies a)"

abbreviation desiredV :: "string list \<Rightarrow> Aggregator \<Rightarrow> string \<rightharpoonup> VisitorConfigurer" where
  "desiredV start a \<equiv> desired start vComplete (effective (\<lambda>c. enabledV c) bs_visitors a)"

lemma strictly_distinct: "strictly nameOf cs \<Longrightarrow> distinct (map nameOf cs)"
  unfolding strictly_def by (induction cs) auto

lemma select_entries:
  assumes "distinct (map nameOf cs)" "\<And>c. nameOf (f c) = nameOf c" "\<And>c. c \<in> set cs \<Longrightarrow> isEnabled (en c)"
    "r = map f (filter (\<lambda>c. isEnabled (en c)) (if start = [] then cs else filter (\<lambda>c. nameOf c \<in> set start) cs))"
  shows "distinct (map nameOf r) \<and> byName nameOf r = desired start f (byName nameOf cs)"
proof -
  have r: "r = map f (filter (\<lambda>c. start = [] \<or> nameOf c \<in> set start) cs)"
    using assms(3) unfolding assms(4) by (auto intro!: filter_cong simp: filter_id_conv)
  have nm: "map nameOf r = map nameOf (filter (\<lambda>c. start = [] \<or> nameOf c \<in> set start) cs)" by (simp add: r assms(2))
  then have d: "distinct (map nameOf r)" using assms(1) by (simp add: distinct_map_filter)
  have e: "byName nameOf r n = Some x \<longleftrightarrow> desired start f (byName nameOf cs) n = Some x" for n x
    unfolding byName_Some [OF d] using assms(2) by (auto simp: desired_def byName_Some [OF assms(1)] r)
  have "byName nameOf r = desired start f (byName nameOf cs)" by (rule ext, rule opt_eqI [OF e refl])
  with d show ?thesis by blast
qed

lemma effective_enabled: "effective en entries a n = Some c \<Longrightarrow> isEnabled (en c)"
  by (auto simp: effective_def enabledMap_Some split: option.splits bind_splits)

lemma select_effective:
  assumes "aggregatorLoad ws a = Inr cs" "agg_ok ws a" "selectConfigurers start cs = (ps, vs)"
  shows "distinct (map (\<lambda>c. proxyName c) ps) \<and> byName (\<lambda>c. proxyName c) ps = desiredP start a \<and>
    distinct (map (\<lambda>c. visitorName c) vs) \<and> byName (\<lambda>c. visitorName c) vs = desiredV start a"
proof -
  obtain ps0 vs0 where l: "cs = (ps0, vs0)" "strictly (\<lambda>c. proxyName c) ps0" "strictly (\<lambda>c. visitorName c) vs0"
      "byName (\<lambda>c. proxyName c) ps0 = effective (\<lambda>c. enabledP c) bs_proxies a" "byName (\<lambda>c. visitorName c) vs0 = effective (\<lambda>c. enabledV c) bs_visitors a"
    using aggregatorLoad_effective [OF assms(2)] assms(1) by auto
  have en: "c \<in> set ps0 \<Longrightarrow> isEnabled (enabledP c)" "d \<in> set vs0 \<Longrightarrow> isEnabled (enabledV d)" for c d
    using byName_Some [OF strictly_distinct [OF l(2)], of "proxyName c" c] byName_Some [OF strictly_distinct [OF l(3)], of "visitorName d" d]
      effective_enabled l(4,5) by metis+
  have nm: "proxyName (Complete c) = proxyName c" "visitorName (vComplete d) = visitorName d" for c d
    by (simp_all add: Complete_def baseComplete_def)
  have e: "ps = map Complete (filter (\<lambda>c. isEnabled (enabledP c)) (if start = [] then ps0 else filter (\<lambda>c. proxyName c \<in> set start) ps0))"
      "vs = map vComplete (filter (\<lambda>c. isEnabled (enabledV c)) (if start = [] then vs0 else filter (\<lambda>c. visitorName c \<in> set start) vs0))"
    using assms(3)
    by (simp_all add: selectConfigurers_def FilterClientConfigurers_def CompleteProxyConfigurers_def CompleteVisitorConfigurers_def l(1) Let_def)
  show ?thesis
    using select_entries [where f = Complete and en = "\<lambda>c. enabledP c", OF strictly_distinct [OF l(2)] nm(1) en(1) e(1)]
      select_entries [where f = vComplete and en = "\<lambda>c. enabledV c", OF strictly_distinct [OF l(3)] nm(2) en(2) e(2)] l(4,5)
    by simp
qed

text \<open>The invariant: the sources are well formed, the configuration in force is what they say, and what runs is the configuration in force.\<close>

definition sources_good :: "cService \<Rightarrow> bool" where
  "sources_good s \<longleftrightarrow>
     (\<forall>a. cs_agg s = Some a \<longrightarrow> ag_config a \<noteq> None \<and> list_all source_ok (getSourcesLocked a))"

definition in_force :: "cService \<Rightarrow> bool" where
  "in_force s \<longleftrightarrow>
     distinct (map (\<lambda>c. proxyName c) (cs_proxyCfgs s)) \<and> distinct (map (\<lambda>c. visitorName c) (cs_visitorCfgs s)) \<and>
     (\<forall>a. cs_agg s = Some a \<longrightarrow>
        byName (\<lambda>c. proxyName c) (cs_proxyCfgs s) = desiredP (cs_reloadStart s) a \<and>
        byName (\<lambda>c. visitorName c) (cs_visitorCfgs s) = desiredV (cs_reloadStart s) a)"

definition proxies_match :: "cService \<Rightarrow> bool" where
  "proxies_match s \<longleftrightarrow>
     (\<forall>c n. cs_ctl s = Some c \<longrightarrow> cc_alive c \<longrightarrow>
        map_option Cfg (proxies (cc_pm c) n) = map_option toCfg (byName (\<lambda>c. proxyName c) (cs_proxyCfgs s) n))"

definition visitors_match :: "cService \<Rightarrow> bool" where
  "visitors_match s \<longleftrightarrow>
     (cs_ctl s \<noteq> None \<longrightarrow> cv_cfgs (cs_vm s) = byName (\<lambda>c. visitorName c) (cs_visitorCfgs s)) \<and>
     (\<forall>n v. cv_visitors (cs_vm s) n = Some v \<longrightarrow> cv_cfgs (cs_vm s) n = Some v) \<and>
     (\<forall>n v. cv_cfgs (cs_vm s) n = Some v \<longrightarrow> visitorName v = n)"

definition pending_fresh :: "cService \<Rightarrow> bool" where
  "pending_fresh s \<longleftrightarrow> (\<forall>x. cs_pending s = Some x \<longrightarrow> x = (cs_proxyCfgs s, cs_visitorCfgs s))"

definition service_inv :: "cService \<Rightarrow> bool" where
  "service_inv s \<longleftrightarrow> sources_good s \<and> in_force s \<and> proxies_match s \<and> visitors_match s \<and> pending_fresh s"

text \<open>The orders fit the maps they are used on.\<close>

definition sources_fit :: "walks \<Rightarrow> cService \<Rightarrow> bool" where
  "sources_fit wk s \<longleftrightarrow> (\<forall>a. cs_agg s = Some a \<longrightarrow> list_all2 walk_ok (wk_sources wk) (getSourcesLocked a))"

definition maps_fit :: "walks \<Rightarrow> cService \<Rightarrow> bool" where
  "maps_fit wk s \<longleftrightarrow>
     (\<forall>c. cs_ctl s = Some c \<longrightarrow> distinct (wk_proxies wk) \<and> set (wk_proxies wk) = dom (proxies (cc_pm c))) \<and>
     distinct (wk_visitors wk) \<and> set (wk_visitors wk) = dom (cv_cfgs (cs_vm s))"

lemma toCfg_names: "map cfgName (map toCfg ps) = map (\<lambda>c. proxyName c) ps"
  by (simp add: toCfg_def)

lemma byName_visitorName: "distinct (map (\<lambda>c. visitorName c) vs) \<Longrightarrow> byName (\<lambda>c. visitorName c) vs n = Some v \<Longrightarrow> visitorName v = n"
  by (simp add: byName_Some)

lemma update_inv:
  assumes "maps_fit wk s" "visitors_match s" "cs_pending s = None" "sources_good s"
    "distinct (map (\<lambda>c. proxyName c) ps)" "distinct (map (\<lambda>c. visitorName c) vs)"
    "\<And>a. cs_agg s = Some a \<Longrightarrow> byName (\<lambda>c. proxyName c) ps = desiredP (cs_reloadStart s) a \<and> byName (\<lambda>c. visitorName c) vs = desiredV (cs_reloadStart s) a"
  shows "service_inv (serviceUpdateAllConfigurer wk ps vs s)"
proof (cases "cs_ctl s")
  case None
  then show ?thesis using assms
    by (auto simp: serviceUpdateAllConfigurer_def service_inv_def sources_good_def in_force_def proxies_match_def visitors_match_def pending_fresh_def)
next
  case (Some c)
  have w: "distinct (wk_proxies wk)" "set (wk_proxies wk) = dom (proxies (cc_pm c))" "distinct (wk_visitors wk)"
      "set (wk_visitors wk) = dom (cv_cfgs (cs_vm s))"
    using assms(1) Some by (auto simp: maps_fit_def)
  have p: "map_option Cfg (proxies (UpdateAll (wk_proxies wk) (map toCfg ps) (cc_pm c)) n) = map_option toCfg (byName (\<lambda>c. proxyName c) ps n)" for n
    using UpdateAll_cfgs [OF _ w(1,2), of "map toCfg ps"] keyBy_toCfg [OF assms(5)] assms(5) by (simp only: toCfg_names)
  have v: "cv_cfgs (vmUpdateAll (wk_visitors wk) (wk_starts wk) vs (cs_vm s)) = byName (\<lambda>c. visitorName c) vs"
    by (rule vmUpdateAll_cfgs [OF assms(6) w(3,4)])
  have r: "cv_visitors (vmUpdateAll (wk_visitors wk) (wk_starts wk) vs (cs_vm s)) n = Some x \<Longrightarrow> byName (\<lambda>c. visitorName c) vs n = Some x" for n x
    by (rule vmUpdateAll_visitors [OF assms(6) w(3,4)]) (use assms(2) in \<open>auto simp: visitors_match_def\<close>)
  have e: "serviceUpdateAllConfigurer wk ps vs s = s\<lparr>cs_proxyCfgs := ps, cs_visitorCfgs := vs,
      cs_ctl := Some (c\<lparr>cc_pm := UpdateAll (wk_proxies wk) (map toCfg ps) (cc_pm c)\<rparr>), cs_vm := vmUpdateAll (wk_visitors wk) (wk_starts wk) vs (cs_vm s)\<rparr>"
    using Some by (simp add: serviceUpdateAllConfigurer_def controlUpdateAllConfigurer_def Let_def)
  show ?thesis unfolding e service_inv_def using assms(3-7) byName_visitorName [OF assms(6)]
    by (auto simp: sources_good_def in_force_def proxies_match_def visitors_match_def pending_fresh_def p v r)
qed


section \<open>Runs of the service\<close>

datatype api_op =
    CreateProxyOp "ProxyConfigurer option"
  | UpdateProxyOp string "ProxyConfigurer option"
  | DeleteProxyOp string
  | CreateVisitorOp "VisitorConfigurer option"
  | UpdateVisitorOp string "VisitorConfigurer option"
  | DeleteVisitorOp string
  | ReloadOp bool "loaded option"

fun apiStep :: "(string \<Rightarrow> string list) \<Rightarrow> jsonx \<Rightarrow> walk \<Rightarrow> save_env \<Rightarrow> walks \<Rightarrow> api_op \<Rightarrow> cService \<Rightarrow> cService" where
  "apiStep qualified js w env wk (CreateProxyOp c) s = snd (CreateStoreProxy qualified js w env wk c s)"
| "apiStep qualified js w env wk (UpdateProxyOp n c) s = snd (UpdateStoreProxy qualified js w env wk n c s)"
| "apiStep qualified js w env wk (DeleteProxyOp n) s = snd (DeleteStoreProxy js w env wk n s)"
| "apiStep qualified js w env wk (CreateVisitorOp c) s = snd (CreateStoreVisitor js w env wk c s)"
| "apiStep qualified js w env wk (UpdateVisitorOp n c) s = snd (UpdateStoreVisitor js w env wk n c s)"
| "apiStep qualified js w env wk (DeleteVisitorOp n) s = snd (DeleteStoreVisitor js w env wk n s)"
| "apiStep qualified js w env wk (ReloadOp commonOk parsed) s = snd (ReloadFromFile qualified commonOk wk parsed s)"

text \<open>Everything that happens to a service, with the calls of the API kept out of the middle of a login.\<close>

inductive service_run :: "(string \<Rightarrow> string list) \<Rightarrow> jsonx \<Rightarrow> cService \<Rightarrow> bool" for qual js where
  new: "ag_config a \<noteq> None \<Longrightarrow> list_all source_ok (getSourcesLocked a) \<Longrightarrow> list_all2 walk_ok (wk_sources wk) (getSourcesLocked a) \<Longrightarrow>
    cNewService wk user path start (Some a) = Inr s \<Longrightarrow> service_run qual js s"
| api: "service_run qual js s \<Longrightarrow> cs_pending s = None \<Longrightarrow> maps_fit wk s \<Longrightarrow> s' = apiStep qual js w env wk op s \<Longrightarrow>
    sources_fit wk s' \<Longrightarrow> service_run qual js s'"
| login: "service_run qual js s \<Longrightarrow> service_run qual js (loginRead runID s)"
| install: "service_run qual js s \<Longrightarrow> maps_fit wk s \<Longrightarrow> service_run qual js (loginInstall wk s)"
| lost: "service_run qual js s \<Longrightarrow> service_run qual js (controlLost order s)"
| tick: "service_run qual js s \<Longrightarrow> service_run qual js (s\<lparr>cs_vm := keepVisitorsRunning order starts (cs_vm s)\<rparr>)"
| answer: "service_run qual js s \<Longrightarrow> cs_ctl s = Some c \<Longrightarrow> handleNewProxyResp now runErr n remoteAddr err (cc_pm c) = (r, pm) \<Longrightarrow>
    service_run qual js (s\<lparr>cs_ctl := Some (c\<lparr>cc_pm := pm\<rparr>)\<rparr>)"
| stop: "service_run qual js s \<Longrightarrow> service_run qual js (serviceStop order s)"

lemma reload_inv:
  assumes "sources_good s" "sources_fit wk s" "maps_fit wk s" "visitors_match s" "cs_pending s = None" "cs_agg s = Some a"
  shows "fst (reloadConfigFromSourcesLocked wk s) = Inr () \<and> service_inv (snd (reloadConfigFromSourcesLocked wk s))"
proof -
  have ok: "agg_ok (wk_sources wk) a"
    using assms(1,2,6) by (auto simp: sources_good_def sources_fit_def agg_ok_def getSourcesLocked_def)
  then obtain cs where l: "aggregatorLoad (wk_sources wk) a = Inr cs" using aggregatorLoad_effective by blast
  obtain ps vs where sel: "selectConfigurers (cs_reloadStart s) cs = (ps, vs)" by fastforce
  have "service_inv (serviceUpdateAllConfigurer wk ps vs s)"
    using select_effective [OF l ok sel] assms(1,3-6) by (intro update_inv) auto
  then show ?thesis by (simp add: reloadConfigFromSourcesLocked_def assms(6) l sel)
qed

lemma update_agg [simp]: "cs_agg (serviceUpdateAllConfigurer wk ps vs s) = cs_agg s"
  by (simp add: serviceUpdateAllConfigurer_def Let_def split: option.split prod.split)

lemma reload_agg [simp]: "cs_agg (snd (reloadConfigFromSourcesLocked wk s)) = cs_agg s"
  by (simp add: reloadConfigFromSourcesLocked_def split: option.split sum.split prod.split)

lemma same_sources:
  assumes "ag_config a = ag_config b" "map_option st_src (ag_store a) = map_option st_src (ag_store b)"
  shows "getSourcesLocked a = getSourcesLocked b" "effective en entries a = effective en entries b"
proof -
  have g: "getSourcesLocked x = (case ag_config x of None \<Rightarrow> [] | Some c \<Rightarrow> [c]) @ (case map_option st_src (ag_store x) of None \<Rightarrow> [] | Some c \<Rightarrow> [c])" for x
    by (cases "ag_store x") (simp_all add: getSourcesLocked_def)
  have e: "effective en entries x = (\<lambda>n. case Option.bind (map_option st_src (ag_store x)) (\<lambda>s. enabledMap en (entries s) n) of
      Some c \<Rightarrow> Some c | None \<Rightarrow> Option.bind (ag_config x) (\<lambda>s. enabledMap en (entries s) n))" for x
    by (cases "ag_store x") (simp_all add: effective_def fun_eq_iff)
  show "getSourcesLocked a = getSourcesLocked b" "effective en entries a = effective en entries b"
    unfolding g e assms by (rule refl)+
qed

lemma setStore_same:
  assumes "storeSourceOrError s = Inr st" "st_src st' = st_src st"
  shows "service_inv (setStore st' s) = service_inv s"
proof -
  from assms(1) obtain a where a: "cs_agg s = Some a" "ag_store a = Some st"
    by (auto simp: storeSourceOrError_def split: option.splits)
  note same = same_sources [of "a\<lparr>ag_store := Some st'\<rparr>" a]
  show ?thesis using a assms(2)
    by (simp add: service_inv_def setStore_def sources_good_def in_force_def proxies_match_def visitors_match_def pending_fresh_def same)
qed

lemma mutation_inv:
  assumes "service_inv s" "cs_pending s = None" "maps_fit wk s" "withStoreMutationAndReload js w env wk op s = (r, s')" "sources_fit wk s'"
  shows "service_inv s'"
proof (cases "storeSourceOrError s")
  case (Inl e)
  then show ?thesis using assms by (simp add: withStoreMutationAndReload_def)
next
  case (Inr st)
  then obtain a where a: "cs_agg s = Some a" "ag_store a = Some st"
    by (auto simp: storeSourceOrError_def split: option.splits)
  obtain q st' where st: "storeStep js w env op st = (q, st')" by fastforce
  show ?thesis
  proof (cases q)
    case (Inl e)
    then have "s' = setStore st' s" "st_src st' = st_src st"
      using assms(4) Inr st storeStep_src [OF st] by (simp_all add: withStoreMutationAndReload_def)
    then show ?thesis using setStore_same [OF Inr] assms(1) by simp
  next
    case (Inr u)
    let ?t = "setStore st' s"
    have s': "s' = snd (reloadConfigFromSourcesLocked wk ?t)"
      using assms(4) Inr st \<open>storeSourceOrError s = Inr st\<close> by (auto simp: withStoreMutationAndReload_def split: prod.splits sum.splits)
    have "source_ok (st_src st)" using assms(1) a by (auto simp: service_inv_def sources_good_def getSourcesLocked_def)
    then have "sources_good ?t" using storeStep_source_ok [OF _ st] assms(1) a
      by (auto simp: service_inv_def sources_good_def getSourcesLocked_def setStore_def)
    moreover have "sources_fit wk ?t" using assms(5) unfolding s' sources_fit_def by simp
    ultimately show ?thesis unfolding s'
      using reload_inv [of ?t wk "a\<lparr>ag_store := Some st'\<rparr>"] assms(1-3) a
      by (simp add: setStore_def maps_fit_def service_inv_def visitors_match_def)
  qed
qed

lemma entry_mutation_snd: "snd (withStoreEntryMutationAndReload js w env wk entry op s) = snd (withStoreMutationAndReload js w env wk op s)"
  by (simp add: withStoreEntryMutationAndReload_def split: prod.split sum.split option.split)

lemma collect_named:
  assumes "\<And>c n. vld c = Inr n \<Longrightarrow> \<exists>x. c = Some x \<and> n = nameOf x \<and> n \<noteq> ''''"
  shows "named nameOf m \<Longrightarrow> collectEntries vld cs m = Inr m' \<Longrightarrow> named nameOf m'"
proof (induction cs arbitrary: m)
  case (Cons c cs)
  then obtain n where n: "vld c = Inr n" "collectEntries vld cs (m(n := c)) = Inr m'" by (auto split: sum.splits)
  with assms obtain x where "c = Some x" "n = nameOf x" "n \<noteq> ''''" by blast
  with Cons.IH [OF named_upd [OF Cons.prems(1)]] n(2) show ?case by blast
qed simp

lemma ReplaceAll_ok: "ReplaceAll ps vs src = (Inr u, src') \<Longrightarrow> source_ok src'"
  by (auto simp: ReplaceAll_def source_ok_def split: sum.splits
    intro: collect_named [OF validated(1) named_empty] collect_named [OF validated(2) named_empty])


lemma source_update_inv:
  assumes "service_inv s" "cs_pending s = None" "maps_fit wk s" "UpdateConfigSource wk start ps vs s = (r, s')" "sources_fit wk s'"
  shows "service_inv s'"
proof (cases "\<exists>a src src'. cs_agg s = Some a \<and> ag_config a = Some src \<and> ReplaceAll ps vs src = (Inr (), src')")
  case False
  then have "s' = s" using assms(4) by (auto simp: UpdateConfigSource_def split: option.splits sum.splits prod.splits)
  then show ?thesis using assms(1) by simp
next
  case True
  then obtain a src src' where a: "cs_agg s = Some a" "ag_config a = Some src" "ReplaceAll ps vs src = (Inr (), src')" by blast
  let ?t = "s\<lparr>cs_agg := Some (a\<lparr>ag_config := Some src'\<rparr>), cs_reloadStart := start\<rparr>"
  have s': "s' = snd (reloadConfigFromSourcesLocked wk ?t)" using assms(4) a by (simp add: UpdateConfigSource_def)
  have "sources_good ?t" using assms(1) a ReplaceAll_ok [OF a(3)]
    by (auto simp: service_inv_def sources_good_def getSourcesLocked_def)
  moreover have "sources_fit wk ?t" using assms(5) unfolding s' sources_fit_def by simp
  ultimately show ?thesis unfolding s'
    using reload_inv [of ?t wk "a\<lparr>ag_config := Some src'\<rparr>"] assms(1-3)
    by (simp add: maps_fit_def service_inv_def visitors_match_def)
qed

lemma ReloadFromFile_snd:
  "snd (ReloadFromFile qual commonOk wk parsed s) = s \<or>
   (\<exists>start ps vs. snd (ReloadFromFile qual commonOk wk parsed s) = snd (UpdateConfigSource wk start ps vs s))"
proof (cases "LoadClientConfigResult parsed")
  case None
  then show ?thesis by (simp add: ReloadFromFile_def)
next
  case (Some l)
  obtain ps vs where sel: "selectConfigurers (ld_start l) (ld_proxies l, ld_visitors l) = (ps, vs)" by fastforce
  have r: "snd (case x of (Inl e, s') \<Rightarrow> (Inl ErrApplyConfig, s') | (Inr u, s') \<Rightarrow> (Inr (), s')) = snd x"
    for x :: "(mgr_error, unit) result \<times> cService"
    by (cases x; cases "fst x") simp_all
  show ?thesis using Some sel r by (auto simp: ReloadFromFile_def Let_def) blast
qed

lemma api_inv:
  assumes "service_inv s" "cs_pending s = None" "maps_fit wk s" "s' = apiStep qual js w env wk op s" "sources_fit wk s'"
  shows "service_inv s'"
proof -
  have m: "service_inv t" if "t = snd (withStoreMutationAndReload js w env wk sop s)" "sources_fit wk t" for t sop
    using mutation_inv [OF assms(1-3), of js w env sop "fst (withStoreMutationAndReload js w env wk sop s)" t] that by simp
  show ?thesis
  proof (cases op)
    case (ReloadOp commonOk parsed)
    then consider "s' = s" | start ps vs where "s' = snd (UpdateConfigSource wk start ps vs s)"
      using assms(4) ReloadFromFile_snd [of qual commonOk wk parsed s] by auto
    then show ?thesis
    proof cases
      case 1
      then show ?thesis using assms(1) by simp
    next
      case (2 start ps vs)
      then show ?thesis
        using source_update_inv [OF assms(1-3), of start ps vs "fst (UpdateConfigSource wk start ps vs s)" s'] assms(5) by simp
    qed
  qed (use assms m in \<open>auto simp: CreateStoreProxy_def UpdateStoreProxy_def DeleteStoreProxy_def CreateStoreVisitor_def
    UpdateStoreVisitor_def DeleteStoreVisitor_def entry_mutation_snd split: if_splits\<close>)
qed

lemma install_inv:
  assumes "service_inv s" "maps_fit wk s"
  shows "service_inv (loginInstall wk s)"
proof (cases "cs_pending s")
  case None
  then show ?thesis using assms(1) by (simp add: loginInstall_def)
next
  case (Some x)
  let ?ps = "cs_proxyCfgs s" and ?vs = "cs_visitorCfgs s" and ?vm = "UpdateSession (cs_runID s) (cs_vm s)"
  have x: "x = (?ps, ?vs)" using Some assms(1) by (simp add: service_inv_def pending_fresh_def)
  have d: "distinct (map (\<lambda>c. proxyName c) ?ps)" "distinct (map (\<lambda>c. visitorName c) ?vs)" using assms(1) by (auto simp: service_inv_def in_force_def)
  have vm: "cv_cfgs ?vm = cv_cfgs (cs_vm s)" "cv_visitors ?vm = cv_visitors (cs_vm s)" by (simp_all add: UpdateSession_def)
  have w: "distinct (wk_visitors wk)" "set (wk_visitors wk) = dom (cv_cfgs ?vm)" using assms(2) vm by (auto simp: maps_fit_def)
  have p: "map_option Cfg (proxies (UpdateAll [] (map toCfg ?ps) \<lparr>proxies = Map.empty, mUser = cs_user s, msgs = []\<rparr>) n) =
      map_option toCfg (byName (\<lambda>c. proxyName c) ?ps n)" for n
    using UpdateAll_cfgs [of "map toCfg ?ps" "[]" "\<lparr>proxies = Map.empty, mUser = cs_user s, msgs = []\<rparr>"] keyBy_toCfg [OF d(1)] d(1)
    by (simp only: toCfg_names) simp
  have v: "cv_cfgs (vmUpdateAll (wk_visitors wk) (wk_starts wk) ?vs ?vm) = byName (\<lambda>c. visitorName c) ?vs"
    by (rule vmUpdateAll_cfgs [OF d(2) w])
  have r: "cv_visitors (vmUpdateAll (wk_visitors wk) (wk_starts wk) ?vs ?vm) n = Some y \<Longrightarrow> byName (\<lambda>c. visitorName c) ?vs n = Some y" for n y
    by (rule vmUpdateAll_visitors [OF d(2) w]) (use assms(1) vm in \<open>auto simp: service_inv_def visitors_match_def\<close>)
  show ?thesis using assms(1) Some x byName_visitorName [OF d(2)]
    by (auto simp: loginInstall_def controlRun_def service_inv_def sources_good_def in_force_def proxies_match_def visitors_match_def pending_fresh_def p v r)
qed

lemma answer_cfgs:
  assumes "handleNewProxyResp now runErr name remoteAddr err pm = (r, pm')"
  shows "map_option Cfg (proxies pm' n) = map_option Cfg (proxies pm n)"
  using assms by (auto simp: handleNewProxyResp_def StartProxy_def SetRunningStatus_def Let_def split: option.splits if_splits)

lemma keepVisitor_fields:
  "cv_cfgs (keepVisitor starts k vm) = cv_cfgs vm"
  "cv_visitors (keepVisitor starts k vm) n = Some v \<Longrightarrow> cv_visitors vm n = Some v \<or> cv_cfgs vm k = Some v \<and> n = visitorName v"
  by (auto simp: keepVisitor_def split: option.splits if_splits)

definition running_known :: "VisitorManager \<Rightarrow> bool" where
  "running_known vm \<longleftrightarrow> (\<forall>n v. cv_visitors vm n = Some v \<longrightarrow> cv_cfgs vm n = Some v) \<and> (\<forall>n v. cv_cfgs vm n = Some v \<longrightarrow> visitorName v = n)"

lemma keepVisitor_known: "running_known vm \<Longrightarrow> running_known (keepVisitor starts k vm)"
  unfolding running_known_def keepVisitor_fields(1) using keepVisitor_fields(2) by metis

lemma keepVisitors_known:
  "running_known vm \<Longrightarrow> running_known (fold (keepVisitor starts) order vm) \<and> cv_cfgs (fold (keepVisitor starts) order vm) = cv_cfgs vm"
  by (induction order arbitrary: vm) (simp_all add: keepVisitor_known keepVisitor_fields)

lemma service_run_inv: "service_run qual js s \<Longrightarrow> service_inv s"
proof (induction rule: service_run.induct)
  case (new a wk user path start s)
  have ok: "agg_ok (wk_sources wk) a" using new by (auto simp: agg_ok_def getSourcesLocked_def)
  then obtain cs where l: "aggregatorLoad (wk_sources wk) a = Inr cs" using aggregatorLoad_effective by blast
  obtain ps vs where sel: "selectConfigurers start cs = (ps, vs)" by fastforce
  show ?case using new select_effective [OF l ok sel]
    by (auto simp: cNewService_def l sel service_inv_def sources_good_def in_force_def proxies_match_def visitors_match_def pending_fresh_def
      NewVisitorManager_def)
next
  case (api s wk s' w env op)
  then show ?case using api_inv by blast
next
  case (login s runID)
  then show ?case
    by (simp add: loginRead_def service_inv_def sources_good_def in_force_def proxies_match_def visitors_match_def pending_fresh_def)
next
  case (install s wk)
  then show ?case using install_inv by blast
next
  case (lost s order)
  then show ?case
    by (auto simp: controlLost_def controlExit_def service_inv_def sources_good_def in_force_def proxies_match_def visitors_match_def pending_fresh_def)
next
  case (tick s order starts)
  let ?vm = "keepVisitorsRunning order starts (cs_vm s)"
  have k: "running_known ?vm" "cv_cfgs ?vm = cv_cfgs (cs_vm s)"
    using tick keepVisitors_known [of "cs_vm s" starts order]
    by (auto simp: keepVisitorsRunning_def service_inv_def visitors_match_def running_known_def)
  show ?case using tick k(1) unfolding running_known_def k(2)
    by (simp add: service_inv_def sources_good_def in_force_def proxies_match_def visitors_match_def pending_fresh_def k(2))
next
  case (answer s c now runErr n remoteAddr err r pm)
  then show ?case using answer_cfgs [OF answer.hyps(3)]
    by (auto simp: service_inv_def sources_good_def in_force_def proxies_match_def visitors_match_def pending_fresh_def)
next
  case (stop s order)
  then show ?case
    by (auto simp: serviceStop_def vmClose_def service_inv_def sources_good_def in_force_def proxies_match_def visitors_match_def pending_fresh_def)
qed


text \<open>C4: What runs is what the sources say. Through logins, lost connections, reloads and every call of the store API, failed writes
  included, as long as no reload or call of the API falls between the two halves of a login (\<open>loginRead\<close> and \<open>loginInstall\<close>, see
  \<open>login_reload_race\<close> below), a connected client runs for each name exactly the completed configuration of the enabled entry of the store, else of the file, that is
  selected for starting, and no other proxy; its visitors are configured likewise, and every visitor that runs has
  the configuration in force.\<close>

theorem running_matches_sources:
  assumes "service_run qual js s" "cs_agg s = Some a" "cs_ctl s = Some c" "cc_alive c"
  shows "map_option (\<lambda>x. cfgRest (Cfg x)) (proxies (cc_pm c) n) = desiredP (cs_reloadStart s) a n \<and>
    cv_cfgs (cs_vm s) n = desiredV (cs_reloadStart s) a n \<and>
    (cv_visitors (cs_vm s) n \<noteq> None \<longrightarrow> cv_visitors (cs_vm s) n = desiredV (cs_reloadStart s) a n)"
proof -
  have i: "service_inv s" using assms(1) by (rule service_run_inv)
  have "map_option (\<lambda>x. cfgRest (Cfg x)) (proxies (cc_pm c) n) = map_option cfgRest (map_option Cfg (proxies (cc_pm c) n))"
    by (simp add: option.map_comp comp_def)
  also have "\<dots> = map_option cfgRest (map_option toCfg (byName (\<lambda>c. proxyName c) (cs_proxyCfgs s) n))"
    using i assms(3,4) by (simp add: service_inv_def proxies_match_def)
  also have "\<dots> = desiredP (cs_reloadStart s) a n"
    using i assms(2) by (simp add: service_inv_def in_force_def option.map_comp comp_def toCfg_def option.map_ident)
  finally have p: "map_option (\<lambda>x. cfgRest (Cfg x)) (proxies (cc_pm c) n) = desiredP (cs_reloadStart s) a n" .
  have v: "cv_cfgs (cs_vm s) n = desiredV (cs_reloadStart s) a n"
    using i assms(2,3) by (simp add: service_inv_def in_force_def visitors_match_def)
  have "cv_visitors (cs_vm s) n \<noteq> None \<longrightarrow> cv_visitors (cs_vm s) n = cv_cfgs (cs_vm s) n"
    using i by (auto simp: service_inv_def visitors_match_def)
  with p v show ?thesis by simp
qed

text \<open>C39: Tunnels outlive the control connection. When the connection to the server is lost and the client logs in again, no visitor is closed, started or
  changed: the manager is the same but for the session its new connections use.\<close>

theorem tunnels_survive:
  assumes "service_run qual js s" "cs_ctl s \<noteq> None"
  shows "cs_vm (loginInstall wk (loginRead runID (controlLost order s))) = UpdateSession runID (cs_vm s)"
proof -
  have i: "service_inv s" using assms(1) by (rule service_run_inv)
  have "vmUpdateAll (wk_visitors wk) (wk_starts wk) (cs_visitorCfgs s) (UpdateSession runID (cs_vm s)) = UpdateSession runID (cs_vm s)"
    using i assms(2) by (intro vmUpdateAll_idle) (auto simp: service_inv_def in_force_def visitors_match_def UpdateSession_def)
  then show ?thesis by (simp add: loginInstall_def loginRead_def controlLost_def controlRun_def)
qed

text \<open>Without the restriction on runs the first statement fails: a reload between the two halves of a login is lost for the new control.\<close>

lemma login_reload_race:
  assumes "service_run qual js s" "cs_pending s = None"
  shows "\<exists>c. cs_ctl (loginInstall wk' (snd (withStoreMutationAndReload js w env wk op (loginRead runID s)))) = Some c \<and>
    map_option Cfg (proxies (cc_pm c) n) = map_option toCfg (byName (\<lambda>c. proxyName c) (cs_proxyCfgs s) n)"
proof -
  have d: "distinct (map (\<lambda>c. proxyName c) (cs_proxyCfgs s))" using service_run_inv [OF assms(1)] by (simp add: service_inv_def in_force_def)
  let ?t = "snd (withStoreMutationAndReload js w env wk op (loginRead runID s))"
  have p: "cs_pending (serviceUpdateAllConfigurer wk ps vs t) = cs_pending t" for ps vs t
    by (simp add: serviceUpdateAllConfigurer_def Let_def split: option.split prod.split)
  have q: "cs_pending (snd (reloadConfigFromSourcesLocked wk t)) = cs_pending t" for t
    by (simp add: reloadConfigFromSourcesLocked_def p split: option.split sum.split prod.split)
  have r: "snd (case x of (Inl e, s') \<Rightarrow> (Inl ErrApplyConfig, s') | (Inr u, s') \<Rightarrow> (Inr (), s')) = snd x"
    for x :: "(mgr_error, unit) result \<times> cService"
    by (cases x; cases "fst x") simp_all
  have pend: "cs_pending ?t = Some (cs_proxyCfgs s, cs_visitorCfgs s)"
    by (auto simp: withStoreMutationAndReload_def setStore_def loginRead_def r q split: sum.split prod.split)
  show ?thesis
    using UpdateAll_cfgs [of "map toCfg (cs_proxyCfgs s)" "[]" "\<lparr>proxies = Map.empty, mUser = cs_user ?t, msgs = []\<rparr>"] keyBy_toCfg [OF d] d
    unfolding loginInstall_def pend controlRun_def by (simp del: map_map add: toCfg_names)
qed


section \<open>Example\<close>

definition exVisitor :: VisitorConfigurer where
  "exVisitor = STCPVisitorConfig ((zeroVisitorBase ''stcp'')\<lparr>vb_Name := ''db'', vb_ServerName := ''db'', vb_BindPort := 9000\<rparr>)"

definition exAgg :: Aggregator where
  "exAgg = \<lparr>ag_config = Some \<lparr>bs_proxies = [''ssh'' \<mapsto> exFile], bs_visitors = [''db'' \<mapsto> exVisitor]\<rparr>,
     ag_store = Some (exEmptyStore\<lparr>st_src := \<lparr>bs_proxies = [''ssh'' \<mapsto> exDisabled], bs_visitors = Map.empty\<rparr>\<rparr>)\<rparr>"

definition exWalks :: walks where
  "exWalks = \<lparr>wk_sources = [([''ssh''], [''db'']), ([''ssh''], [])], wk_proxies = [], wk_visitors = [], wk_starts = \<lambda>n. True\<rparr>"

definition exNew :: cService where
  "exNew = \<lparr>cs_ctl = None, cs_vm = NewVisitorManager, cs_user = ''u'', cs_runID = '''', cs_proxyCfgs = [Complete exFile],
     cs_visitorCfgs = [vComplete exVisitor], cs_reloadStart = [], cs_agg = Some exAgg, cs_configFilePath = ''f'', cs_pending = None\<rparr>"

definition exLoggedIn :: cService where
  "exLoggedIn = loginInstall exWalks (loginRead ''r1'' exNew)"

lemma exLoggedIn_run: "service_run qual js exLoggedIn"
proof -
  have n: "proxyName exFile = ''ssh''" "proxyName exDisabled = ''ssh''" "visitorName exVisitor = ''db''"
      "enabledP exFile = None" "enabledP exDisabled = Some False" "enabledV exVisitor = None"
    by (simp_all add: exFile_def exDisabled_def exStored_def exVisitor_def zeroBase_def zeroVisitorBase_def)
  have ok: "ag_config exAgg \<noteq> None" "list_all source_ok (getSourcesLocked exAgg)"
      "list_all2 walk_ok (wk_sources exWalks) (getSourcesLocked exAgg)"
    using n by (simp_all add: exAgg_def exWalks_def getSourcesLocked_def walk_ok_def source_ok_def named_def)
  have g: "getSourcesLocked exAgg = [\<lparr>bs_proxies = [''ssh'' \<mapsto> exFile], bs_visitors = [''db'' \<mapsto> exVisitor]\<rparr>,
      \<lparr>bs_proxies = [''ssh'' \<mapsto> exDisabled], bs_visitors = Map.empty\<rparr>]"
    by (simp add: exAgg_def getSourcesLocked_def)
  have "aggregatorLoad (wk_sources exWalks) exAgg = Inr ([exFile], [exVisitor])"
    unfolding aggregatorLoad_def g by (simp add: exWalks_def baseLoad_eq loadEntries_def List.map_filter_def isEnabled_def mergeEntries_def mapsToSortedSlices_def n)
  then have "cNewService exWalks ''u'' ''f'' [] (Some exAgg) = Inr exNew"
    by (simp add: cNewService_def selectConfigurers_def FilterClientConfigurers_def isEnabled_def n CompleteProxyConfigurers_def
      CompleteVisitorConfigurers_def exNew_def)
  with ok have "service_run qual js exNew" by (rule service_run.new)
  then have "service_run qual js (loginRead ''r1'' exNew)" by (rule service_run.login)
  moreover have "maps_fit exWalks (loginRead ''r1'' exNew)" by (simp add: maps_fit_def loginRead_def exNew_def NewVisitorManager_def exWalks_def)
  ultimately show ?thesis unfolding exLoggedIn_def by (rule service_run.install)
qed

lemma exLoggedIn_fields:
  "cs_ctl exLoggedIn \<noteq> None" "cc_alive (the (cs_ctl exLoggedIn))" "cs_agg exLoggedIn = Some exAgg" "cs_reloadStart exLoggedIn = []"
  "cv_visitors (cs_vm exLoggedIn) = [''db'' \<mapsto> vComplete exVisitor]"
  by (simp_all add: exLoggedIn_def loginInstall_def loginRead_def exNew_def controlRun_def vmUpdateAll_def addMissingVisitor_def UpdateSession_def
    NewVisitorManager_def startVisitor_def exWalks_def exVisitor_def vBaseComplete_def)

theorem running_matches_sources_witness:
  "map_option (\<lambda>x. cfgRest (Cfg x)) (proxies (cc_pm (the (cs_ctl exLoggedIn))) ''ssh'') = Some (Complete exFile) \<and>
   map_option (\<lambda>x. cfgRest (Cfg x)) (proxies (cc_pm (the (cs_ctl exLoggedIn))) ''db'') = None"
proof -
  obtain c where c: "cs_ctl exLoggedIn = Some c" using exLoggedIn_fields(1) by blast
  then have a: "cc_alive c" using exLoggedIn_fields(2) by simp
  have "desiredP [] exAgg ''ssh'' = Some (Complete exFile)" "desiredP [] exAgg ''db'' = None"
    by (simp_all add: desired_def effective_def enabledMap_def isEnabled_def exAgg_def exFile_def exDisabled_def zeroBase_def)
  then show ?thesis
    using running_matches_sources [OF exLoggedIn_run exLoggedIn_fields(3) c a, of "''ssh''"]
      running_matches_sources [OF exLoggedIn_run exLoggedIn_fields(3) c a, of "''db''"] c exLoggedIn_fields(4)
    by simp
qed

theorem tunnels_survive_witness:
  "cv_visitors (cs_vm (loginInstall exWalks (loginRead ''r2'' (controlLost [''ssh''] exLoggedIn)))) = [''db'' \<mapsto> vComplete exVisitor] \<and>
   cv_runID (cs_vm (loginInstall exWalks (loginRead ''r2'' (controlLost [''ssh''] exLoggedIn)))) = Some ''r2''"
  using tunnels_survive [OF exLoggedIn_run exLoggedIn_fields(1), of exWalks "''r2''" "[''ssh'']"] exLoggedIn_fields(5)
  by (simp add: UpdateSession_def)

end
