(* ===== verification/Login_Loop.thy ===== *)
theory Login_Loop
  imports Proxy_Config Complex_Main
begin

text \<open>
  Retrying with a backoff (\<open>pkg/util/wait/backoff.go\<close>) and the client's login loop built on it
  (\<open>client/service.go\<close>, \<open>loopLoginUntilSuccess\<close>). Floating point factors are rational numbers; the random number and the clock of a call
  are arguments.
\<close>

section \<open>Backoff\<close>

definition trunc :: "rat \<Rightarrow> int" where
  "trunc x = (if x \<ge> 0 then \<lfloor>x\<rfloor> else \<lceil>x\<rceil>)"

definition Jitter :: "rat \<Rightarrow> duration \<Rightarrow> rat \<Rightarrow> duration" where
  "Jitter rnd d maxFactor = d + trunc (rnd * (if maxFactor \<le> 0 then 1 else maxFactor) * of_int d)"

record FastBackoffOptions =
  fb_Duration :: duration
  fb_Factor :: rat
  fb_Jitter :: rat
  fb_MaxDuration :: duration
  fb_InitDurationIfFail :: duration
  fb_FastRetryCount :: int
  fb_FastRetryDelay :: duration
  fb_FastRetryJitter :: rat
  fb_FastRetryWindow :: duration

record fastBackoff =
  fi_called :: bool
  fi_consecutiveErrCount :: int
  fi_fastRetryCutoffTime :: go_time
  fi_countsInFastRetryWindow :: int

definition NewFastBackoffManager :: fastBackoff where
  "NewFastBackoffManager =
     \<lparr>fi_called = False, fi_consecutiveErrCount = 0, fi_fastRetryCutoffTime = 0, fi_countsInFastRetryWindow = 1\<rparr>"

text \<open>The delay after an error that is not retried fast.\<close>

definition errorDelay :: "FastBackoffOptions \<Rightarrow> rat \<Rightarrow> duration \<Rightarrow> int \<Rightarrow> duration" where
  "errorDelay opt rnd prev errCount =
     (let d0 = (if errCount = 1 then EmptyOr 0 (fb_InitDurationIfFail opt) prev else prev);
          d1 = EmptyOr 0 d0 Second;
          d2 = (if fb_Factor opt \<noteq> 0 then trunc (of_int d1 * fb_Factor opt) else d1);
          d3 = (if fb_Jitter opt > 0 then Jitter rnd d2 (fb_Jitter opt) else d2)
      in if fb_MaxDuration opt > 0 \<and> d3 > fb_MaxDuration opt then fb_MaxDuration opt else d3)"

definition Backoff ::
    "FastBackoffOptions \<Rightarrow> rat \<Rightarrow> go_time \<Rightarrow> duration \<Rightarrow> bool \<Rightarrow> fastBackoff \<Rightarrow> duration \<times> fastBackoff" where
  "Backoff opt rnd now prev err f =
     (if \<not> fi_called f then (fb_Duration opt, f\<lparr>fi_called := True\<rparr>)
      else
        let f1 = f\<lparr>fi_consecutiveErrCount := (if err then fi_consecutiveErrCount f + 1 else 0)\<rparr> in
        if fb_FastRetryCount opt > 0 \<and> err then
          let f2 = f1\<lparr>fi_countsInFastRetryWindow := fi_countsInFastRetryWindow f1 + 1\<rparr> in
          if fi_countsInFastRetryWindow f2 \<le> fb_FastRetryCount opt then (Jitter rnd (fb_FastRetryDelay opt) (fb_FastRetryJitter opt), f2)
          else (errorDelay opt rnd prev (fi_consecutiveErrCount f2),
                if now > fi_fastRetryCutoffTime f2
                then f2\<lparr>fi_fastRetryCutoffTime := now + fb_FastRetryWindow opt, fi_countsInFastRetryWindow := 0\<rparr> else f2)
        else if err then (errorDelay opt rnd prev (fi_consecutiveErrCount f1), f1)
        else (fb_Duration opt, f1))"

text \<open>The loop of \<open>BackoffUntil\<close>, for at most \<open>n\<close> rounds: \<open>f\<close> answers whether it is finished and whether it failed, \<open>stop\<close> tells
  whether the stop channel is closed, \<open>env\<close> gives the random number and the clock of each round. The delays are returned.\<close>

fun backoffRounds ::
    "FastBackoffOptions \<Rightarrow> bool \<Rightarrow> (nat \<Rightarrow> rat \<times> go_time) \<Rightarrow> (nat \<Rightarrow> 's \<Rightarrow> bool \<times> bool \<times> 's) \<Rightarrow> ('s \<Rightarrow> bool) \<Rightarrow>
     nat \<Rightarrow> nat \<Rightarrow> duration \<Rightarrow> bool \<Rightarrow> fastBackoff \<Rightarrow> 's \<Rightarrow> bool \<times> duration list \<times> 's" where
  "backoffRounds opt sliding env f stop 0 k delay err b s = (False, [], s)"
| "backoffRounds opt sliding env f stop (Suc n) k delay err b s =
     (if stop s then (False, [], s)
      else
        let (delay1, b1) = (if sliding then (delay, b) else Backoff opt (fst (env k)) (snd (env k)) delay err b) in
        case f k s of (fin, err', s') \<Rightarrow>
          if fin then (True, [], s')
          else
            let (delay2, b2) = (if sliding then Backoff opt (fst (env k)) (snd (env k)) delay1 err' b1 else (delay1, b1)) in
            if stop s' then (False, [delay2], s')
            else (case backoffRounds opt sliding env f stop n (k + 1) delay2 err' b2 s' of (r, ds, s'') \<Rightarrow> (r, delay2 # ds, s'')))"

definition BackoffUntil ::
    "FastBackoffOptions \<Rightarrow> bool \<Rightarrow> (nat \<Rightarrow> rat \<times> go_time) \<Rightarrow> (nat \<Rightarrow> 's \<Rightarrow> bool \<times> bool \<times> 's) \<Rightarrow> ('s \<Rightarrow> bool) \<Rightarrow> nat \<Rightarrow> 's \<Rightarrow>
     bool \<times> duration list \<times> 's" where
  "BackoffUntil opt sliding env f stop n s =
     (let (_, b) = Backoff opt (fst (env 0)) (snd (env 0)) 0 False NewFastBackoffManager in backoffRounds opt sliding env f stop n 0 0 False b s)"

section \<open>Login\<close>

record login_state =
  ls_runID :: string
  ls_consecutiveFailures :: nat
  ls_cancelled :: bool

text \<open>\<open>dial k runID\<close> is the outcome of the \<open>k\<close>th call of \<open>Dial\<close>: an error, or the run id the server gave.
  \<open>NewControl\<close> returns no error on any path, so the branch for its error is left out.\<close>

definition loginFunc :: "bool \<Rightarrow> (nat \<Rightarrow> string \<Rightarrow> (string, string) result) \<Rightarrow> nat \<Rightarrow> login_state \<Rightarrow> bool \<times> bool \<times> login_state" where
  "loginFunc firstLoginExit dial k s =
     (case dial k (ls_runID s) of
        Inl e \<Rightarrow>
          let fails = ls_consecutiveFailures s + 1 in
          (False, True, s\<lparr>ls_consecutiveFailures := fails,
             ls_runID := (if ls_runID s \<noteq> '''' \<and> fails \<ge> 3 then '''' else ls_runID s),
             ls_cancelled := ls_cancelled s \<or> firstLoginExit\<rparr>)
      | Inr runID \<Rightarrow> (True, False, s\<lparr>ls_consecutiveFailures := 0, ls_runID := runID\<rparr>))"

definition loginBackoff :: "duration \<Rightarrow> FastBackoffOptions" where
  "loginBackoff maxInterval =
     \<lparr>fb_Duration = Second, fb_Factor = 2, fb_Jitter = 1 / 10, fb_MaxDuration = maxInterval, fb_InitDurationIfFail = 0,
      fb_FastRetryCount = 0, fb_FastRetryDelay = 0, fb_FastRetryJitter = 0, fb_FastRetryWindow = 0\<rparr>"

definition loopLoginUntilSuccess ::
    "duration \<Rightarrow> bool \<Rightarrow> (nat \<Rightarrow> rat \<times> go_time) \<Rightarrow> (nat \<Rightarrow> string \<Rightarrow> (string, string) result) \<Rightarrow> nat \<Rightarrow> string \<Rightarrow>
     bool \<times> duration list \<times> login_state" where
  "loopLoginUntilSuccess maxInterval firstLoginExit env dial n runID =
     BackoffUntil (loginBackoff maxInterval) True env (loginFunc firstLoginExit dial) ls_cancelled n
       \<lparr>ls_runID = runID, ls_consecutiveFailures = 0, ls_cancelled = False\<rparr>"

section \<open>The delays\<close>

lemma trunc_of_int: "trunc (of_int i) = i"
  by (simp add: trunc_def)

lemma trunc_nonneg: "0 \<le> x \<Longrightarrow> 0 \<le> trunc x"
  by (simp add: trunc_def)

lemma login_errorDelay:
  assumes "0 \<le> rnd" "prev = 0 \<or> Second \<le> prev" "Second \<le> maxInterval"
  shows "Second \<le> errorDelay (loginBackoff maxInterval) rnd prev n \<and> errorDelay (loginBackoff maxInterval) rnd prev n \<le> maxInterval"
proof -
  let ?d = "if prev = 0 then Second else prev"
  have pos: "0 < Second" by (simp add: Second_def)
  have two: "trunc (of_int d * 2) = d * 2" for d
    using trunc_of_int [of "d * 2"] by simp
  have j: "0 \<le> trunc (rnd * (1 / 10) * of_int (?d * 2))"
    by (rule trunc_nonneg) (use assms pos in \<open>auto intro!: mult_nonneg_nonneg\<close>)
  have "errorDelay (loginBackoff maxInterval) rnd prev n = min (?d * 2 + trunc (rnd * (1 / 10) * of_int (?d * 2))) maxInterval"
    using assms pos by (auto simp: errorDelay_def loginBackoff_def Jitter_def Let_def EmptyOr_def two min_def)
  then show ?thesis using assms j pos by auto
qed

lemma login_Backoff:
  assumes "fi_called b"
  shows "Backoff (loginBackoff m) rnd now prev True b =
    (errorDelay (loginBackoff m) rnd prev (fi_consecutiveErrCount b + 1), b\<lparr>fi_consecutiveErrCount := fi_consecutiveErrCount b + 1\<rparr>)"
  using assms by (simp add: Backoff_def Let_def loginBackoff_def)

text \<open>The state of the loop before the round \<open>k\<close>: after three failures the client asks as a new one.\<close>

definition trying :: "nat \<Rightarrow> login_state \<Rightarrow> bool" where
  "trying k s \<longleftrightarrow> ls_consecutiveFailures s = k \<and> \<not> ls_cancelled s \<and> (k \<ge> 3 \<longrightarrow> ls_runID s = '''')"

lemma rounds_recover:
  assumes "\<And>k. 0 \<le> fst (env k)" "Second \<le> maxInterval" "\<And>k. N \<le> k \<Longrightarrow> is_ok (dial k '''')"
    "fi_called b" "delay = 0 \<or> Second \<le> delay" "trying k s" "max 3 N < k + n" "k \<le> max 3 N"
  shows "\<exists>ds s'. backoffRounds (loginBackoff maxInterval) True env (loginFunc False dial) ls_cancelled n k delay err b s = (True, ds, s') \<and>
    k + length ds \<le> max 3 N \<and> (\<forall>d \<in> set ds. Second \<le> d \<and> d \<le> maxInterval) \<and>
    ls_consecutiveFailures s' = 0 \<and> (\<exists>r. dial (k + length ds) r = Inr (ls_runID s'))"
  using assms(4-8)
proof (induction n arbitrary: k delay err b s)
  case 0
  then show ?case by linarith
next
  case (Suc n)
  show ?case
  proof (cases "dial k (ls_runID s)")
    case (Inr runID)
    then show ?thesis using Suc.prems by (auto simp: loginFunc_def trying_def)
  next
    case (Inl e)
    have lt: "k < max 3 N"
    proof (rule ccontr)
      assume "\<not> k < max 3 N"
      then have "ls_runID s = ''''" "N \<le> k" using Suc.prems(3) by (auto simp: trying_def)
      with assms(3) [of k] Inl show False by simp
    qed
    let ?d = "errorDelay (loginBackoff maxInterval) (fst (env k)) delay (fi_consecutiveErrCount b + 1)"
    have d: "Second \<le> ?d" "?d \<le> maxInterval" using login_errorDelay [OF assms(1) Suc.prems(2) assms(2)] by auto
    let ?s = "s\<lparr>ls_consecutiveFailures := k + 1, ls_runID := (if ls_runID s \<noteq> '''' \<and> k + 1 \<ge> 3 then '''' else ls_runID s)\<rparr>"
    have t: "trying (k + 1) ?s" using Suc.prems(3) by (auto simp: trying_def)
    have f: "loginFunc False dial k s = (False, True, ?s)" using Inl Suc.prems(3) by (simp add: loginFunc_def trying_def Let_def)
    let ?b = "b\<lparr>fi_consecutiveErrCount := fi_consecutiveErrCount b + 1\<rparr>"
    from Suc.IH [of ?b ?d "k + 1" ?s True] d t lt Suc.prems(1,4)
    obtain ds s' where ih: "backoffRounds (loginBackoff maxInterval) True env (loginFunc False dial) ls_cancelled n (k + 1) ?d True ?b ?s = (True, ds, s')"
        "k + 1 + length ds \<le> max 3 N" "\<forall>d \<in> set ds. Second \<le> d \<and> d \<le> maxInterval" "ls_consecutiveFailures s' = 0"
        "\<exists>r. dial (k + 1 + length ds) r = Inr (ls_runID s')"
      by auto
    have "backoffRounds (loginBackoff maxInterval) True env (loginFunc False dial) ls_cancelled (Suc n) k delay err b s = (True, ?d # ds, s')"
      using Suc.prems(1,3) ih(1) by (simp add: f login_Backoff trying_def)
    then show ?thesis using ih d by (intro exI [of _ "?d # ds"] exI [of _ s']) simp
  qed
qed

text \<open>C15: A client whose session is stuck on the server comes back by itself. If from the \<open>N\<close>th try on the server accepts
  a new client, whatever it answers to the old run id, then the loop logs in at the latest at try \<open>max 3 N\<close>, counted from
  zero, with the run id that try returned, and it waits at least a second and at most the maximal interval between any two tries.\<close>

theorem login_recovers:
  assumes "\<And>k. 0 \<le> fst (env k)" "Second \<le> maxInterval" "\<And>k. N \<le> k \<Longrightarrow> is_ok (dial k '''')" "max 3 N < n"
  shows "\<exists>ds s. loopLoginUntilSuccess maxInterval False env dial n runID = (True, ds, s) \<and> length ds \<le> max 3 N \<and>
    (\<forall>d \<in> set ds. Second \<le> d \<and> d \<le> maxInterval) \<and> (\<exists>r. dial (length ds) r = Inr (ls_runID s))"
proof -
  let ?b = "NewFastBackoffManager\<lparr>fi_called := True\<rparr>"
  let ?s = "\<lparr>ls_runID = runID, ls_consecutiveFailures = 0, ls_cancelled = False\<rparr>"
  have "loopLoginUntilSuccess maxInterval False env dial n runID =
      backoffRounds (loginBackoff maxInterval) True env (loginFunc False dial) ls_cancelled n 0 0 False ?b ?s"
    by (simp add: loopLoginUntilSuccess_def BackoffUntil_def Backoff_def NewFastBackoffManager_def)
  moreover have "trying 0 ?s" by (simp add: trying_def)
  ultimately show ?thesis
    using rounds_recover [where env = env and dial = dial and N = N and b = ?b and delay = 0 and k = 0 and s = ?s and n = n and err = False, OF assms(1-3)] assms(4) by fastforce
qed

text \<open>A server that keeps the old session and never answers for it: three refusals, then a new login.\<close>

theorem login_recovers_witness:
  "\<exists>ds s. loopLoginUntilSuccess (10 * Second) False (\<lambda>k. (1 / 2, int k)) (\<lambda>k r. if r = '''' then Inr ''new'' else Inl ''i/o deadline reached'') 5 ''old'' = (True, ds, s) \<and>
     length ds = 3 \<and> ls_runID s = ''new'' \<and> list_all (\<lambda>d. d \<le> 10 * Second) ds"
proof -
  let ?dial = "\<lambda>k r. if r = '''' then Inr ''new'' else Inl ''i/o deadline reached'' :: (string, string) result"
  have "Second \<le> 10 * Second" by (simp add: Second_def)
  then obtain ds s where l: "loopLoginUntilSuccess (10 * Second) False (\<lambda>k. (1 / 2, int k)) ?dial 5 ''old'' = (True, ds, s)"
      "\<forall>d \<in> set ds. Second \<le> d \<and> d \<le> 10 * Second" "ls_runID s = ''new''"
    using login_recovers [of "\<lambda>k. (1 / 2, int k)" "10 * Second" 0 ?dial 5 "''old''"] by (auto simp: is_ok_iff split: if_splits)
  have "length (fst (snd (loopLoginUntilSuccess (10 * Second) False (\<lambda>k. (1 / 2, int k)) ?dial 5 ''old''))) = 3"
    by (simp add: loopLoginUntilSuccess_def BackoffUntil_def loginFunc_def eval_nat_numeral Let_def split: prod.split)
  with l show ?thesis by (auto simp: list_all_iff)
qed

end
