(* ===== verification/Metrics.thy ===== *)
theory Metrics
  imports Go_Std
begin

text \<open>
  The statistics of the server: counters (\<open>pkg/util/metric/counter.go\<close>), counters per day (\<open>pkg/util/metric/date_counter.go\<close>), and the
  collector the dashboard reads (\<open>pkg/metrics/mem\<close>). The clock of a call and the start of the day in the clock's time zone
  are arguments; the zero time is 0.
\<close>

section \<open>Counters\<close>

definition wrap32 :: "int \<Rightarrow> int" where
  "wrap32 i = (i + 2 ^ 31) mod 2 ^ 32 - 2 ^ 31"

definition counterInc :: "int \<Rightarrow> int \<Rightarrow> int" where "counterInc n c = wrap32 (c + n)"
definition counterDec :: "int \<Rightarrow> int \<Rightarrow> int" where "counterDec n c = wrap32 (c + wrap32 (- n))"

section \<open>Counters per day\<close>

definition Day :: duration where "Day = 24 * Hour"

record StandardDateCounter =
  dc_reserveDays :: nat
  dc_counts :: "int list"
  dc_lastUpdateDate :: go_time

definition newDateCounter :: "(go_time \<Rightarrow> go_time) \<Rightarrow> go_time \<Rightarrow> int \<Rightarrow> StandardDateCounter" where
  "newDateCounter startOfDay now reserveDays =
     (let r = nat (if reserveDays \<le> 0 then 1 else reserveDays) in
      \<lparr>dc_reserveDays = r, dc_counts = replicate r 0, dc_lastUpdateDate = startOfDay now\<rparr>)"

text \<open>\<open>int(x.Hours() / 24)\<close>\<close>

definition wholeDays :: "duration \<Rightarrow> int" where
  "wholeDays d = (if d \<ge> 0 then d div Day else - ((- d) div Day))"

definition rotateDays :: "(go_time \<Rightarrow> go_time) \<Rightarrow> go_time \<Rightarrow> StandardDateCounter \<Rightarrow> StandardDateCounter" where
  "rotateDays startOfDay t c =
     (let now = startOfDay t; days = wholeDays (now - dc_lastUpdateDate c); r = dc_reserveDays c in
      if days \<le> 0 then c
      else if days \<ge> int r then c\<lparr>dc_counts := replicate r 0, dc_lastUpdateDate := now\<rparr>
      else c\<lparr>dc_counts := replicate (nat days) 0 @ take (r - nat days) (dc_counts c), dc_lastUpdateDate := now\<rparr>)"

definition addToday :: "int \<Rightarrow> StandardDateCounter \<Rightarrow> StandardDateCounter" where
  "addToday n c = c\<lparr>dc_counts := (dc_counts c)[0 := wrap64 (dc_counts c ! 0 + n)]\<rparr>"

definition dateInc :: "(go_time \<Rightarrow> go_time) \<Rightarrow> go_time \<Rightarrow> int \<Rightarrow> StandardDateCounter \<Rightarrow> StandardDateCounter" where
  "dateInc startOfDay t n c = addToday n (rotateDays startOfDay t c)"

definition dateDec :: "(go_time \<Rightarrow> go_time) \<Rightarrow> go_time \<Rightarrow> int \<Rightarrow> StandardDateCounter \<Rightarrow> StandardDateCounter" where
  "dateDec startOfDay t n c = addToday (- n) (rotateDays startOfDay t c)"

definition TodayCount :: "(go_time \<Rightarrow> go_time) \<Rightarrow> go_time \<Rightarrow> StandardDateCounter \<Rightarrow> int \<times> StandardDateCounter" where
  "TodayCount startOfDay t c = (let c' = rotateDays startOfDay t c in (dc_counts c' ! 0, c'))"

definition GetLastDaysCount :: "(go_time \<Rightarrow> go_time) \<Rightarrow> go_time \<Rightarrow> nat \<Rightarrow> StandardDateCounter \<Rightarrow> int list \<times> StandardDateCounter" where
  "GetLastDaysCount startOfDay t lastdays c =
     (let n = min lastdays (dc_reserveDays c); c' = rotateDays startOfDay t c in (take n (dc_counts c'), c'))"

definition dateSnapshot :: "(go_time \<Rightarrow> go_time) \<Rightarrow> go_time \<Rightarrow> StandardDateCounter \<Rightarrow> StandardDateCounter" where
  "dateSnapshot startOfDay t c = (newDateCounter startOfDay t (int (dc_reserveDays c)))\<lparr>dc_counts := dc_counts c\<rparr>"

definition dateClear :: "StandardDateCounter \<Rightarrow> StandardDateCounter" where
  "dateClear c = c\<lparr>dc_counts := map (\<lambda>x. 0) (dc_counts c)\<rparr>"

section \<open>The window of days\<close>

text \<open>Days of 24 hours: the zone has a fixed offset.\<close>

definition fixed_zone :: "duration \<Rightarrow> (go_time \<Rightarrow> go_time) \<Rightarrow> bool" where
  "fixed_zone off startOfDay \<longleftrightarrow> (\<forall>t. startOfDay t = (t + off) div Day * Day - off)"

definition dayNumber :: "duration \<Rightarrow> go_time \<Rightarrow> int" where
  "dayNumber off t = (t + off) div Day"

text \<open>What was added on a day.\<close>

definition dayTotal :: "duration \<Rightarrow> (go_time \<times> int) list \<Rightarrow> int \<Rightarrow> int" where
  "dayTotal off hist d = sum_list (map snd (filter (\<lambda>x. dayNumber off (fst x) = d) hist))"

text \<open>A counter in use, with what was added since it was last cleared.\<close>

inductive counted :: "duration \<Rightarrow> (go_time \<Rightarrow> go_time) \<Rightarrow> (go_time \<times> int) list \<Rightarrow> go_time \<Rightarrow> StandardDateCounter \<Rightarrow> bool" for off startOfDay where
  made: "counted off startOfDay [] t (newDateCounter startOfDay t reserveDays)"
| added: "counted off startOfDay hist t c \<Longrightarrow> t \<le> t' \<Longrightarrow> counted off startOfDay ((t', n) # hist) t' (dateInc startOfDay t' n c)"
| subtracted: "counted off startOfDay hist t c \<Longrightarrow> t \<le> t' \<Longrightarrow> counted off startOfDay ((t', - n) # hist) t' (dateDec startOfDay t' n c)"
| looked: "counted off startOfDay hist t c \<Longrightarrow> t \<le> t' \<Longrightarrow> counted off startOfDay hist t' (rotateDays startOfDay t' c)"
| cleared: "counted off startOfDay hist t c \<Longrightarrow> counted off startOfDay [] t (dateClear c)"

definition window :: "duration \<Rightarrow> (go_time \<times> int) list \<Rightarrow> go_time \<Rightarrow> StandardDateCounter \<Rightarrow> bool" where
  "window off hist t c \<longleftrightarrow>
     dc_reserveDays c > 0 \<and>
     (\<exists>d. dc_lastUpdateDate c = d * Day - off \<and> d \<le> dayNumber off t \<and>
        dc_counts c = map (\<lambda>i. wrap64 (dayTotal off hist (d - int i))) [0..<dc_reserveDays c] \<and>
        (\<forall>x \<in> set hist. dayNumber off (fst x) \<le> d))"

lemma Day_pos: "0 < Day"
  by (simp add: Day_def Hour_def Second_def)

lemma dayNumber_mono: "t \<le> t' \<Longrightarrow> dayNumber off t \<le> dayNumber off t'"
  unfolding dayNumber_def by (rule zdiv_mono1) (use Day_pos in auto)

lemma dayTotal_later: "(\<forall>x \<in> set hist. dayNumber off (fst x) \<le> d) \<Longrightarrow> d < e \<Longrightarrow> dayTotal off hist e = 0"
proof -
  assume a: "\<forall>x \<in> set hist. dayNumber off (fst x) \<le> d" "d < e"
  then have "filter (\<lambda>x. dayNumber off (fst x) = e) hist = []" by (auto simp: filter_empty_conv)
  then show ?thesis by (simp add: dayTotal_def)
qed

lemma wrap64_0 [simp]: "wrap64 0 = 0"
  by (simp add: wrap64_def)

lemma wrap64_add: "wrap64 (wrap64 a + b) = wrap64 (a + b)" "wrap64 (b + wrap64 a) = wrap64 (b + a)"
  unfolding wrap64_def by (simp_all add: mod_simps algebra_simps)

text \<open>Rotating moves the window to the day of the clock.\<close>

lemma rotateDays_window:
  assumes z: "fixed_zone off startOfDay" and w: "window off hist t c" and le: "t \<le> t'"
  shows "dc_counts (rotateDays startOfDay t' c) = map (\<lambda>i. wrap64 (dayTotal off hist (dayNumber off t' - int i))) [0..<dc_reserveDays c]"
    "dc_reserveDays (rotateDays startOfDay t' c) = dc_reserveDays c" "window off hist t' (rotateDays startOfDay t' c)"
    "dc_lastUpdateDate (rotateDays startOfDay t' c) = dayNumber off t' * Day - off"
proof -
  let ?r = "dc_reserveDays c" and ?e = "dayNumber off t'"
  from w obtain d where d: "dc_lastUpdateDate c = d * Day - off" "d \<le> dayNumber off t"
      "dc_counts c = map (\<lambda>i. wrap64 (dayTotal off hist (d - int i))) [0..<?r]" "\<forall>x \<in> set hist. dayNumber off (fst x) \<le> d" "?r > 0"
    by (auto simp: window_def)
  have de: "d \<le> ?e" using d(2) dayNumber_mono [OF le, of off] by simp
  have now: "startOfDay t' = ?e * Day - off" using z by (simp add: fixed_zone_def dayNumber_def)
  have days: "wholeDays (startOfDay t' - dc_lastUpdateDate c) = ?e - d"
  proof -
    have "startOfDay t' - dc_lastUpdateDate c = (?e - d) * Day" by (simp add: now d(1) algebra_simps)
    then show ?thesis using de Day_pos by (simp add: wholeDays_def)
  qed
  have late: "dayTotal off hist (?e - int i) = 0" if "int i < ?e - d" for i
    by (rule dayTotal_later [OF d(4)]) (use that in simp)
  show counts: "dc_counts (rotateDays startOfDay t' c) = map (\<lambda>i. wrap64 (dayTotal off hist (?e - int i))) [0..<?r]"
  proof (rule nth_equalityI)
    show "length (dc_counts (rotateDays startOfDay t' c)) = length (map (\<lambda>i. wrap64 (dayTotal off hist (?e - int i))) [0..<?r])"
      using d(3) days by (auto simp: rotateDays_def Let_def)
    fix i assume "i < length (dc_counts (rotateDays startOfDay t' c))"
    then have i: "i < ?r" using d(3) days by (auto simp: rotateDays_def Let_def split: if_splits)
    then show "dc_counts (rotateDays startOfDay t' c) ! i = map (\<lambda>i. wrap64 (dayTotal off hist (?e - int i))) [0..<?r] ! i"
      using d(3) days de late [of i] by (auto simp: rotateDays_def Let_def nth_append)
  qed
  show r: "dc_reserveDays (rotateDays startOfDay t' c) = ?r" by (simp add: rotateDays_def Let_def)
  show last: "dc_lastUpdateDate (rotateDays startOfDay t' c) = ?e * Day - off"
    using days d(1) de now by (auto simp: rotateDays_def Let_def)
  show "window off hist t' (rotateDays startOfDay t' c)"
    unfolding window_def r using counts last d(4,5) de by (auto intro!: exI [of _ ?e])
qed


lemma reserve_fields [simp]:
  "dc_reserveDays (rotateDays z t c) = dc_reserveDays c" "dc_reserveDays (addToday n c) = dc_reserveDays c"
  "dc_reserveDays (dateInc z t n c) = dc_reserveDays c"
  by (simp_all add: rotateDays_def addToday_def dateInc_def Let_def)

lemma addToday_window:
  assumes z: "fixed_zone off startOfDay" and w: "window off hist t c" and le: "t \<le> t'"
  shows "window off ((t', n) # hist) t' (addToday n (rotateDays startOfDay t' c))"
proof -
  let ?r = "dc_reserveDays c" and ?e = "dayNumber off t'"
  note rot = rotateDays_window [OF z w le]
  have pos: "?r > 0" using w by (simp add: window_def)
  have "(map (\<lambda>i. wrap64 (dayTotal off hist (?e - int i))) [0..<?r])[0 := wrap64 (wrap64 (dayTotal off hist ?e) + n)] =
      map (\<lambda>i. wrap64 (dayTotal off ((t', n) # hist) (?e - int i))) [0..<?r]"
    using pos by (intro nth_equalityI) (auto simp: nth_list_update dayTotal_def wrap64_add add.commute)
  then have "dc_counts (addToday n (rotateDays startOfDay t' c)) = map (\<lambda>i. wrap64 (dayTotal off ((t', n) # hist) (?e - int i))) [0..<?r]"
    using pos by (simp add: addToday_def rot(1))
  moreover have "\<forall>x \<in> set hist. dayNumber off (fst x) \<le> ?e"
    using w dayNumber_mono [OF le, of off] by (fastforce simp: window_def)
  ultimately show ?thesis
    using pos rot(4) by (auto simp: window_def addToday_def)
qed

lemma counted_window:
  assumes "fixed_zone off startOfDay" "counted off startOfDay hist t c"
  shows "window off hist t c"
  using assms(2)
proof (induction rule: counted.induct)
  case (made t reserveDays)
  show ?case using assms(1)
    by (auto simp: window_def newDateCounter_def Let_def fixed_zone_def dayNumber_def dayTotal_def map_replicate_const intro!: exI [of _ "(t + off) div Day"])
next
  case (added hist t c t' n)
  then show ?case using addToday_window [OF assms(1)] by (simp add: dateInc_def)
next
  case (subtracted hist t c t' n)
  then show ?case using addToday_window [OF assms(1)] by (simp add: dateDec_def)
next
  case (looked hist t c t')
  then show ?case using rotateDays_window(3) [OF assms(1)] by blast
next
  case (cleared hist t c)
  then show ?case by (auto simp: window_def dateClear_def dayTotal_def comp_def)
qed

text \<open>C40: Counters per day. In a time zone without changes of the clock, after any increments, decrements, queries and clearings in the order
  of time, a query for the last days returns, today first and at most for the reserved days, the sum modulo 64 bits of what was
  added on exactly that day.\<close>

theorem date_counter_window:
  assumes "fixed_zone off startOfDay" "counted off startOfDay hist t c" "t \<le> now"
  shows "fst (GetLastDaysCount startOfDay now k c) =
    map (\<lambda>i. wrap64 (dayTotal off hist (dayNumber off now - int i))) [0..<min k (dc_reserveDays c)]"
  using rotateDays_window(1) [OF assms(1) counted_window [OF assms(1,2)] assms(3)]
  by (simp add: GetLastDaysCount_def Let_def take_map min.commute)

text \<open>5 on the first day, 7 on the second and 1 on the fourth: the query on the fourth day.\<close>

theorem date_counter_window_witness:
  "fst (GetLastDaysCount (\<lambda>t. t div Day * Day) (3 * Day + 2) 4
     (dateInc (\<lambda>t. t div Day * Day) (3 * Day + 1) 1 (dateInc (\<lambda>t. t div Day * Day) (Day + 9) 7
       (dateInc (\<lambda>t. t div Day * Day) 3 5 (newDateCounter (\<lambda>t. t div Day * Day) 0 7))))) = [1, 0, 7, 5]"
proof -
  let ?z = "\<lambda>t. t div Day * Day"
  have z: "fixed_zone 0 ?z" by (simp add: fixed_zone_def)
  have o: "3 \<le> Day + 9" "Day + 9 \<le> 3 * Day + 1" by (simp_all add: Day_def Hour_def Second_def)
  have r0: "counted 0 ?z [] 0 (newDateCounter ?z 0 7)" by (rule counted.made)
  have r1: "counted 0 ?z [(3, 5)] 3 (dateInc ?z 3 5 (newDateCounter ?z 0 7))" by (rule counted.added [OF r0]) simp
  have r2: "counted 0 ?z [(Day + 9, 7), (3, 5)] (Day + 9) (dateInc ?z (Day + 9) 7 (dateInc ?z 3 5 (newDateCounter ?z 0 7)))"
    by (rule counted.added [OF r1 o(1)])
  note r = counted.added [OF r2 o(2), of 1]
  have d: "dayNumber 0 (3 * Day + 2) = 3" "dayNumber 0 (3 * Day + 1) = 3" "dayNumber 0 (Day + 9) = 1" "dayNumber 0 3 = 0"
    by (simp_all add: dayNumber_def Day_def Hour_def Second_def)
  have res: "dc_reserveDays (dateInc ?z (3 * Day + 1) 1 (dateInc ?z (Day + 9) 7 (dateInc ?z 3 5 (newDateCounter ?z 0 7)))) = 7"
    by (simp add: newDateCounter_def)
  have le: "3 * Day + 1 \<le> 3 * Day + 2" by simp
  show ?thesis unfolding date_counter_window [OF z r le, of 4] res d
    by (simp add: dayTotal_def d upt_conv_Cons wrap64_def)
qed

text \<open>Where a day has 23 hours it is not noticed that it ended: what was added on it counts as today's on the day after.\<close>

lemma dst_day_merged:
  fixes startOfDay :: "go_time \<Rightarrow> go_time"
  assumes "startOfDay (30 * Hour) = 24 * Hour" "startOfDay (50 * Hour) = 47 * Hour"
  shows "fst (TodayCount startOfDay (50 * Hour) (dateInc startOfDay (30 * Hour) 5 (newDateCounter startOfDay (30 * Hour) 7))) = 5"
  using assms
  by (simp add: TodayCount_def dateInc_def addToday_def rotateDays_def newDateCounter_def wholeDays_def Let_def Day_def Hour_def Second_def wrap64_def)

text \<open>A copy is dated today, but its counts are as of the last rotation.\<close>

lemma snapshot_misdates:
  fixes startOfDay :: "go_time \<Rightarrow> go_time"
  assumes "startOfDay 3 = 0" "startOfDay (Day + 1) = Day"
  shows "fst (TodayCount startOfDay (Day + 1) (dateInc startOfDay 3 5 (newDateCounter startOfDay 3 2))) = 0"
    "fst (TodayCount startOfDay (Day + 1) (dateSnapshot startOfDay (Day + 1) (dateInc startOfDay 3 5 (newDateCounter startOfDay 3 2)))) = 5"
proof -
  have w: "wholeDays Day = 1" "wholeDays 0 = 0" by (simp_all add: wholeDays_def Day_def Hour_def Second_def)
  show "fst (TodayCount startOfDay (Day + 1) (dateInc startOfDay 3 5 (newDateCounter startOfDay 3 2))) = 0"
    using assms by (simp add: TodayCount_def dateInc_def addToday_def rotateDays_def newDateCounter_def w Let_def)
  show "fst (TodayCount startOfDay (Day + 1) (dateSnapshot startOfDay (Day + 1) (dateInc startOfDay 3 5 (newDateCounter startOfDay 3 2)))) = 5"
    using assms
    by (simp add: TodayCount_def dateSnapshot_def dateInc_def addToday_def rotateDays_def newDateCounter_def w Let_def wrap64_def numeral_2_eq_2)
qed


section \<open>The collector\<close>

definition ReserveDays :: int where "ReserveDays = 7"

record ProxyStatistics =
  ps_Name :: string
  ps_ProxyType :: string
  ps_User :: string
  ps_ClientID :: string
  ps_TrafficIn :: StandardDateCounter
  ps_TrafficOut :: StandardDateCounter
  ps_CurConns :: int
  ps_LastStartTime :: go_time
  ps_LastCloseTime :: go_time

record ServerStatistics =
  sm_TotalTrafficIn :: StandardDateCounter
  sm_TotalTrafficOut :: StandardDateCounter
  sm_CurConns :: int
  sm_ClientCounts :: int
  sm_ProxyTypeCounts :: "string \<rightharpoonup> int"
  sm_ProxyStatistics :: "string \<rightharpoonup> ProxyStatistics"

definition newServerMetrics :: "(go_time \<Rightarrow> go_time) \<Rightarrow> go_time \<Rightarrow> ServerStatistics" where
  "newServerMetrics z now =
     \<lparr>sm_TotalTrafficIn = newDateCounter z now ReserveDays, sm_TotalTrafficOut = newDateCounter z now ReserveDays, sm_CurConns = 0,
      sm_ClientCounts = 0, sm_ProxyTypeCounts = Map.empty, sm_ProxyStatistics = Map.empty\<rparr>"

definition shouldClearProxyStats :: "go_time \<Rightarrow> duration \<Rightarrow> ProxyStatistics \<Rightarrow> bool" where
  "shouldClearProxyStats now offline ps \<longleftrightarrow>
     ps_LastCloseTime ps \<noteq> 0 \<and> ps_LastStartTime ps < ps_LastCloseTime ps \<and> now - ps_LastCloseTime ps > offline"

text \<open>The numbers of the entries removed and of all entries are returned; \<open>order\<close> is the order of the walk.\<close>

definition clearUselessInfo :: "string list \<Rightarrow> go_time \<Rightarrow> duration \<Rightarrow> ServerStatistics \<Rightarrow> (nat \<times> nat) \<times> ServerStatistics" where
  "clearUselessInfo order now offline s =
     (let gone = filter (\<lambda>n. case sm_ProxyStatistics s n of Some ps \<Rightarrow> shouldClearProxyStats now offline ps | None \<Rightarrow> False) order in
      ((length gone, length order), s\<lparr>sm_ProxyStatistics := fold (\<lambda>n m. m(n := None)) gone (sm_ProxyStatistics s)\<rparr>))"

definition ClearOfflineProxies :: "string list \<Rightarrow> go_time \<Rightarrow> ServerStatistics \<Rightarrow> (nat \<times> nat) \<times> ServerStatistics" where
  "ClearOfflineProxies order now s = clearUselessInfo order now 0 s"

definition PruneOfflineProxies :: "string list \<Rightarrow> go_time \<Rightarrow> ServerStatistics \<Rightarrow> (nat \<times> nat) \<times> ServerStatistics" where
  "PruneOfflineProxies order now s = clearUselessInfo order now 0 s"

definition metricsNewClient :: "ServerStatistics \<Rightarrow> ServerStatistics" where
  "metricsNewClient s = s\<lparr>sm_ClientCounts := counterInc 1 (sm_ClientCounts s)\<rparr>"

definition metricsCloseClient :: "ServerStatistics \<Rightarrow> ServerStatistics" where
  "metricsCloseClient s = s\<lparr>sm_ClientCounts := counterDec 1 (sm_ClientCounts s)\<rparr>"

definition freshStats :: "(go_time \<Rightarrow> go_time) \<Rightarrow> go_time \<Rightarrow> string \<Rightarrow> string \<Rightarrow> ProxyStatistics" where
  "freshStats z now name proxyType =
     \<lparr>ps_Name = name, ps_ProxyType = proxyType, ps_User = '''', ps_ClientID = '''', ps_TrafficIn = newDateCounter z now ReserveDays,
      ps_TrafficOut = newDateCounter z now ReserveDays, ps_CurConns = 0, ps_LastStartTime = 0, ps_LastCloseTime = 0\<rparr>"

definition metricsNewProxy ::
    "(go_time \<Rightarrow> go_time) \<Rightarrow> go_time \<Rightarrow> string \<Rightarrow> string \<Rightarrow> string \<Rightarrow> string \<Rightarrow> ServerStatistics \<Rightarrow> ServerStatistics" where
  "metricsNewProxy z now name proxyType user clientID s =
     (let counter = (case sm_ProxyTypeCounts s proxyType of Some c \<Rightarrow> c | None \<Rightarrow> 0);
          ps = (case sm_ProxyStatistics s name of
                  Some p \<Rightarrow> if ps_ProxyType p \<noteq> proxyType then freshStats z now name proxyType else p
                | None \<Rightarrow> freshStats z now name proxyType)
      in s\<lparr>sm_ProxyTypeCounts := (sm_ProxyTypeCounts s)(proxyType \<mapsto> counterInc 1 counter),
           sm_ProxyStatistics := (sm_ProxyStatistics s)(name \<mapsto> ps\<lparr>ps_User := user, ps_ClientID := clientID, ps_LastStartTime := now\<rparr>)\<rparr>)"

definition metricsCloseProxy :: "go_time \<Rightarrow> string \<Rightarrow> string \<Rightarrow> ServerStatistics \<Rightarrow> ServerStatistics" where
  "metricsCloseProxy now name proxyType s =
     (let s1 = (case sm_ProxyTypeCounts s proxyType of
                  Some c \<Rightarrow> s\<lparr>sm_ProxyTypeCounts := (sm_ProxyTypeCounts s)(proxyType \<mapsto> counterDec 1 c)\<rparr> | None \<Rightarrow> s) in
      case sm_ProxyStatistics s1 name of None \<Rightarrow> s1
      | Some ps \<Rightarrow>
          let ps1 = ps\<lparr>ps_LastCloseTime := now\<rparr>; cur = ps_CurConns ps in
          if cur > 0
          then s1\<lparr>sm_ProxyStatistics := (sm_ProxyStatistics s1)(name \<mapsto> ps1\<lparr>ps_CurConns := 0\<rparr>), sm_CurConns := counterDec cur (sm_CurConns s1)\<rparr>
          else s1\<lparr>sm_ProxyStatistics := (sm_ProxyStatistics s1)(name \<mapsto> ps1)\<rparr>)"

definition updStats :: "string \<Rightarrow> (ProxyStatistics \<Rightarrow> ProxyStatistics) \<Rightarrow> ServerStatistics \<Rightarrow> ServerStatistics" where
  "updStats name f s =
     (case sm_ProxyStatistics s name of None \<Rightarrow> s | Some ps \<Rightarrow> s\<lparr>sm_ProxyStatistics := (sm_ProxyStatistics s)(name \<mapsto> f ps)\<rparr>)"

definition OpenConnection :: "string \<Rightarrow> ServerStatistics \<Rightarrow> ServerStatistics" where
  "OpenConnection name s =
     updStats name (\<lambda>ps. ps\<lparr>ps_CurConns := counterInc 1 (ps_CurConns ps)\<rparr>) (s\<lparr>sm_CurConns := counterInc 1 (sm_CurConns s)\<rparr>)"

definition CloseConnection :: "string \<Rightarrow> ServerStatistics \<Rightarrow> ServerStatistics" where
  "CloseConnection name s =
     updStats name (\<lambda>ps. if ps_CurConns ps > 0 then ps\<lparr>ps_CurConns := counterDec 1 (ps_CurConns ps)\<rparr> else ps)
       (if sm_CurConns s > 0 then s\<lparr>sm_CurConns := counterDec 1 (sm_CurConns s)\<rparr> else s)"

definition AddTrafficIn :: "(go_time \<Rightarrow> go_time) \<Rightarrow> go_time \<Rightarrow> string \<Rightarrow> int \<Rightarrow> ServerStatistics \<Rightarrow> ServerStatistics" where
  "AddTrafficIn z now name n s =
     updStats name (\<lambda>ps. ps\<lparr>ps_TrafficIn := dateInc z now n (ps_TrafficIn ps)\<rparr>) (s\<lparr>sm_TotalTrafficIn := dateInc z now n (sm_TotalTrafficIn s)\<rparr>)"

definition AddTrafficOut :: "(go_time \<Rightarrow> go_time) \<Rightarrow> go_time \<Rightarrow> string \<Rightarrow> int \<Rightarrow> ServerStatistics \<Rightarrow> ServerStatistics" where
  "AddTrafficOut z now name n s =
     updStats name (\<lambda>ps. ps\<lparr>ps_TrafficOut := dateInc z now n (ps_TrafficOut ps)\<rparr>) (s\<lparr>sm_TotalTrafficOut := dateInc z now n (sm_TotalTrafficOut s)\<rparr>)"

record ServerStats =
  sv_TotalTrafficIn :: int
  sv_TotalTrafficOut :: int
  sv_CurConns :: int
  sv_ClientCounts :: int
  sv_ProxyTypeCounts :: "string \<rightharpoonup> int"

definition GetServer :: "(go_time \<Rightarrow> go_time) \<Rightarrow> go_time \<Rightarrow> ServerStatistics \<Rightarrow> ServerStats \<times> ServerStatistics" where
  "GetServer z now s =
     (case (TodayCount z now (sm_TotalTrafficIn s), TodayCount z now (sm_TotalTrafficOut s)) of ((i, ci), (out, co)) \<Rightarrow>
        (\<lparr>sv_TotalTrafficIn = i, sv_TotalTrafficOut = out, sv_CurConns = sm_CurConns s, sv_ClientCounts = sm_ClientCounts s,
          sv_ProxyTypeCounts = sm_ProxyTypeCounts s\<rparr>, s\<lparr>sm_TotalTrafficIn := ci, sm_TotalTrafficOut := co\<rparr>))"

record ProxyStats =
  px_Name :: string
  px_Type :: string
  px_User :: string
  px_ClientID :: string
  px_TodayTrafficIn :: int
  px_TodayTrafficOut :: int
  px_LastStartTime :: string
  px_LastCloseTime :: string
  px_LastStartAt :: int
  px_LastCloseAt :: int
  px_CurConns :: int

text \<open>\<open>fmt\<close> and \<open>unix\<close> are the formatting of times and the seconds since the Unix epoch.\<close>

definition toProxyStats ::
    "(go_time \<Rightarrow> go_time) \<Rightarrow> (go_time \<Rightarrow> string) \<Rightarrow> (go_time \<Rightarrow> int) \<Rightarrow> go_time \<Rightarrow> string \<Rightarrow> ProxyStatistics \<Rightarrow> ProxyStats \<times> ProxyStatistics" where
  "toProxyStats z fmt unix now name p =
     (case (TodayCount z now (ps_TrafficIn p), TodayCount z now (ps_TrafficOut p)) of ((i, ci), (out, co)) \<Rightarrow>
        (\<lparr>px_Name = name, px_Type = ps_ProxyType p, px_User = ps_User p, px_ClientID = ps_ClientID p, px_TodayTrafficIn = i, px_TodayTrafficOut = out,
          px_LastStartTime = (if ps_LastStartTime p \<noteq> 0 then fmt (ps_LastStartTime p) else ''''),
          px_LastCloseTime = (if ps_LastCloseTime p \<noteq> 0 then fmt (ps_LastCloseTime p) else ''''),
          px_LastStartAt = (if ps_LastStartTime p \<noteq> 0 then unix (ps_LastStartTime p) else 0),
          px_LastCloseAt = (if ps_LastCloseTime p \<noteq> 0 then unix (ps_LastCloseTime p) else 0),
          px_CurConns = ps_CurConns p\<rparr>, p\<lparr>ps_TrafficIn := ci, ps_TrafficOut := co\<rparr>))"

definition GetProxiesByType ::
    "(go_time \<Rightarrow> go_time) \<Rightarrow> (go_time \<Rightarrow> string) \<Rightarrow> (go_time \<Rightarrow> int) \<Rightarrow> go_time \<Rightarrow> string list \<Rightarrow> string \<Rightarrow> ServerStatistics \<Rightarrow> ProxyStats list" where
  "GetProxiesByType z fmt unix now order proxyType s =
     concat (map (\<lambda>name. case sm_ProxyStatistics s name of
         Some p \<Rightarrow> if ps_ProxyType p \<noteq> proxyType then [] else [fst (toProxyStats z fmt unix now name p)] | None \<Rightarrow> []) order)"

definition GetProxiesByTypeAndName ::
    "(go_time \<Rightarrow> go_time) \<Rightarrow> (go_time \<Rightarrow> string) \<Rightarrow> (go_time \<Rightarrow> int) \<Rightarrow> go_time \<Rightarrow> string \<Rightarrow> string \<Rightarrow> ServerStatistics \<Rightarrow> ProxyStats option" where
  "GetProxiesByTypeAndName z fmt unix now proxyType name s =
     (case sm_ProxyStatistics s name of
        Some p \<Rightarrow> if ps_ProxyType p = proxyType then Some (fst (toProxyStats z fmt unix now name p)) else None | None \<Rightarrow> None)"

definition GetProxyByName ::
    "(go_time \<Rightarrow> go_time) \<Rightarrow> (go_time \<Rightarrow> string) \<Rightarrow> (go_time \<Rightarrow> int) \<Rightarrow> go_time \<Rightarrow> string \<Rightarrow> ServerStatistics \<Rightarrow> ProxyStats option" where
  "GetProxyByName z fmt unix now name s = map_option (\<lambda>p. fst (toProxyStats z fmt unix now name p)) (sm_ProxyStatistics s name)"

definition GetProxyTraffic :: "(go_time \<Rightarrow> go_time) \<Rightarrow> go_time \<Rightarrow> string \<Rightarrow> ServerStatistics \<Rightarrow> (int list \<times> int list) option" where
  "GetProxyTraffic z now name s =
     map_option (\<lambda>p. (fst (GetLastDaysCount z now (nat ReserveDays) (ps_TrafficIn p)), fst (GetLastDaysCount z now (nat ReserveDays) (ps_TrafficOut p))))
       (sm_ProxyStatistics s name)"


section \<open>Statistics of running proxies\<close>

text \<open>A collector in use, with the proxies that are online and the number of connections opened so far. Queries rotateDays the counters they
  read, which every later use does as well, and change nothing else.\<close>

inductive metrics_run :: "(go_time \<Rightarrow> go_time) \<Rightarrow> string set \<Rightarrow> nat \<Rightarrow> go_time \<Rightarrow> ServerStatistics \<Rightarrow> bool" for z where
  init: "0 \<le> now \<Longrightarrow> metrics_run z {} 0 now (newServerMetrics z now)"
| client: "metrics_run z online opens now s \<Longrightarrow> s' = metricsNewClient s \<or> s' = metricsCloseClient s \<Longrightarrow> metrics_run z online opens now s'"
| newproxy: "metrics_run z online opens now s \<Longrightarrow> now \<le> t \<Longrightarrow>
    metrics_run z (insert n online) opens t (metricsNewProxy z t n proxyType user clientID s)"
| closeproxy: "metrics_run z online opens now s \<Longrightarrow> now \<le> t \<Longrightarrow> metrics_run z (online - {n}) opens t (metricsCloseProxy t n proxyType s)"
| opened: "metrics_run z online opens now s \<Longrightarrow> metrics_run z online (Suc opens) now (OpenConnection n s)"
| closed: "metrics_run z online opens now s \<Longrightarrow> metrics_run z online opens now (CloseConnection n s)"
| traffic: "metrics_run z online opens now s \<Longrightarrow> now \<le> t \<Longrightarrow> s' = AddTrafficIn z t n k s \<or> s' = AddTrafficOut z t n k s \<Longrightarrow>
    metrics_run z online opens t s'"
| prune: "metrics_run z online opens now s \<Longrightarrow> now \<le> t \<Longrightarrow> metrics_run z online opens t (snd (clearUselessInfo order t offline s))"

definition stats_ok :: "nat \<Rightarrow> go_time \<Rightarrow> ProxyStatistics \<Rightarrow> bool" where
  "stats_ok opens now p \<longleftrightarrow> 0 \<le> ps_CurConns p \<and> ps_CurConns p \<le> int opens \<and> ps_LastCloseTime p \<le> now"

definition stats_online :: "string set \<Rightarrow> (string \<rightharpoonup> ProxyStatistics) \<Rightarrow> bool" where
  "stats_online online m \<longleftrightarrow> (\<forall>n \<in> online. \<exists>p. m n = Some p \<and> (ps_LastCloseTime p = 0 \<or> ps_LastCloseTime p \<le> ps_LastStartTime p))"

definition metrics_inv :: "string set \<Rightarrow> nat \<Rightarrow> go_time \<Rightarrow> ServerStatistics \<Rightarrow> bool" where
  "metrics_inv online opens now s \<longleftrightarrow>
     0 \<le> now \<and> stats_online online (sm_ProxyStatistics s) \<and> (\<forall>n p. sm_ProxyStatistics s n = Some p \<longrightarrow> stats_ok opens now p)"

lemma wrap32_id: "- (2 ^ 31) \<le> i \<Longrightarrow> i < 2 ^ 31 \<Longrightarrow> wrap32 i = i"
  by (simp add: wrap32_def)

lemma counter_step:
  "0 \<le> c \<Longrightarrow> c + 1 < 2 ^ 31 \<Longrightarrow> counterInc 1 c = c + 1"
  "0 < c \<Longrightarrow> c < 2 ^ 31 \<Longrightarrow> counterDec 1 c = c - 1"
  by (simp_all add: counterInc_def counterDec_def wrap32_id)

lemma stats_later: "stats_ok opens now p \<Longrightarrow> now \<le> t \<Longrightarrow> stats_ok opens t p"
  by (auto simp: stats_ok_def)

lemma clear_stats:
  "sm_ProxyStatistics (snd (clearUselessInfo order t offline s)) n =
     (case sm_ProxyStatistics s n of
        Some p \<Rightarrow> if n \<in> set order \<and> shouldClearProxyStats t offline p then None else Some p | None \<Rightarrow> None)"
proof -
  have f: "fold (\<lambda>n m. m(n := None)) ns m n = (if n \<in> set ns then None else m n)" for ns and m :: "string \<rightharpoonup> ProxyStatistics"
    by (induction ns arbitrary: m) auto
  show ?thesis by (auto simp: clearUselessInfo_def Let_def f split: option.splits)
qed

lemma updStats_stats: "sm_ProxyStatistics (updStats name f s) n = (if n = name then map_option f (sm_ProxyStatistics s n) else sm_ProxyStatistics s n)"
  by (simp add: updStats_def split: option.split)

lemma updStats_inv:
  assumes "metrics_inv online opens now s" "now \<le> t"
    "\<And>p. stats_ok opens now p \<Longrightarrow> stats_ok opens' t (f p) \<and> ps_LastCloseTime (f p) = ps_LastCloseTime p \<and> ps_LastStartTime (f p) = ps_LastStartTime p"
    "opens \<le> opens'" "sm_ProxyStatistics s' = sm_ProxyStatistics s"
  shows "metrics_inv online opens' t (updStats name f s')"
proof -
  have grow: "stats_ok opens' t p" if "stats_ok opens now p" for p using that assms(2,4) by (auto simp: stats_ok_def)
  show ?thesis using assms(1,2,3,5) grow
    unfolding metrics_inv_def stats_online_def updStats_stats
    by (auto split: if_splits)
qed

lemma newproxy_inv:
  assumes "metrics_inv online opens now s" "now \<le> t"
  shows "metrics_inv (insert n online) opens t (metricsNewProxy z t n proxyType user clientID s)"
proof -
  let ?p = "case sm_ProxyStatistics s n of
      Some p \<Rightarrow> if ps_ProxyType p \<noteq> proxyType then freshStats z t n proxyType else p | None \<Rightarrow> freshStats z t n proxyType"
  have "stats_ok opens t (freshStats z t n proxyType)" using assms by (simp add: metrics_inv_def stats_ok_def freshStats_def)
  moreover have "stats_ok opens t q" if "sm_ProxyStatistics s n = Some q" for q
    using that assms(1) stats_later [OF _ assms(2)] by (auto simp: metrics_inv_def)
  ultimately have p: "stats_ok opens t ?p" by (simp split: option.split)
  have m: "sm_ProxyStatistics (metricsNewProxy z t n proxyType user clientID s) =
      (sm_ProxyStatistics s)(n \<mapsto> ?p\<lparr>ps_User := user, ps_ClientID := clientID, ps_LastStartTime := t\<rparr>)"
    by (simp add: metricsNewProxy_def Let_def)
  have "stats_ok opens t (?p\<lparr>ps_User := user, ps_ClientID := clientID, ps_LastStartTime := t\<rparr>)" using p by (simp add: stats_ok_def)
  moreover have "ps_LastCloseTime ?p \<le> t" using p by (simp add: stats_ok_def)
  moreover have "stats_ok opens t q" if "sm_ProxyStatistics s k = Some q" for k q
    using that assms(1) stats_later [OF _ assms(2)] by (auto simp: metrics_inv_def)
  ultimately show ?thesis
    using assms unfolding metrics_inv_def stats_online_def m by auto
qed


lemma closeproxy_inv:
  assumes "metrics_inv online opens now s" "now \<le> t"
  shows "metrics_inv (online - {n}) opens t (metricsCloseProxy t n proxyType s)"
proof -
  have m: "sm_ProxyStatistics (metricsCloseProxy t n proxyType s) =
      (case sm_ProxyStatistics s n of None \<Rightarrow> sm_ProxyStatistics s
       | Some p \<Rightarrow> (sm_ProxyStatistics s)(n \<mapsto> p\<lparr>ps_LastCloseTime := t, ps_CurConns := (if ps_CurConns p > 0 then 0 else ps_CurConns p)\<rparr>))"
    by (auto simp: metricsCloseProxy_def Let_def split: option.split)
  have "stats_ok opens t q" if "sm_ProxyStatistics s k = Some q" for k q
    using that assms(1) stats_later [OF _ assms(2)] by (auto simp: metrics_inv_def)
  moreover have "stats_ok opens t (q\<lparr>ps_LastCloseTime := t, ps_CurConns := 0\<rparr>)" "stats_ok opens t (q\<lparr>ps_LastCloseTime := t\<rparr>)"
    if "stats_ok opens t q" for q
    using that by (simp_all add: stats_ok_def)
  ultimately show ?thesis
    using assms unfolding metrics_inv_def stats_online_def m by (auto split: option.splits)
qed

lemma metrics_run_inv: "metrics_run z online opens now s \<Longrightarrow> opens < 2 ^ 31 \<Longrightarrow> metrics_inv online opens now s"
proof (induction rule: metrics_run.induct)
  case (init now)
  then show ?case by (simp add: metrics_inv_def stats_online_def newServerMetrics_def)
next
  case (client online opens now s s')
  then show ?case by (auto simp: metrics_inv_def metricsNewClient_def metricsCloseClient_def)
next
  case (newproxy online opens now s t n proxyType user clientID)
  then show ?case by (intro newproxy_inv) auto
next
  case (closeproxy online opens now s t n proxyType)
  then show ?case by (intro closeproxy_inv) auto
next
  case (opened online opens now s n)
  have "stats_ok (Suc opens) now (p\<lparr>ps_CurConns := counterInc 1 (ps_CurConns p)\<rparr>)" if "stats_ok opens now p" for p
    using that opened.prems by (auto simp: stats_ok_def counter_step)
  then show ?case using opened unfolding OpenConnection_def by (intro updStats_inv [where s = s and opens = opens and now = now]) auto
next
  case (closed online opens now s n)
  have "stats_ok opens now (p\<lparr>ps_CurConns := counterDec 1 (ps_CurConns p)\<rparr>)" if "stats_ok opens now p" "ps_CurConns p > 0" for p
    using that closed.prems by (auto simp: stats_ok_def counter_step)
  then show ?case using closed unfolding CloseConnection_def by (intro updStats_inv [where s = s and opens = opens and now = now]) auto
next
  case (traffic online opens now s t s' n k)
  have i: "metrics_inv online opens t (updStats n f u)"
    if "sm_ProxyStatistics u = sm_ProxyStatistics s"
      "\<And>p. ps_CurConns (f p) = ps_CurConns p \<and> ps_LastCloseTime (f p) = ps_LastCloseTime p \<and> ps_LastStartTime (f p) = ps_LastStartTime p" for f u
    using traffic that by (intro updStats_inv [where opens = opens and now = now and s = s]) (auto simp: stats_ok_def)
  show ?case using traffic.hyps(3) by (auto simp: AddTrafficIn_def AddTrafficOut_def intro!: i)
next
  case (prune online opens now s t order offline)
  then have i: "metrics_inv online opens now s" by simp
  have "\<not> shouldClearProxyStats t offline p" if "n \<in> online" "sm_ProxyStatistics s n = Some p" for n p
    using that i by (force simp: metrics_inv_def stats_online_def shouldClearProxyStats_def)
  then show ?case using i prune.hyps(2) stats_later
    unfolding metrics_inv_def stats_online_def clear_stats by (auto split: option.splits if_splits) (metis option.inject)+
qed

text \<open>C16: The statistics of a running proxy are kept. Whatever is started, closed, opened and pruned, in any order, a pruning at any later time keeps
  the statistics of every proxy that is online, and removes only those of proxies that have been closed for longer than asked; and
  no proxy ever shows a negative number of connections.\<close>

theorem online_never_pruned:
  assumes "metrics_run z online opens now s" "opens < 2 ^ 31" "now \<le> t"
  shows "(\<forall>n \<in> online. sm_ProxyStatistics (snd (clearUselessInfo order t offline s)) n = sm_ProxyStatistics s n \<and> sm_ProxyStatistics s n \<noteq> None) \<and>
    (\<forall>n p. sm_ProxyStatistics s n = Some p \<longrightarrow> 0 \<le> ps_CurConns p \<and>
       (sm_ProxyStatistics (snd (clearUselessInfo order t offline s)) n = None \<longrightarrow> n \<notin> online \<and> offline < t - ps_LastCloseTime p))"
proof -
  have i: "metrics_inv online opens now s" using assms(1,2) by (rule metrics_run_inv)
  have keep: "\<not> shouldClearProxyStats t offline p" if "n \<in> online" "sm_ProxyStatistics s n = Some p" for n p
    using that i by (force simp: metrics_inv_def stats_online_def shouldClearProxyStats_def)
  have known: "n \<in> online \<Longrightarrow> \<exists>p. sm_ProxyStatistics s n = Some p" for n
    using i by (auto simp: metrics_inv_def stats_online_def)
  show ?thesis
    unfolding clear_stats using i keep known
    by (auto simp: metrics_inv_def stats_ok_def shouldClearProxyStats_def split: option.splits if_splits)
qed

text \<open>The number of all connections can become negative, although no counter is decremented at zero: a connection that outlives its proxy is
  subtracted twice, at the expense of those of other proxies.\<close>

definition exMetrics :: "ServerStatistics" where
  "exMetrics = OpenConnection ''b'' (OpenConnection ''a'' (metricsNewProxy id 1 ''b'' ''tcp'' ''u'' ''c''
     (metricsNewProxy id 1 ''a'' ''tcp'' ''u'' ''c'' (newServerMetrics id 1))))"

lemma total_connections_negative:
  "sm_CurConns (metricsCloseProxy 3 ''b'' ''tcp'' (CloseConnection ''a'' (metricsCloseProxy 2 ''a'' ''tcp'' exMetrics))) = - 1"
  by (simp add: exMetrics_def OpenConnection_def CloseConnection_def metricsCloseProxy_def metricsNewProxy_def newServerMetrics_def updStats_def
    freshStats_def counterInc_def counterDec_def wrap32_def Let_def)

theorem online_never_pruned_witness:
  "metrics_run id {''b''} 2 9 (metricsCloseProxy 9 ''a'' ''tcp'' exMetrics) \<and>
   sm_ProxyStatistics (snd (clearUselessInfo [''a'', ''b''] 100 50 (metricsCloseProxy 9 ''a'' ''tcp'' exMetrics))) ''b'' =
     sm_ProxyStatistics (metricsCloseProxy 9 ''a'' ''tcp'' exMetrics) ''b'' \<and>
   sm_ProxyStatistics (snd (clearUselessInfo [''a'', ''b''] 100 50 (metricsCloseProxy 9 ''a'' ''tcp'' exMetrics))) ''a'' = None"
proof -
  let ?s = "metricsCloseProxy 9 ''a'' ''tcp'' exMetrics"
  have r0: "metrics_run id {} 0 1 (newServerMetrics id 1)" by (rule metrics_run.init) simp
  note r2 = metrics_run.opened [OF metrics_run.opened [OF metrics_run.newproxy [OF metrics_run.newproxy [OF r0 order.refl] order.refl]]]
  have "metrics_run id {''b'', ''a''} 2 1 exMetrics" unfolding exMetrics_def numeral_2_eq_2 by (rule r2)
  then have r: "metrics_run id ({''b'', ''a''} - {''a''}) 2 9 ?s" by (rule metrics_run.closeproxy) simp
  have e: "{''b'', ''a''} - {''a''} = {''b''}" by auto
  have "sm_ProxyStatistics (snd (clearUselessInfo [''a'', ''b''] 100 50 ?s)) ''a'' = None"
    unfolding clear_stats
    by (simp add: exMetrics_def OpenConnection_def metricsCloseProxy_def metricsNewProxy_def newServerMetrics_def updStats_def
      freshStats_def counterInc_def wrap32_def Let_def shouldClearProxyStats_def)
  then show ?thesis using online_never_pruned [OF r, of 100 "[''a'', ''b'']" 50] r by (simp add: e)
qed

end
