(* ===== verification/Spec2Isabelle.thy ===== *)
theory Spec2Isabelle
  imports Session Control_Proxies Tcp_Group Mux_Group Http_Group Nathole_Controller Handshake Firewall Client_Proxies
    Config_Validation Admission Server_Proxies Client_Service Login_Loop Metrics
begin

text \<open>
  A verification of frp: a server (\<open>frps\<close>) that gives services behind a firewall public ports and host names, and the client
  (\<open>frpc\<close>) that runs beside them and connects out to it. Paths are relative to \<open>src/\<close>.

  \<^bold>\<open>The program and its model.\<close> A client logs in over a control connection, announces its proxies, and serves each user of a proxy
  over a work connection. Visitors of secret proxies reach them through the server or by a punched hole. Each theory models one part:

  \<^item> Foundations. \<open>Frp_Prelude\<close> has Go's values (strings, times in nanoseconds, results as sums) and shared lemmas; \<open>Go_Std\<close> and
    \<open>Netip\<close> the functions of Go's library that the code calls.
  \<^item> Resources of the server. \<open>Ports\<close> (\<open>server/ports\<close>) allocates public ports, \<open>Routers\<close> (\<open>pkg/util/vhost/router.go\<close>) resolves host,
    path and user. \<open>Listener_Group\<close>, \<open>Tcp_Group\<close>, \<open>Mux_Group\<close>, \<open>Http_Group\<close> (\<open>server/group\<close>, \<open>pkg/util/vhost/vhost.go\<close>) share one of them
    among proxies; their groups live in a heap, because callers keep pointers to groups that were removed.
  \<^item> Sessions. \<open>Client_Registry\<close> (\<open>server/registry\<close>), \<open>Session\<close> (\<open>server/control.go\<close>, \<open>server/service.go\<close>) and \<open>Control_Proxies\<close> hold
    who is connected, which control is current, and what it owns. Code that waits is split into steps, which other sessions interleave.
  \<^item> Proxies of the server. \<open>Server_Proxies\<close> (\<open>server/proxy\<close>, \<open>server/visitor\<close>) starts and closes them and admits visitors; \<open>Admission\<close>
    (with \<open>pkg/plugin/server\<close>) and \<open>Firewall\<close> (\<open>server/firewall\<close>) decide who gets in.
  \<^item> Hole punching. \<open>Nathole_Analysis\<close> and \<open>Nathole_Controller\<close> (\<open>pkg/nathole\<close>).
  \<^item> Protocol. \<open>Wire\<close> (\<open>pkg/proto/wire\<close>), \<open>Msg_V2\<close> (\<open>pkg/msg/wire_v2.go\<close>) and \<open>Handshake\<close>, over lists of bytes.
  \<^item> Configuration. \<open>Config_Types\<close>, \<open>Proxy_Config\<close>, \<open>Visitor_Config\<close>, \<open>Config_Validation\<close> (\<open>pkg/config\<close>), and \<open>Config_Source\<close>
    (\<open>pkg/config/source\<close>): file, store and their aggregation.
  \<^item> Client. \<open>Client_Proxies\<close> (\<open>client/proxy\<close>, \<open>client/health\<close>), \<open>Login_Loop\<close> (\<open>pkg/util/wait\<close>, \<open>client/service.go\<close>), \<open>Client_Service\<close>
    (\<open>client/service.go\<close>, \<open>control.go\<close>, \<open>config_manager.go\<close>, \<open>visitor/visitor_manager.go\<close>).
  \<^item> Statistics. \<open>Metrics\<close> (\<open>pkg/util/metric\<close>, \<open>pkg/metrics/mem\<close>).

  State is a record passed through the operations, errors are values, and what the environment answers (the clock, the order of a walk
  over a map, the outcome of a bind, a dial or a write) is an argument, so a theorem holds for every answer its
  hypotheses allow. Runs are inductive predicates. Third-party code (JSON, md5, SHA-256, HTTP exchanges) is a parameter.

  \<^bold>\<open>Interfaces.\<close> \<open>port_allocator\<close>, \<open>route_table\<close>, \<open>session_directory\<close>, \<open>listener_resource\<close> (for the TCP, HTTPS and TCPMux groups)
  and \<open>store_entries\<close> (for proxies and visitors) state what one part promises another, and are interpreted on the definitions of the parts.

  \<^bold>\<open>What is shown.\<close>
  Resources: free and used ports are disjoint and together the allowed ones (C2), the longest location wins and the table refines a map (C8, C17, C18), groups
  own what they share and hand it on in turn (C20 to C23).
  Sessions: every live session is found under its run id (C1, until the service is shut down), a login that waits for the session it
  replaces can go on without any help of that session's peer (C7, also during a shutdown), proxy names are exclusive (C3), the
  quota of ports holds (C10), a failed registration leaves its session as it was, whatever the other sessions do meanwhile (C19), the two
  maps of the registry agree (C11).
  Access: every visitor waiting at a secret proxy has its key and an allowed user (C5), every visitor that reaches a client for a hole punch has
  signed with the key (C9; the list of users is only checked for a message with a pre-check, so C9 does not speak of it), HTTP routes come and go as a whole (C12), ports
  are taken from the free ones and given back (C37), the firewall decides as its rules say (C31 to C33), and TCP connections and the cached
  filters of the other paths are admitted by one rule (C35, C36).
  Protocol: what one side writes the other reads (C27 to C30); hole punching assigns complementary roles (C24 to C26).
  Client: what runs is what the sources say (C4), the store survives failures (C6), sources merge by rank (C38), a stuck client comes back
  (C15), tunnels outlive the connection (C39), the messages of a proxy fit its phases (C13), and a configuration survives the message or is refused
  for a stated reason (C14, C34).
  Statistics: running proxies keep theirs, and days are counted right (C16, C40).

  \<^bold>\<open>Where the code falls short.\<close> Some lemmas show behaviour that contradicts what the code intends; the properties exclude those cases by a
  stated hypothesis. \<open>Client_Service.login_reload_race\<close>: a reload between the two halves of a login is lost, so the runs of C4 have none there.
  \<open>Client_Registry.shared_run_id_ghost\<close>: a run id that two clients bring leaves the first online for good, so C11 has the index find every
  online client only where run ids are not shared. \<open>Server_Proxies.tcpudp_listener_leak\<close> and \<open>Server_Proxies.udp_second_close\<close>: a failed start
  can leave a socket open and a second \<open>Close\<close> frees the port again, which C37 says; in \<open>Control_Proxies\<close> what a failed start leaves is \<open>ps_left\<close>.
  \<open>Metrics.total_connections_negative\<close>: the total of connections can fall below zero, so C16 speaks of single proxies.
  \<open>Metrics.dst_day_merged\<close> and \<open>Metrics.snapshot_misdates\<close>: a day of 23 hours is merged with the next and a copy can be misdated, so
  C40 assumes a zone without clock changes and its runs take no copies.

  \<^bold>\<open>Bounds.\<close> Strings are lists of bytes; the blanks and the cases of letters that are trimmed and folded are the ASCII ones. Recursion is structural or has a termination proof. The loop over a range of numbers that the code never leaves is \<open>None\<close>
  (\<open>rangeNumbers\<close>). Two loops have no bound of their own. \<open>backoffRounds\<close> stops after \<open>n\<close> rounds, and
  C15 shows that any \<open>n\<close> above \<open>max 3 N\<close> suffices. The retry loop of a group's \<open>Listen\<close> takes the list of interferences
  between its rounds, and C21 shows that it ends with an answer once they are over. Counters wrap at their width, and C16 assumes fewer
  than \<open>2 ^ 31\<close> opened connections. Floating point factors of the backoff are rational numbers.

  \<^bold>\<open>Not modelled.\<close> Sockets, TLS, QUIC, websockets, and the joining of connections and datagrams (the concrete client proxies and visitors, client plugins,
  virtual network, SSH gateway, UDP forwarding): their behaviour is that of the operating system and of libraries. The HTTP API and dashboard,
  command line, flags, templates, the old ini format and the parsing of files: encodings by reflection around the state modelled here.
  Token and OIDC authentication, whose outcome is an argument of the login. The message transporter, heartbeats and
  tickers: only the steps they trigger are modelled. Memory races: an operation under a lock is one step, and code without one is split only where
  the text says so.
\<close>

end
